(* ===== verification/Prelude.thy ===== *)
theory Prelude
  imports Main "HOL-Library.Word" "HOL-Library.Monad_Syntax"
begin

unbundle bit_operations_syntax

text \<open>
  Shared vocabulary of the development: the machine integers of the C sources as words,
  the error numbers the code returns, and the generic lemmas on lists, words and loops
  that the component theories use.
\<close>

type_synonym u8 = "8 word"
type_synonym u16 = "16 word"
type_synonym u32 = "32 word"
type_synonym u64 = "64 word"

named_theorems ring_simps "the FIFO laws of the descriptor rings"

section \<open>Error numbers (Linux asm-generic/errno)\<close>

abbreviation (input) ENOENT :: int where "ENOENT \<equiv> 2"
abbreviation (input) EINVAL :: int where "EINVAL \<equiv> 22"
abbreviation (input) ENOBUFS :: int where "ENOBUFS \<equiv> 105"
abbreviation (input) EDQUOT :: int where "EDQUOT \<equiv> 122"

section \<open>Words\<close>

lemma unat_and_mask:
  fixes x :: "'a::len word"
  shows "unat (x AND (2 ^ k - 1)) = unat x mod 2 ^ k"
  by (simp flip: mask_eq_exp_minus_1 take_bit_eq_mask
      add: unsigned_take_bit_eq take_bit_eq_mod [of k "unat x"])

lemma unat_diff_mod:
  fixes a b :: "'a::len word"
  assumes "k \<le> LENGTH('a)"
  shows "(unat b + unat (a - b)) mod 2 ^ k = unat a mod 2 ^ k"
proof -
  have "unat a = (unat b + unat (a - b)) mod 2 ^ LENGTH('a)"
    by (metis add.commute diff_add_cancel unat_word_ariths(1))
  moreover have "(2 :: nat) ^ k dvd 2 ^ LENGTH('a)"
    using assms by (rule le_imp_power_dvd)
  ultimately show ?thesis
    by (metis mod_mod_cancel)
qed

lemma unat_add_mod:
  fixes a b :: "'a::len word"
  assumes "k \<le> LENGTH('a)"
  shows "unat (a + b) mod 2 ^ k = (unat a + unat b) mod 2 ^ k"
  using assms by (metis le_imp_power_dvd mod_mod_cancel unat_word_ariths(1))


lemma unat_pow2:
  assumes "k < LENGTH('a)"
  shows "unat (2 ^ k :: 'a::len word) = 2 ^ k"
  using assms unat_of_nat [of "2 ^ k", where ?'a = 'a] by simp

lemma sint_small:
  fixes w :: u32
  assumes "unat w < 2 ^ 31"
  shows "sint w = int (unat w)"
proof -
  have "int (unat w) < int (2 ^ 31)"
    using assms by (simp only: of_nat_less_iff)
  then have "uint w < 2 ^ 31" by simp
  moreover have "- (2 ^ 31) \<le> uint w"
    by (rule order_trans [of _ 0]) auto
  ultimately have "signed_take_bit 31 (uint w) = uint w"
    by (intro signed_take_bit_int_eq_self)
  then show ?thesis
    by (simp add: sint_uint)
qed

section \<open>Arithmetic\<close>

lemma mod_add_small:
  fixes a b m :: nat
  assumes "a < m" "b < m"
  shows "(a + b) mod m = (if a + b < m then a + b else a + b - m)"
  using assms by (simp add: le_mod_geq)


lemma nat_pow2_iff:
  fixes n :: nat
  assumes "n AND (n - 1) = 0" "0 < n"
  shows "\<exists>k. n = 2 ^ k"
  using assms
proof (induction n rule: less_induct)
  case (less n)
  show ?case
  proof (cases "even n")
    case True
    then obtain a where a: "n = 2 * a" by (rule evenE)
    then have "(n - 1) div 2 = a - 1" by (cases a) auto
    moreover have "n AND (n - 1) = 2 * ((n div 2) AND ((n - 1) div 2))"
      using True by (subst and_rec) simp
    ultimately have "n AND (n - 1) = 2 * (a AND (a - 1))"
      using a by simp
    then show ?thesis
      using less.IH [of a] less.prems a by (auto intro: exI [of _ "Suc _"])
  next
    case False
    then obtain a where a: "n = 2 * a + 1" by (rule oddE)
    then have "n AND (n - 1) = 2 * a"
      by (subst and_rec) simp
    then show ?thesis
      using less.prems(1) a by (auto intro: exI [of _ 0])
  qed
qed

section \<open>Loops\<close>

text \<open>A \<open>for\<close> loop over a list of values, whose body may fail.\<close>

primrec fold_opt :: "('a \<Rightarrow> 's \<Rightarrow> 's option) \<Rightarrow> 'a list \<Rightarrow> 's \<Rightarrow> 's option" where
  "fold_opt f [] s = Some s"
| "fold_opt f (x # xs) s = do { s' \<leftarrow> f x s; fold_opt f xs s' }"

lemma fold_opt_append: "fold_opt f (xs @ ys) s = do { s' \<leftarrow> fold_opt f xs s; fold_opt f ys s' }"
  by (induction xs arbitrary: s) (auto split: Option.bind_splits)

lemma fold_opt_upt:
  assumes "P 0 s" "\<And>i s. i < n \<Longrightarrow> P i s \<Longrightarrow> \<exists>s'. f i s = Some s' \<and> P (Suc i) s'"
  shows "\<exists>s'. fold_opt f [0..<n] s = Some s' \<and> P n s'"
  using assms
proof (induction n)
  case (Suc n)
  then obtain s' where "fold_opt f [0..<n] s = Some s'" "P n s'" by auto
  moreover obtain s'' where "f n s' = Some s''" "P (Suc n) s''"
    using Suc.prems(2) [of n s'] calculation(2) by auto
  ultimately show ?case by (simp add: fold_opt_append)
qed simp

end
