(* ===== verification/Rte_Ring.thy ===== *)
theory Rte_Ring
  imports Prelude
begin

unbundle bit_operations_syntax

text \<open>
  The descriptor ring that carries every message between the service and its applications:
  \<open>dpdk-16.07/lib/librte_ring/rte_ring.h\<close> and \<open>rte_ring.c\<close>. Head and tail indices are
  32-bit words that run freely and wrap; a slot is an index masked by \<open>size - 1\<close>. The
  theory defines the single-producer and single-consumer operations, the multi-producer
  and multi-consumer ones as they run when no other thread interferes, and the queries.
  Their correctness is the subject of \<open>Rte_Ring_Fifo\<close>.
\<close>

section \<open>Data\<close>

datatype rte_ring_queue_behavior = RTE_RING_QUEUE_FIXED | RTE_RING_QUEUE_VARIABLE

record rte_ring_prod =
  watermark :: u32
  sp_enqueue :: bool
  prod_size :: u32
  prod_mask :: u32
  prod_head :: u32
  prod_tail :: u32

record rte_ring_cons =
  sc_dequeue :: bool
  cons_size :: u32
  cons_mask :: u32
  cons_head :: u32
  cons_tail :: u32

record 'a rte_ring =
  flags :: u32
  prod :: rte_ring_prod
  cons :: rte_ring_cons
  ring :: "'a list"

abbreviation (input) RING_F_SP_ENQ :: u32 where "RING_F_SP_ENQ \<equiv> 1"
abbreviation (input) RING_F_SC_DEQ :: u32 where "RING_F_SC_DEQ \<equiv> 2"
abbreviation (input) RTE_RING_QUOT_EXCEED :: u32 where "RTE_RING_QUOT_EXCEED \<equiv> 0x80000000"
abbreviation (input) RTE_RING_SZ_MASK :: u32 where "RTE_RING_SZ_MASK \<equiv> 0x0fffffff"

section \<open>Creation\<close>

definition POWEROF2 :: "u32 \<Rightarrow> bool" where
  "POWEROF2 x = (((x - 1) AND x) = 0)"

text \<open>\<open>hdr\<close> is \<open>sizeof(struct rte_ring)\<close>; the result is rounded up to a cache line.\<close>

definition rte_ring_get_memsize :: "int \<Rightarrow> u32 \<Rightarrow> int" where
  "rte_ring_get_memsize hdr count =
     (if \<not> POWEROF2 count \<or> count > RTE_RING_SZ_MASK then - EINVAL
      else ((hdr + uint count * 8 + 63) div 64) * 64)"

text \<open>\<open>fill\<close> is what the memory of the ring slots holds after \<open>memzone_reserve\<close>.\<close>

definition rte_ring_init :: "'a \<Rightarrow> u32 \<Rightarrow> u32 \<Rightarrow> 'a rte_ring" where
  "rte_ring_init fill count flgs =
     \<lparr>flags = flgs,
      prod = \<lparr>watermark = count, sp_enqueue = (flgs AND RING_F_SP_ENQ \<noteq> 0),
              prod_size = count, prod_mask = count - 1, prod_head = 0, prod_tail = 0\<rparr>,
      cons = \<lparr>sc_dequeue = (flgs AND RING_F_SC_DEQ \<noteq> 0),
              cons_size = count, cons_mask = count - 1, cons_head = 0, cons_tail = 0\<rparr>,
      ring = replicate (unat count) fill\<rparr>"

text \<open>\<open>mem\<close> says whether the memory reservations succeed.\<close>

definition rte_ring_create :: "int \<Rightarrow> bool \<Rightarrow> 'a \<Rightarrow> u32 \<Rightarrow> u32 \<Rightarrow> 'a rte_ring option" where
  "rte_ring_create hdr mem fill count flgs =
     (if rte_ring_get_memsize hdr count < 0 then None
      else if mem then Some (rte_ring_init fill count flgs) else None)"

definition rte_ring_set_water_mark :: "'a rte_ring \<Rightarrow> u32 \<Rightarrow> int \<times> 'a rte_ring" where
  "rte_ring_set_water_mark r count =
     (if count \<ge> prod_size (prod r) then (- EINVAL, r)
      else (0, r\<lparr>prod := (prod r)\<lparr>watermark := (if count = 0 then prod_size (prod r) else count)\<rparr>\<rparr>))"

section \<open>Copying the object table\<close>

text \<open>
  \<open>ENQUEUE_PTRS\<close>: when the objects fit before the end of the array they are stored four at
  a time and the rest by the falling-through \<open>switch\<close>; otherwise one by one, first up to
  the end of the array and then from its start.
\<close>

function enq_by4 :: "'a list \<Rightarrow> 'a list \<Rightarrow> nat \<Rightarrow> nat \<Rightarrow> nat \<Rightarrow> 'a list \<times> nat \<times> nat" where
  "enq_by4 rg tbl lim i idx =
     (if i < lim
      then enq_by4 (rg[idx := tbl ! i, idx + 1 := tbl ! (i + 1),
                       idx + 2 := tbl ! (i + 2), idx + 3 := tbl ! (i + 3)])
             tbl lim (i + 4) (idx + 4)
      else (rg, i, idx))"
  by pat_completeness auto
termination by (relation "measure (\<lambda>(rg, tbl, lim, i, idx). lim - i)") auto

fun enq_rest :: "nat \<Rightarrow> 'a list \<Rightarrow> 'a list \<Rightarrow> nat \<Rightarrow> nat \<Rightarrow> 'a list" where
  "enq_rest 0 rg tbl i idx = rg"
| "enq_rest (Suc k) rg tbl i idx = enq_rest k (rg[idx := tbl ! i]) tbl (i + 1) (idx + 1)"

function enq_upto :: "'a list \<Rightarrow> 'a list \<Rightarrow> nat \<Rightarrow> nat \<Rightarrow> nat \<Rightarrow> 'a list \<times> nat" where
  "enq_upto rg tbl sz i idx =
     (if idx < sz then enq_upto (rg[idx := tbl ! i]) tbl sz (i + 1) (idx + 1) else (rg, i))"
  by pat_completeness auto
termination by (relation "measure (\<lambda>(rg, tbl, sz, i, idx). sz - idx)") auto

function enq_from0 :: "'a list \<Rightarrow> 'a list \<Rightarrow> nat \<Rightarrow> nat \<Rightarrow> nat \<Rightarrow> 'a list" where
  "enq_from0 rg tbl n i idx =
     (if i < n then enq_from0 (rg[idx := tbl ! i]) tbl n (i + 1) (idx + 1) else rg)"
  by pat_completeness auto
termination by (relation "measure (\<lambda>(rg, tbl, n, i, idx). n - i)") auto

definition ENQUEUE_PTRS :: "'a rte_ring \<Rightarrow> 'a list \<Rightarrow> u32 \<Rightarrow> u32 \<Rightarrow> u32 \<Rightarrow> 'a list" where
  "ENQUEUE_PTRS r obj_table n phead msk =
     (let sz = prod_size (prod r); idx = phead AND msk in
      if idx + n < sz
      then (case enq_by4 (ring r) obj_table (unat (n AND NOT 3)) 0 (unat idx) of
              (rg, i, idx') \<Rightarrow> enq_rest (unat (n AND 3)) rg obj_table i idx')
      else (case enq_upto (ring r) obj_table (unat sz) 0 (unat idx) of
              (rg, i) \<Rightarrow> enq_from0 rg obj_table (unat n) i 0))"

text \<open>\<open>DEQUEUE_PTRS\<close> has the same shape, from the ring into the caller's table.\<close>

function deq_by4 :: "'a list \<Rightarrow> nat \<Rightarrow> nat \<Rightarrow> nat \<Rightarrow> 'a list \<Rightarrow> 'a list \<times> nat" where
  "deq_by4 rg lim i idx tbl =
     (if i < lim
      then deq_by4 rg lim (i + 4) (idx + 4)
             (tbl @ [rg ! idx, rg ! (idx + 1), rg ! (idx + 2), rg ! (idx + 3)])
      else (tbl, idx))"
  by pat_completeness auto
termination by (relation "measure (\<lambda>(rg, lim, i, idx, tbl). lim - i)") auto

fun deq_rest :: "nat \<Rightarrow> 'a list \<Rightarrow> nat \<Rightarrow> 'a list \<Rightarrow> 'a list" where
  "deq_rest 0 rg idx tbl = tbl"
| "deq_rest (Suc k) rg idx tbl = deq_rest k rg (idx + 1) (tbl @ [rg ! idx])"

function deq_upto :: "'a list \<Rightarrow> nat \<Rightarrow> nat \<Rightarrow> nat \<Rightarrow> 'a list \<Rightarrow> 'a list \<times> nat" where
  "deq_upto rg sz i idx tbl =
     (if idx < sz then deq_upto rg sz (i + 1) (idx + 1) (tbl @ [rg ! idx]) else (tbl, i))"
  by pat_completeness auto
termination by (relation "measure (\<lambda>(rg, sz, i, idx, tbl). sz - idx)") auto

function deq_from0 :: "'a list \<Rightarrow> nat \<Rightarrow> nat \<Rightarrow> nat \<Rightarrow> 'a list \<Rightarrow> 'a list" where
  "deq_from0 rg n i idx tbl =
     (if i < n then deq_from0 rg n (i + 1) (idx + 1) (tbl @ [rg ! idx]) else tbl)"
  by pat_completeness auto
termination by (relation "measure (\<lambda>(rg, n, i, idx, tbl). n - i)") auto

definition DEQUEUE_PTRS :: "'a rte_ring \<Rightarrow> u32 \<Rightarrow> u32 \<Rightarrow> u32 \<Rightarrow> 'a list" where
  "DEQUEUE_PTRS r n chead msk =
     (let sz = cons_size (cons r); idx = chead AND msk in
      if idx + n < sz
      then (case deq_by4 (ring r) (unat (n AND NOT 3)) 0 (unat idx) [] of
              (tbl, idx') \<Rightarrow> deq_rest (unat (n AND 3)) (ring r) idx' tbl)
      else (case deq_upto (ring r) (unat sz) 0 (unat idx) [] of
              (tbl, i) \<Rightarrow> deq_from0 (ring r) (unat n) i 0 tbl))"

declare enq_by4.simps [simp del] enq_upto.simps [simp del] enq_from0.simps [simp del]
  deq_by4.simps [simp del] deq_upto.simps [simp del] deq_from0.simps [simp del]


section \<open>Enqueue and dequeue\<close>

abbreviation set_prod_head :: "u32 \<Rightarrow> 'a rte_ring \<Rightarrow> 'a rte_ring" where
  "set_prod_head h r \<equiv> r\<lparr>prod := (prod r)\<lparr>prod_head := h\<rparr>\<rparr>"

abbreviation set_prod_tail :: "u32 \<Rightarrow> 'a rte_ring \<Rightarrow> 'a rte_ring" where
  "set_prod_tail t r \<equiv> r\<lparr>prod := (prod r)\<lparr>prod_tail := t\<rparr>\<rparr>"

abbreviation set_cons_head :: "u32 \<Rightarrow> 'a rte_ring \<Rightarrow> 'a rte_ring" where
  "set_cons_head h r \<equiv> r\<lparr>cons := (cons r)\<lparr>cons_head := h\<rparr>\<rparr>"

abbreviation set_cons_tail :: "u32 \<Rightarrow> 'a rte_ring \<Rightarrow> 'a rte_ring" where
  "set_cons_tail t r \<equiv> r\<lparr>cons := (cons r)\<lparr>cons_tail := t\<rparr>\<rparr>"

text \<open>The value both enqueue functions return after storing \<open>n\<close> objects.\<close>

definition enq_ret :: "'a rte_ring \<Rightarrow> u32 \<Rightarrow> u32 \<Rightarrow> rte_ring_queue_behavior \<Rightarrow> int" where
  "enq_ret r free_entries n behavior =
     (if (prod_mask (prod r) + 1) - free_entries + n > watermark (prod r)
      then (if behavior = RTE_RING_QUEUE_FIXED then - EDQUOT
            else sint (n OR RTE_RING_QUOT_EXCEED))
      else (if behavior = RTE_RING_QUEUE_FIXED then 0 else sint n))"

definition rte_ring_sp_do_enqueue ::
  "'a rte_ring \<Rightarrow> 'a list \<Rightarrow> u32 \<Rightarrow> rte_ring_queue_behavior \<Rightarrow> int \<times> 'a rte_ring" where
  "rte_ring_sp_do_enqueue r obj_table n behavior =
     (let msk = prod_mask (prod r); phead = prod_head (prod r); ctail = cons_tail (cons r);
          free_entries = msk + ctail - phead in
      if n > free_entries \<and> behavior = RTE_RING_QUEUE_FIXED then (- ENOBUFS, r)
      else if n > free_entries \<and> free_entries = 0 then (0, r)
      else
        (let n' = (if n > free_entries then free_entries else n);
             prod_next = phead + n';
             r1 = set_prod_head prod_next r;
             r2 = r1\<lparr>ring := ENQUEUE_PTRS r1 obj_table n' phead msk\<rparr>
         in (enq_ret r2 free_entries n' behavior, set_prod_tail prod_next r2)))"

text \<open>
  The multi-producer enqueue in its three atomic phases: \<open>mp_reserve\<close> is one round of the
  compare-and-set loop (\<open>Inl\<close> the early return, \<open>Inr\<close> the reserved range), \<open>mp_store\<close>
  writes the reserved slots, \<open>mp_publish\<close> moves the tail once the producers before have
  moved it. Run alone, the compare-and-set succeeds in its first round, and the wait for
  the tail ends at once exactly when \<open>prod_tail = prod_head\<close>; otherwise it never ends
  (\<open>None\<close>).
\<close>

definition mp_reserve ::
  "'a rte_ring \<Rightarrow> u32 \<Rightarrow> rte_ring_queue_behavior \<Rightarrow> int + (u32 \<times> u32 \<times> u32)" where
  "mp_reserve r maxn behavior =
     (let msk = prod_mask (prod r); phead = prod_head (prod r); ctail = cons_tail (cons r);
          free_entries = msk + ctail - phead in
      if maxn > free_entries \<and> behavior = RTE_RING_QUEUE_FIXED then Inl (- ENOBUFS)
      else if maxn > free_entries \<and> free_entries = 0 then Inl 0
      else Inr (phead, free_entries, (if maxn > free_entries then free_entries else maxn)))"

definition mp_store :: "'a rte_ring \<Rightarrow> 'a list \<Rightarrow> u32 \<Rightarrow> u32 \<Rightarrow> 'a rte_ring" where
  "mp_store r obj_table n phead =
     r\<lparr>ring := ENQUEUE_PTRS r obj_table n phead (prod_mask (prod r))\<rparr>"

definition mp_publish :: "'a rte_ring \<Rightarrow> u32 \<Rightarrow> u32 \<Rightarrow> 'a rte_ring option" where
  "mp_publish r phead prod_next =
     (if prod_tail (prod r) = phead then Some (set_prod_tail prod_next r) else None)"

definition rte_ring_mp_do_enqueue ::
  "'a rte_ring \<Rightarrow> 'a list \<Rightarrow> u32 \<Rightarrow> rte_ring_queue_behavior \<Rightarrow> (int \<times> 'a rte_ring) option" where
  "rte_ring_mp_do_enqueue r obj_table maxn behavior =
     (if maxn = 0 then Some (0, r)
      else case mp_reserve r maxn behavior of
        Inl ret \<Rightarrow> Some (ret, r)
      | Inr (phead, free_entries, n) \<Rightarrow>
          (let r1 = set_prod_head (phead + n) r;
               r2 = mp_store r1 obj_table n phead in
           do { r3 \<leftarrow> mp_publish r2 phead (phead + n);
                Some (enq_ret r2 free_entries n behavior, r3) }))"

definition rte_ring_sc_do_dequeue ::
  "'a rte_ring \<Rightarrow> u32 \<Rightarrow> rte_ring_queue_behavior \<Rightarrow> int \<times> 'a list \<times> 'a rte_ring" where
  "rte_ring_sc_do_dequeue r n behavior =
     (let msk = prod_mask (prod r); chead = cons_head (cons r); ptail = prod_tail (prod r);
          entries = ptail - chead in
      if n > entries \<and> behavior = RTE_RING_QUEUE_FIXED then (- ENOENT, [], r)
      else if n > entries \<and> entries = 0 then (0, [], r)
      else
        (let n' = (if n > entries then entries else n);
             cons_next = chead + n';
             r1 = set_cons_head cons_next r;
             objs = DEQUEUE_PTRS r1 n' chead msk
         in (if behavior = RTE_RING_QUEUE_FIXED then 0 else sint n',
             objs, set_cons_tail cons_next r1)))"

definition rte_ring_mc_do_dequeue ::
  "'a rte_ring \<Rightarrow> u32 \<Rightarrow> rte_ring_queue_behavior \<Rightarrow> (int \<times> 'a list \<times> 'a rte_ring) option" where
  "rte_ring_mc_do_dequeue r maxn behavior =
     (if maxn = 0 then Some (0, [], r)
      else
        (let msk = prod_mask (prod r); chead = cons_head (cons r); ptail = prod_tail (prod r);
             entries = ptail - chead in
         if maxn > entries \<and> behavior = RTE_RING_QUEUE_FIXED then Some (- ENOENT, [], r)
         else if maxn > entries \<and> entries = 0 then Some (0, [], r)
         else
           (let n = (if maxn > entries then entries else maxn);
                cons_next = chead + n;
                r1 = set_cons_head cons_next r;
                objs = DEQUEUE_PTRS r1 n chead msk
            in if cons_tail (cons r1) \<noteq> chead then None
               else Some (if behavior = RTE_RING_QUEUE_FIXED then 0 else sint n,
                          objs, set_cons_tail cons_next r1))))"


section \<open>The operations the clients call\<close>

definition rte_ring_mp_enqueue_bulk :: "'a rte_ring \<Rightarrow> 'a list \<Rightarrow> u32 \<Rightarrow> (int \<times> 'a rte_ring) option" where
  "rte_ring_mp_enqueue_bulk r obj_table n = rte_ring_mp_do_enqueue r obj_table n RTE_RING_QUEUE_FIXED"

definition rte_ring_sp_enqueue_bulk :: "'a rte_ring \<Rightarrow> 'a list \<Rightarrow> u32 \<Rightarrow> int \<times> 'a rte_ring" where
  "rte_ring_sp_enqueue_bulk r obj_table n = rte_ring_sp_do_enqueue r obj_table n RTE_RING_QUEUE_FIXED"

definition rte_ring_enqueue :: "'a rte_ring \<Rightarrow> 'a \<Rightarrow> (int \<times> 'a rte_ring) option" where
  "rte_ring_enqueue r obj =
     (if sp_enqueue (prod r) then Some (rte_ring_sp_enqueue_bulk r [obj] 1)
      else rte_ring_mp_enqueue_bulk r [obj] 1)"

definition rte_ring_sp_enqueue_burst :: "'a rte_ring \<Rightarrow> 'a list \<Rightarrow> u32 \<Rightarrow> int \<times> 'a rte_ring" where
  "rte_ring_sp_enqueue_burst r obj_table n = rte_ring_sp_do_enqueue r obj_table n RTE_RING_QUEUE_VARIABLE"

definition rte_ring_mc_dequeue_bulk :: "'a rte_ring \<Rightarrow> u32 \<Rightarrow> (int \<times> 'a list \<times> 'a rte_ring) option" where
  "rte_ring_mc_dequeue_bulk r n = rte_ring_mc_do_dequeue r n RTE_RING_QUEUE_FIXED"

definition rte_ring_sc_dequeue_bulk :: "'a rte_ring \<Rightarrow> u32 \<Rightarrow> int \<times> 'a list \<times> 'a rte_ring" where
  "rte_ring_sc_dequeue_bulk r n = rte_ring_sc_do_dequeue r n RTE_RING_QUEUE_FIXED"

definition rte_ring_dequeue_bulk :: "'a rte_ring \<Rightarrow> u32 \<Rightarrow> (int \<times> 'a list \<times> 'a rte_ring) option" where
  "rte_ring_dequeue_bulk r n =
     (if sc_dequeue (cons r) then Some (rte_ring_sc_dequeue_bulk r n)
      else rte_ring_mc_dequeue_bulk r n)"

definition rte_ring_dequeue :: "'a rte_ring \<Rightarrow> (int \<times> 'a list \<times> 'a rte_ring) option" where
  "rte_ring_dequeue r =
     (if sc_dequeue (cons r) then Some (rte_ring_sc_dequeue_bulk r 1)
      else rte_ring_mc_dequeue_bulk r 1)"

definition rte_ring_sc_dequeue_burst :: "'a rte_ring \<Rightarrow> u32 \<Rightarrow> int \<times> 'a list \<times> 'a rte_ring" where
  "rte_ring_sc_dequeue_burst r n = rte_ring_sc_do_dequeue r n RTE_RING_QUEUE_VARIABLE"

definition rte_ring_full :: "'a rte_ring \<Rightarrow> bool" where
  "rte_ring_full r = ((cons_tail (cons r) - prod_tail (prod r) - 1) AND prod_mask (prod r) = 0)"

definition rte_ring_empty :: "'a rte_ring \<Rightarrow> bool" where
  "rte_ring_empty r = (cons_tail (cons r) = prod_tail (prod r))"

definition rte_ring_count :: "'a rte_ring \<Rightarrow> u32" where
  "rte_ring_count r = (prod_tail (prod r) - cons_tail (cons r)) AND prod_mask (prod r)"

definition rte_ring_free_count :: "'a rte_ring \<Rightarrow> u32" where
  "rte_ring_free_count r = (cons_tail (cons r) - prod_tail (prod r) - 1) AND prod_mask (prod r)"

end
