(* ===== verification/Rte_Ring_Fifo.thy ===== *)
theory Rte_Ring_Fifo
  imports Rte_Ring
begin

unbundle bit_operations_syntax

text \<open>
  The ring of \<open>Rte_Ring\<close> implements a bounded FIFO queue, also across the wrap-around of its
  32-bit indices and with the copy loops unrolled by four: \<open>ring_list\<close> is the queue a ring
  stands for, \<open>ring_ok\<close> its invariant. The contract its clients rely on is the locale
  \<open>bounded_fifo\<close>, interpreted for the general and for the single-producer,
  single-consumer operations.
\<close>

section \<open>The copy loops\<close>

lemma enq_rest_add:
  "enq_rest (a + b) rg tbl i idx = enq_rest b (enq_rest a rg tbl i idx) tbl (i + a) (idx + a)"
  by (induction a arbitrary: rg i idx) auto

lemma enq_by4_eq:
  "enq_by4 rg tbl (i + 4 * m) i idx = (enq_rest (4 * m) rg tbl i idx, i + 4 * m, idx + 4 * m)"
proof (induction m arbitrary: rg i idx)
  case 0
  then show ?case by (simp add: enq_by4.simps)
next
  case (Suc m)
  have "enq_by4 rg tbl (i + 4 * Suc m) i idx =
    enq_by4 (enq_rest 4 rg tbl i idx) tbl ((i + 4) + 4 * m) (i + 4) (idx + 4)"
    by (subst enq_by4.simps) (simp add: numeral_eq_Suc)
  also have "\<dots> = (enq_rest (4 + 4 * m) rg tbl i idx, i + 4 * Suc m, idx + 4 * Suc m)"
    unfolding Suc.IH by (simp only: enq_rest_add) simp
  finally show ?case by simp
qed

lemma enq_rest_pos:
  "0 < k \<Longrightarrow> enq_rest k rg tbl i idx = enq_rest (k - 1) (rg[idx := tbl ! i]) tbl (i + 1) (idx + 1)"
  by (cases k) auto

lemma enq_upto_eq:
  "idx \<le> sz \<Longrightarrow> enq_upto rg tbl sz i idx = (enq_rest (sz - idx) rg tbl i idx, i + (sz - idx))"
  by (induction rg tbl sz i idx rule: enq_upto.induct)
     (subst enq_upto.simps, auto simp: enq_rest_pos [of "_ - _"])

lemma enq_from0_eq:
  "i \<le> n \<Longrightarrow> enq_from0 rg tbl n i idx = enq_rest (n - i) rg tbl i idx"
  by (induction rg tbl n i idx rule: enq_from0.induct)
     (subst enq_from0.simps, auto simp: enq_rest_pos [of "_ - _"])

lemma length_enq_rest [simp]: "length (enq_rest k rg tbl i idx) = length rg"
  by (induction k arbitrary: rg i idx) auto

lemma nth_enq_rest:
  "j < length rg \<Longrightarrow>
   enq_rest k rg tbl i idx ! j = (if idx \<le> j \<and> j < idx + k then tbl ! (i + (j - idx)) else rg ! j)"
proof (induction k arbitrary: rg i idx)
  case (Suc k)
  have "enq_rest (Suc k) rg tbl i idx ! j =
    (if Suc idx \<le> j \<and> j < Suc idx + k then tbl ! (Suc i + (j - Suc idx)) else rg[idx := tbl ! i] ! j)"
    using Suc.prems by (simp add: Suc.IH)
  moreover have "Suc i + (j - Suc idx) = i + (j - idx)" if "Suc idx \<le> j"
    using that by simp
  ultimately show ?case
    using Suc.prems by (auto simp: nth_list_update not_less_eq_eq le_Suc_eq)
qed auto

lemma deq_rest_eq: "deq_rest k rg idx tbl = tbl @ map ((!) rg) [idx..<idx + k]"
proof (induction k arbitrary: idx tbl)
  case (Suc k)
  have "[idx..<idx + Suc k] = idx # [Suc idx..<Suc idx + k]"
    by (simp add: upt_conv_Cons)
  then show ?case by (simp only: deq_rest.simps Suc.IH) simp
qed simp

lemma deq_rest_add: "deq_rest (a + b) rg idx tbl = deq_rest b rg (idx + a) (deq_rest a rg idx tbl)"
  by (induction a arbitrary: idx tbl) auto

lemma deq_by4_eq:
  "deq_by4 rg (i + 4 * m) i idx tbl = (deq_rest (4 * m) rg idx tbl, idx + 4 * m)"
proof (induction m arbitrary: i idx tbl)
  case 0
  then show ?case by (simp add: deq_by4.simps)
next
  case (Suc m)
  have "deq_by4 rg (i + 4 * Suc m) i idx tbl =
    deq_by4 rg ((i + 4) + 4 * m) (i + 4) (idx + 4) (deq_rest 4 rg idx tbl)"
    by (subst deq_by4.simps) (simp add: numeral_eq_Suc)
  also have "\<dots> = (deq_rest (4 + 4 * m) rg idx tbl, idx + 4 * Suc m)"
    unfolding Suc.IH by (simp only: deq_rest_add) simp
  finally show ?case by simp
qed

lemma deq_rest_pos:
  "0 < k \<Longrightarrow> deq_rest k rg idx tbl = deq_rest (k - 1) rg (idx + 1) (tbl @ [rg ! idx])"
  by (cases k) auto

lemma deq_upto_eq:
  "idx \<le> sz \<Longrightarrow> deq_upto rg sz i idx tbl = (deq_rest (sz - idx) rg idx tbl, i + (sz - idx))"
  by (induction rg sz i idx tbl rule: deq_upto.induct)
     (subst deq_upto.simps, auto simp: deq_rest_pos [of "_ - _"])

lemma deq_from0_eq:
  "i \<le> n \<Longrightarrow> deq_from0 rg n i idx tbl = deq_rest (n - i) rg idx tbl"
  by (induction rg n i idx tbl rule: deq_from0.induct)
     (subst deq_from0.simps, auto simp: deq_rest_pos [of "_ - _"])


section \<open>What the copies do to a circular array\<close>

lemma unat_and_not3:
  fixes n :: u32
  shows "unat (n AND NOT 3) = 4 * (unat n div 4)"
proof -
  have three: "unat (n AND 3) = unat n mod 4"
    using unat_and_mask [of n 2] by simp
  have "n - (n AND 3) = n AND NOT (n AND 3)"
    by (rule disjunctive_diff) (simp add: bit_and_iff)
  also have "\<dots> = n AND NOT 3"
    by (rule bit_eqI) (auto simp: bit_simps)
  finally have "unat (n AND NOT 3) = unat (n - (n AND 3))"
    by simp
  also have "\<dots> = unat n - unat (n AND 3)"
    by (rule unat_sub) (simp add: word_and_le2)
  finally show ?thesis
    using three by (simp add: minus_mod_eq_mult_div)
qed

lemma unat_and3:
  fixes n :: u32
  shows "unat (n AND 3) = unat n mod 4"
  using unat_and_mask [of n 2] by simp

lemma enq_ptrs_flat:
  fixes n phead msk :: u32
  assumes n: "unat n \<le> 2 ^ k" and idx: "unat (phead AND msk) = i0" "i0 < 2 ^ k"
    and sz: "prod_size (prod r) = 2 ^ k" and k: "k < 28"
  shows "ENQUEUE_PTRS r tbl n phead msk =
    (if i0 + unat n < 2 ^ k then enq_rest (unat n) (ring r) tbl 0 i0
     else enq_rest (unat n - (2 ^ k - i0)) (enq_rest (2 ^ k - i0) (ring r) tbl 0 i0)
            tbl (2 ^ k - i0) 0)"
proof -
  have pow: "(2 :: nat) ^ k \<le> 2 ^ 27"
    using k by (intro power_increasing) auto
  have usz: "unat (2 ^ k :: u32) = 2 ^ k"
    using k by (simp add: unat_pow2)
  have "unat ((phead AND msk) + n) = i0 + unat n"
    using n idx pow by (simp add: unat_word_ariths)
  then have less: "(phead AND msk) + n < prod_size (prod r) \<longleftrightarrow> i0 + unat n < 2 ^ k"
    by (simp add: word_less_nat_alt sz usz)
  have by4: "enq_by4 (ring r) tbl (4 * (unat n div 4)) 0 i0 =
      (enq_rest (4 * (unat n div 4)) (ring r) tbl 0 i0, 4 * (unat n div 4), i0 + 4 * (unat n div 4))"
    using enq_by4_eq [of "ring r" tbl 0 "unat n div 4" i0] by simp
  have "enq_rest (unat n mod 4) (enq_rest (4 * (unat n div 4)) (ring r) tbl 0 i0) tbl
      (4 * (unat n div 4)) (i0 + 4 * (unat n div 4)) = enq_rest (unat n) (ring r) tbl 0 i0"
    using enq_rest_add [of "4 * (unat n div 4)" "unat n mod 4" "ring r" tbl 0 i0] by simp
  then show ?thesis
    using idx n less
    by (simp add: ENQUEUE_PTRS_def Let_def unat_and_not3 [simplified] unat_and3 by4 sz usz enq_upto_eq
        enq_from0_eq)
qed


lemma enq_ptrs_nth:
  fixes n phead msk :: u32
  assumes n: "unat n \<le> 2 ^ k" and idx: "unat (phead AND msk) = i0" "i0 < 2 ^ k"
    and sz: "prod_size (prod r) = 2 ^ k" and k: "k < 28"
    and len: "length (ring r) = 2 ^ k" and d: "d < 2 ^ k"
  shows "ENQUEUE_PTRS r tbl n phead msk ! ((i0 + d) mod 2 ^ k) =
    (if d < unat n then tbl ! d else ring r ! ((i0 + d) mod 2 ^ k))"
proof -
  have flat: "ENQUEUE_PTRS r tbl n phead msk =
    (if i0 + unat n < 2 ^ k then enq_rest (unat n) (ring r) tbl 0 i0
     else enq_rest (unat n - (2 ^ k - i0)) (enq_rest (2 ^ k - i0) (ring r) tbl 0 i0)
            tbl (2 ^ k - i0) 0)"
    using assms by (intro enq_ptrs_flat)
  show ?thesis
    unfolding flat mod_add_small [OF idx(2) d]
    using n idx(2) d len by (auto simp: nth_enq_rest)
qed

lemma length_enq_ptrs:
  fixes n phead msk :: u32
  assumes "unat n \<le> 2 ^ k" "unat (phead AND msk) = i0" "i0 < 2 ^ k"
    and "prod_size (prod r) = 2 ^ k" "k < 28"
  shows "length (ENQUEUE_PTRS r tbl n phead msk) = length (ring r)"
  using enq_ptrs_flat [OF assms] by simp

lemma deq_ptrs_eq:
  fixes n chead msk :: u32
  assumes n: "unat n \<le> 2 ^ k" and idx: "unat (chead AND msk) = i0" "i0 < 2 ^ k"
    and sz: "cons_size (cons r) = 2 ^ k" and k: "k < 28"
  shows "DEQUEUE_PTRS r n chead msk = map (\<lambda>d. ring r ! ((i0 + d) mod 2 ^ k)) [0..<unat n]"
proof -
  have pow: "(2 :: nat) ^ k \<le> 2 ^ 27"
    using k by (intro power_increasing) auto
  have usz: "unat (2 ^ k :: u32) = 2 ^ k"
    using k by (simp add: unat_pow2)
  have "unat ((chead AND msk) + n) = i0 + unat n"
    using n idx pow by (simp add: unat_word_ariths)
  then have less: "(chead AND msk) + n < cons_size (cons r) \<longleftrightarrow> i0 + unat n < 2 ^ k"
    by (simp add: word_less_nat_alt sz usz)
  have by4: "deq_by4 (ring r) (4 * (unat n div 4)) 0 i0 [] =
      (deq_rest (4 * (unat n div 4)) (ring r) i0 [], i0 + 4 * (unat n div 4))"
    using deq_by4_eq [of "ring r" 0 "unat n div 4" i0 "[]"] by simp
  have all: "deq_rest (unat n mod 4) (ring r) (i0 + 4 * (unat n div 4))
      (deq_rest (4 * (unat n div 4)) (ring r) i0 []) = deq_rest (unat n) (ring r) i0 []"
    using deq_rest_add [of "4 * (unat n div 4)" "unat n mod 4" "ring r" i0 "[]"] by simp
  have "DEQUEUE_PTRS r n chead msk =
    (if i0 + unat n < 2 ^ k then map ((!) (ring r)) [i0..<i0 + unat n]
     else map ((!) (ring r)) [i0..<2 ^ k] @ map ((!) (ring r)) [0..<unat n - (2 ^ k - i0)])"
    using idx n less
    by (simp add: DEQUEUE_PTRS_def Let_def unat_and_not3 [simplified] unat_and3 by4 all sz usz deq_upto_eq
        deq_from0_eq) (auto simp: deq_rest_eq)
  also have "\<dots> = map (\<lambda>d. ring r ! ((i0 + d) mod 2 ^ k)) [0..<unat n]"
    using n idx(2) by (intro nth_equalityI) (auto simp: mod_add_small nth_append less_diff_conv add.commute)
  finally show ?thesis .
qed


section \<open>The ring as a bounded FIFO queue\<close>

text \<open>
  A quiescent ring: a power-of-two size, no operation in flight, and at most \<open>size - 1\<close>
  entries between the indices.
\<close>

definition ring_ok :: "'a rte_ring \<Rightarrow> bool" where
  "ring_ok r \<longleftrightarrow>
     (\<exists>k\<in>{0..<28}. prod_size (prod r) = 2 ^ k) \<and> cons_size (cons r) = prod_size (prod r) \<and>
     prod_mask (prod r) = prod_size (prod r) - 1 \<and> cons_mask (cons r) = prod_mask (prod r) \<and>
     length (ring r) = unat (prod_size (prod r)) \<and>
     prod_head (prod r) = prod_tail (prod r) \<and> cons_head (cons r) = cons_tail (cons r) \<and>
     prod_tail (prod r) - cons_tail (cons r) \<le> prod_mask (prod r)"

definition ring_list :: "'a rte_ring \<Rightarrow> 'a list" where
  "ring_list r =
     map (\<lambda>d. ring r ! ((unat (cons_tail (cons r)) + d) mod length (ring r)))
       [0..<unat (prod_tail (prod r) - cons_tail (cons r))]"

definition ring_cap :: "'a rte_ring \<Rightarrow> nat" where
  "ring_cap r = unat (prod_mask (prod r))"

lemma ring_okE:
  assumes "ring_ok r"
  obtains k where "k < 28" "prod_size (prod r) = 2 ^ k" "cons_size (cons r) = 2 ^ k"
    "prod_mask (prod r) = 2 ^ k - 1" "cons_mask (cons r) = 2 ^ k - 1" "length (ring r) = 2 ^ k"
    "prod_head (prod r) = prod_tail (prod r)" "cons_head (cons r) = cons_tail (cons r)"
    "unat (prod_tail (prod r) - cons_tail (cons r)) < 2 ^ k"
    "ring_cap r = 2 ^ k - 1" "unat (2 ^ k - 1 :: u32) = 2 ^ k - 1"
proof -
  from assms obtain k where k: "k < 28" "prod_size (prod r) = 2 ^ k"
    by (auto simp: ring_ok_def)
  have u: "unat (2 ^ k - 1 :: u32) = 2 ^ k - 1"
    using k(1) by (subst unat_sub) (auto simp: unat_pow2 word_le_nat_alt)
  have "unat (prod_tail (prod r) - cons_tail (cons r)) \<le> unat (2 ^ k - 1 :: u32)"
    using assms k(2) unfolding ring_ok_def word_le_nat_alt by metis
  then have "unat (prod_tail (prod r) - cons_tail (cons r)) < 2 ^ k"
    unfolding u by (simp add: order_le_less_trans)
  with that k u assms show ?thesis
    by (simp add: ring_ok_def ring_cap_def unat_pow2)
qed

lemma length_ring_list: "length (ring_list r) = unat (prod_tail (prod r) - cons_tail (cons r))"
  by (simp add: ring_list_def)

lemma ring_list_le_cap: "ring_ok r \<Longrightarrow> length (ring_list r) \<le> ring_cap r"
  by (auto simp: length_ring_list ring_cap_def ring_ok_def word_le_nat_alt)

lemma free_entries_eq:
  assumes "ring_ok r"
  shows "unat (prod_mask (prod r) + cons_tail (cons r) - prod_head (prod r)) =
    ring_cap r - length (ring_list r)"
proof -
  have "prod_mask (prod r) + cons_tail (cons r) - prod_head (prod r) =
      prod_mask (prod r) - (prod_tail (prod r) - cons_tail (cons r))"
    using assms by (simp add: ring_ok_def)
  also have "unat \<dots> = unat (prod_mask (prod r)) - unat (prod_tail (prod r) - cons_tail (cons r))"
    using assms unfolding ring_ok_def by (intro unat_sub) blast
  finally show ?thesis
    by (simp add: ring_cap_def length_ring_list)
qed

lemma entries_eq:
  "ring_ok r \<Longrightarrow> unat (prod_tail (prod r) - cons_head (cons r)) = length (ring_list r)"
  by (simp add: length_ring_list ring_ok_def)


lemma ring_pos:
  fixes p c :: u32
  assumes "k < 28"
  shows "(unat c + (unat (p - c) + e)) mod 2 ^ k = (unat p mod 2 ^ k + e) mod 2 ^ k"
proof -
  have "(unat c + unat (p - c)) mod 2 ^ k = unat p mod 2 ^ k"
    using assms by (intro unat_diff_mod) simp
  then show ?thesis
    by (metis add.assoc mod_add_left_eq)
qed

lemma ring_pos_back:
  fixes p c :: u32
  assumes "k < 28" "d < unat (p - c)" "unat (p - c) < 2 ^ k"
  shows "(unat c + d) mod 2 ^ k = (unat p mod 2 ^ k + (2 ^ k - unat (p - c) + d)) mod 2 ^ k"
proof -
  have "unat c + d + 2 ^ k = unat c + (unat (p - c) + (2 ^ k - unat (p - c) + d))"
    using assms(3) by simp
  then show ?thesis
    by (metis assms(1) mod_add_self2 ring_pos)
qed

text \<open>Writing \<open>m\<close> slots behind the \<open>p - c\<close> occupied ones extends the window by these slots.\<close>

lemma window_extend:
  fixes p c :: u32
  assumes k: "k < 28" "unat (p - c) < 2 ^ k" and m: "m < 2 ^ k - unat (p - c)" "m \<le> length tbl"
    and nth: "\<And>d. d < 2 ^ k \<Longrightarrow> rg' ! ((unat p mod 2 ^ k + d) mod 2 ^ k) =
      (if d < m then tbl ! d else rg ! ((unat p mod 2 ^ k + d) mod 2 ^ k))"
  shows "map (\<lambda>d. rg' ! ((unat c + d) mod 2 ^ k)) [0..<unat (p - c) + m] =
    map (\<lambda>d. rg ! ((unat c + d) mod 2 ^ k)) [0..<unat (p - c)] @ take m tbl"
proof (rule nth_equalityI)
  fix d assume "d < length (map (\<lambda>d. rg' ! ((unat c + d) mod 2 ^ k)) [0..<unat (p - c) + m])"
  then have d: "d < unat (p - c) + m" by simp
  have "rg' ! ((unat c + d) mod 2 ^ k) =
      (if d < unat (p - c) then rg ! ((unat c + d) mod 2 ^ k) else tbl ! (d - unat (p - c)))"
  proof (cases "d < unat (p - c)")
    case True
    then have lt: "2 ^ k - unat (p - c) + d < 2 ^ k" "\<not> 2 ^ k - unat (p - c) + d < m"
      using m(1) k(2) by auto
    show ?thesis
      unfolding ring_pos_back [OF k(1) True k(2)] nth [OF lt(1)] using lt(2) True by simp
  next
    case False
    then have lt: "d - unat (p - c) < 2 ^ k" "d - unat (p - c) < m"
      and eq: "d = unat (p - c) + (d - unat (p - c))"
      using d m(1) by auto
    have "rg' ! ((unat c + d) mod 2 ^ k) = tbl ! (d - unat (p - c))"
      by (subst eq, subst ring_pos [OF k(1)], subst nth [OF lt(1)]) (use lt(2) in simp)
    with False show ?thesis by simp
  qed
  then show "map (\<lambda>d. rg' ! ((unat c + d) mod 2 ^ k)) [0..<unat (p - c) + m] ! d =
    (map (\<lambda>d. rg ! ((unat c + d) mod 2 ^ k)) [0..<unat (p - c)] @ take m tbl) ! d"
    using d by (simp add: nth_append)
qed (use m in simp)

definition enq_step :: "'a rte_ring \<Rightarrow> 'a list \<Rightarrow> u32 \<Rightarrow> 'a rte_ring" where
  "enq_step r tbl n =
     (let phead = prod_head (prod r); r1 = set_prod_head (phead + n) r in
      set_prod_tail (phead + n)
        (r1\<lparr>ring := ENQUEUE_PTRS r1 tbl n phead (prod_mask (prod r))\<rparr>))"

lemma enq_step:
  assumes ok: "ring_ok r" and n: "unat n \<le> ring_cap r - length (ring_list r)" "unat n \<le> length tbl"
  shows "ring_ok (enq_step r tbl n) \<and> ring_list (enq_step r tbl n) = ring_list r @ take (unat n) tbl"
proof -
  obtain k where k: "k < 28" "prod_size (prod r) = 2 ^ k" "cons_size (cons r) = 2 ^ k"
    "prod_mask (prod r) = 2 ^ k - 1" "cons_mask (cons r) = 2 ^ k - 1" "length (ring r) = 2 ^ k"
    "prod_head (prod r) = prod_tail (prod r)" "cons_head (cons r) = cons_tail (cons r)"
    "unat (prod_tail (prod r) - cons_tail (cons r)) < 2 ^ k"
    "ring_cap r = 2 ^ k - 1" "unat (2 ^ k - 1 :: u32) = 2 ^ k - 1"
    by (rule ring_okE [OF ok])
  define p c where pc: "p = prod_tail (prod r)" "c = cons_tail (cons r)"
  define rg where "rg = ENQUEUE_PTRS (set_prod_head (p + n) r) tbl n p (2 ^ k - 1)"
  have n': "unat n < 2 ^ k - unat (p - c)" "unat n \<le> 2 ^ k"
    using n(1) k(9,10) by (auto simp: length_ring_list pc)
  have i0: "unat (p AND (2 ^ k - 1)) = unat p mod 2 ^ k" "unat p mod 2 ^ k < 2 ^ k"
    by (simp_all add: unat_and_mask)
  have nth: "rg ! ((unat p mod 2 ^ k + d) mod 2 ^ k) =
      (if d < unat n then tbl ! d else ring r ! ((unat p mod 2 ^ k + d) mod 2 ^ k))"
    if "d < 2 ^ k" for d
    using enq_ptrs_nth [OF n'(2) i0, of "set_prod_head (p + n) r" d tbl] that k
    unfolding rg_def by simp
  have len: "length rg = 2 ^ k"
    using length_enq_ptrs [OF n'(2) i0, of "set_prod_head (p + n) r" tbl] k unfolding rg_def by simp
  have r': "enq_step r tbl n = set_prod_tail (p + n) ((set_prod_head (p + n) r)\<lparr>ring := rg\<rparr>)"
    unfolding enq_step_def rg_def Let_def by (simp add: k pc)
  have pow: "(2 :: nat) ^ k \<le> 2 ^ 27"
    using k(1) by (intro power_increasing) auto
  have "unat ((p - c) + n) = unat (p - c) + unat n"
    by (rule unat_add_lem [THEN iffD1]) (use n'(1) pow in simp)
  then have grow: "unat (p + n - c) = unat (p - c) + unat n"
    by (simp add: algebra_simps)
  have "ring_list (enq_step r tbl n) = ring_list r @ take (unat n) tbl"
    using window_extend [OF k(1) _ n'(1) n(2) nth] k(9)
    by (simp add: ring_list_def r' grow len k(6) pc [symmetric])
  moreover have "ring_ok (enq_step r tbl n)"
    using k(1-6,8) n'(1) grow k(11)
    by (auto simp: ring_ok_def r' len unat_pow2 pc [symmetric] word_le_nat_alt)
  ultimately show ?thesis by simp
qed

lemma enq_step_frame [simp]:
  "watermark (prod (enq_step r tbl n)) = watermark (prod r)"
  "sp_enqueue (prod (enq_step r tbl n)) = sp_enqueue (prod r)"
  "cons (enq_step r tbl n) = cons r"
  "prod_size (prod (enq_step r tbl n)) = prod_size (prod r)"
  "ring_cap (enq_step r tbl n) = ring_cap r"
  by (simp_all add: enq_step_def Let_def ring_cap_def)


text \<open>The dequeue counterpart: taking \<open>n\<close> entries off the front.\<close>

definition deq_step :: "'a rte_ring \<Rightarrow> u32 \<Rightarrow> 'a rte_ring" where
  "deq_step r n =
     (let cons_next = cons_head (cons r) + n in set_cons_tail cons_next (set_cons_head cons_next r))"

lemma deq_step:
  assumes ok: "ring_ok r" and n: "unat n \<le> length (ring_list r)"
  shows "ring_ok (deq_step r n) \<and> ring_list (deq_step r n) = drop (unat n) (ring_list r) \<and>
    DEQUEUE_PTRS (set_cons_head h r) n (cons_head (cons r)) (prod_mask (prod r)) =
      take (unat n) (ring_list r)"
proof -
  obtain k where k: "k < 28" "prod_size (prod r) = 2 ^ k" "cons_size (cons r) = 2 ^ k"
    "prod_mask (prod r) = 2 ^ k - 1" "cons_mask (cons r) = 2 ^ k - 1" "length (ring r) = 2 ^ k"
    "prod_head (prod r) = prod_tail (prod r)" "cons_head (cons r) = cons_tail (cons r)"
    "unat (prod_tail (prod r) - cons_tail (cons r)) < 2 ^ k"
    "ring_cap r = 2 ^ k - 1" "unat (2 ^ k - 1 :: u32) = 2 ^ k - 1"
    by (rule ring_okE [OF ok])
  define p c where pc: "p = prod_tail (prod r)" "c = cons_tail (cons r)"
  have n': "unat n \<le> unat (p - c)" "unat n \<le> 2 ^ k" "unat (p - c) < 2 ^ k"
    using n k(9) by (auto simp: length_ring_list pc)
  have "unat ((p - c) - n) = unat (p - c) - unat n"
    using n'(1) by (intro unat_sub) (simp add: word_le_nat_alt)
  then have shrink: "unat (p - (c + n)) = unat (p - c) - unat n"
    by (simp add: algebra_simps)
  have pos: "(unat (c + n) + d) mod 2 ^ k = (unat c + (unat n + d)) mod 2 ^ k" for d
  proof -
    have "unat (c + n) mod 2 ^ k = (unat c + unat n) mod 2 ^ k"
      using k(1) by (intro unat_add_mod) simp
    then show ?thesis by (metis add.assoc mod_add_left_eq)
  qed
  have "ring_list (deq_step r n) = drop (unat n) (ring_list r)"
    by (rule nth_equalityI)
      (use n' in \<open>simp_all add: ring_list_def deq_step_def Let_def k(6,8) pc [symmetric] shrink pos\<close>)
  moreover have "ring_ok (deq_step r n)"
    using k(1-7) n' k(11)
    by (auto simp: ring_ok_def deq_step_def Let_def k(8) unat_pow2 pc [symmetric] word_le_nat_alt shrink)
  moreover have "DEQUEUE_PTRS (set_cons_head h r) n (cons_head (cons r)) (prod_mask (prod r)) =
      take (unat n) (ring_list r)"
    using deq_ptrs_eq [OF n'(2), of c "2 ^ k - 1" "unat c mod 2 ^ k" "set_cons_head h r"] k n'(1)
    by (simp add: unat_and_mask pc [symmetric] ring_list_def take_map mod_add_left_eq)
  ultimately show ?thesis by simp
qed

lemma deq_step_frame [simp]:
  "prod (deq_step r n) = prod r" "sc_dequeue (cons (deq_step r n)) = sc_dequeue (cons r)"
  "ring_cap (deq_step r n) = ring_cap r"
  by (simp_all add: deq_step_def Let_def ring_cap_def)


section \<open>The laws of the operations\<close>

definition ring_free :: "'a rte_ring \<Rightarrow> nat" where
  "ring_free r = ring_cap r - length (ring_list r)"

lemma enq_ret_frame [simp]:
  "enq_ret (set_prod_head h r) f n b = enq_ret r f n b"
  "enq_ret (r\<lparr>ring := rg\<rparr>) f n b = enq_ret r f n b"
  "enq_ret (r\<lparr>ring := rg, prod := (prod r)\<lparr>prod_head := h\<rparr>\<rparr>) f n b = enq_ret r f n b"
  by (simp_all add: enq_ret_def)

lemma sp_do_enqueue_step:
  "rte_ring_sp_do_enqueue r tbl n b =
     (let f = prod_mask (prod r) + cons_tail (cons r) - prod_head (prod r) in
      if n > f \<and> b = RTE_RING_QUEUE_FIXED then (- ENOBUFS, r)
      else if n > f \<and> f = 0 then (0, r)
      else let n' = (if n > f then f else n) in (enq_ret r f n' b, enq_step r tbl n'))"
  unfolding rte_ring_sp_do_enqueue_def Let_def enq_step_def
  by (intro if_cong refl) simp

lemma mp_do_enqueue_alone:
  assumes "ring_ok r"
  shows "rte_ring_mp_do_enqueue r tbl n b =
    Some (if n = 0 then (0, r) else rte_ring_sp_do_enqueue r tbl n b)"
  using assms
  by (auto simp: rte_ring_mp_do_enqueue_def mp_reserve_def mp_store_def mp_publish_def Let_def
      rte_ring_sp_do_enqueue_def ring_ok_def)

lemma mc_do_dequeue_alone:
  assumes "ring_ok r"
  shows "rte_ring_mc_do_dequeue r n b =
    Some (if n = 0 then (0, [], r) else rte_ring_sc_do_dequeue r n b)"
  using assms
  by (auto simp: rte_ring_mc_do_dequeue_def Let_def rte_ring_sc_do_dequeue_def ring_ok_def)

lemma enq_ret_fixed:
  assumes ok: "ring_ok r" and n: "unat n \<le> ring_free r"
    and f: "f = prod_mask (prod r) + cons_tail (cons r) - prod_head (prod r)"
  shows "enq_ret r f n RTE_RING_QUEUE_FIXED =
    (if unat (watermark (prod r)) < length (ring_list r) + 1 + unat n then - EDQUOT else 0)"
proof -
  obtain k where k: "k < 28" "prod_mask (prod r) = 2 ^ k - 1" "ring_cap r = 2 ^ k - 1"
    by (rule ring_okE [OF ok])
  have pow: "(2 :: nat) ^ k \<le> 2 ^ 27"
    using k(1) by (intro power_increasing) auto
  have le: "length (ring_list r) \<le> ring_cap r"
    using ok by (rule ring_list_le_cap)
  have uf: "unat f = ring_cap r - length (ring_list r)"
    unfolding f using ok by (rule free_entries_eq)
  have u: "unat (2 ^ k - f) = 2 ^ k - unat f"
    using k(1,3) uf by (subst unat_sub) (auto simp: unat_pow2 word_le_nat_alt)
  have "unat (prod_mask (prod r) + 1 - f + n) = unat (2 ^ k - f) + unat n"
    unfolding k(2) using u n pow k(3) by (subst unat_add_lem [THEN iffD1]) (auto simp: ring_free_def)
  also have "\<dots> = length (ring_list r) + 1 + unat n"
  proof -
    have "0 < (2 :: nat) ^ k" by simp
    with le k(3) have "length (ring_list r) + 1 \<le> 2 ^ k" by linarith
    with u uf k(3) show ?thesis by simp
  qed
  finally show ?thesis
    by (simp add: enq_ret_def word_less_nat_alt)
qed

lemma sp_enqueue_fixed:
  assumes "ring_ok r"
  shows "rte_ring_sp_do_enqueue r tbl n RTE_RING_QUEUE_FIXED =
    (if ring_free r < unat n then (- ENOBUFS, r)
     else (if unat (watermark (prod r)) < length (ring_list r) + 1 + unat n then - EDQUOT else 0,
           enq_step r tbl n))"
  using free_entries_eq [OF assms] enq_ret_fixed [OF assms]
  by (auto simp: sp_do_enqueue_step Let_def word_less_nat_alt ring_free_def)

lemma sp_enqueue_variable:
  assumes ok: "ring_ok r" and n: "unat n \<le> length tbl"
    and r': "r' = snd (rte_ring_sp_do_enqueue r tbl n RTE_RING_QUEUE_VARIABLE)"
  shows "ring_ok r' \<and> ring_list r' = ring_list r @ take (min (unat n) (ring_free r)) tbl \<and>
    ring_cap r' = ring_cap r"
proof -
  let ?f = "prod_mask (prod r) + cons_tail (cons r) - prod_head (prod r)"
  have f: "unat ?f = ring_free r"
    using free_entries_eq [OF ok] by (simp add: ring_free_def)
  show ?thesis
  proof (cases "?f < n \<and> ?f = 0")
    case True
    then have "0 < n" by auto
    with True show ?thesis
      using f ok by (simp add: r' sp_do_enqueue_step Let_def)
  next
    case False
    define n' where "n' = (if ?f < n then ?f else n)"
    have n': "unat n' = min (unat n) (ring_free r)"
      unfolding n'_def f [symmetric] by (simp add: word_less_nat_alt min_def)
    have "r' = enq_step r tbl n'"
      using False by (simp add: r' sp_do_enqueue_step Let_def n'_def)
    then show ?thesis
      using enq_step [OF ok, of n' tbl] n n' by (simp add: ring_free_def)
  qed
qed

lemma sc_do_dequeue_step:
  "rte_ring_sc_do_dequeue r n b =
     (let e = prod_tail (prod r) - cons_head (cons r) in
      if n > e \<and> b = RTE_RING_QUEUE_FIXED then (- ENOENT, [], r)
      else if n > e \<and> e = 0 then (0, [], r)
      else let n' = (if n > e then e else n) in
        (if b = RTE_RING_QUEUE_FIXED then 0 else sint n',
         DEQUEUE_PTRS (set_cons_head (cons_head (cons r) + n') r) n' (cons_head (cons r))
           (prod_mask (prod r)),
         deq_step r n'))"
  unfolding rte_ring_sc_do_dequeue_def Let_def deq_step_def by (intro if_cong refl)

lemma deq_step_0: "ring_ok r \<Longrightarrow> deq_step r 0 = r"
  by (simp add: deq_step_def ring_ok_def)

lemma sc_dequeue_fixed:
  assumes "ring_ok r"
  shows "rte_ring_sc_do_dequeue r n RTE_RING_QUEUE_FIXED =
    (if length (ring_list r) < unat n then (- ENOENT, [], r)
     else (0, take (unat n) (ring_list r), deq_step r n))"
  using entries_eq [OF assms] deq_step [OF assms, of n]
  by (auto simp: sc_do_dequeue_step Let_def word_less_nat_alt)

lemma sc_dequeue_variable:
  assumes ok: "ring_ok r" and m: "m = min (unat n) (length (ring_list r))"
  shows "rte_ring_sc_do_dequeue r n RTE_RING_QUEUE_VARIABLE =
    (int m, take m (ring_list r), deq_step r (of_nat m))"
proof -
  let ?e = "prod_tail (prod r) - cons_head (cons r)"
  have e: "unat ?e = length (ring_list r)"
    using ok by (rule entries_eq)
  define n' where "n' = (if ?e < n then ?e else n)"
  have n': "unat n' = m"
    unfolding n'_def m e [symmetric] by (simp add: word_less_nat_alt min_def)
  then have n'_eq: "n' = of_nat m"
    by (simp flip: n')
  have "m < 2 ^ 28"
  proof -
    obtain k where "k < 28" "ring_cap r = 2 ^ k - 1" by (rule ring_okE [OF ok])
    moreover from this have "(2 :: nat) ^ k \<le> 2 ^ 27" by (intro power_increasing) auto
    ultimately show ?thesis
      using ring_list_le_cap [OF ok] by (simp add: m)
  qed
  then have s: "sint n' = int m"
    using n' by (simp add: sint_small)
  show ?thesis
  proof (cases "?e < n \<and> ?e = 0")
    case True
    then have "m = 0" "0 < n" using e by (auto simp: m)
    with True ok show ?thesis
      by (simp add: sc_do_dequeue_step Let_def deq_step_0)
  next
    case False
    then have "rte_ring_sc_do_dequeue r n RTE_RING_QUEUE_VARIABLE =
        (sint n', DEQUEUE_PTRS (set_cons_head (cons_head (cons r) + n') r) n' (cons_head (cons r))
           (prod_mask (prod r)), deq_step r n')"
      by (auto simp: sc_do_dequeue_step Let_def n'_def)
    then show ?thesis
      using deq_step [OF ok, of n'] n' m by (simp add: s) (simp add: n'_eq)
  qed
qed


section \<open>The contract of a ring\<close>

text \<open>
  What a client of a ring relies on: a bounded queue whose \<open>enq\<close> reports \<open>-ENOBUFS\<close> and
  changes nothing exactly when the queue is full, and whose \<open>deq\<close> hands out the oldest
  entry. \<open>None\<close> would be a call that never returns.
\<close>

locale bounded_fifo =
  fixes enq :: "'r \<Rightarrow> 'a \<Rightarrow> (int \<times> 'r) option"
    and deq :: "'r \<Rightarrow> (int \<times> 'a list \<times> 'r) option"
    and content :: "'r \<Rightarrow> 'a list" and cap :: "'r \<Rightarrow> nat" and ok :: "'r \<Rightarrow> bool"
  assumes enq_room: "ok r \<Longrightarrow> length (content r) < cap r \<Longrightarrow>
      \<exists>e r'. enq r x = Some (e, r') \<and> e \<noteq> - ENOBUFS \<and> ok r' \<and> content r' = content r @ [x] \<and>
        cap r' = cap r"
    and enq_full: "ok r \<Longrightarrow> cap r \<le> length (content r) \<Longrightarrow> enq r x = Some (- ENOBUFS, r)"
    and deq_first: "ok r \<Longrightarrow> content r = x # xs \<Longrightarrow>
      \<exists>r'. deq r = Some (0, [x], r') \<and> ok r' \<and> content r' = xs \<and> cap r' = cap r"
    and deq_empty: "ok r \<Longrightarrow> content r = [] \<Longrightarrow> deq r = Some (- ENOENT, [], r)"
begin

text \<open>Filling a queue one entry after the other, and draining it.\<close>

primrec enq_all :: "'r \<Rightarrow> 'a list \<Rightarrow> 'r option" where
  "enq_all r [] = Some r"
| "enq_all r (x # xs) = do { (e, r') \<leftarrow> enq r x; enq_all r' xs }"

primrec deq_n :: "nat \<Rightarrow> 'r \<Rightarrow> ('a list \<times> 'r) option" where
  "deq_n 0 r = Some ([], r)"
| "deq_n (Suc n) r = do { (e, ys, r') \<leftarrow> deq r; (zs, r'') \<leftarrow> deq_n n r'; Some (ys @ zs, r'') }"

lemma enq_all_content:
  assumes "ok r" "length (content r) + length xs \<le> cap r"
  shows "\<exists>r'. enq_all r xs = Some r' \<and> ok r' \<and> content r' = content r @ xs \<and> cap r' = cap r"
  using assms
proof (induction xs arbitrary: r)
  case (Cons x xs)
  then obtain e r1 where "enq r x = Some (e, r1)" "ok r1" "content r1 = content r @ [x]" "cap r1 = cap r"
    using enq_room [of r x] by auto
  then show ?case
    using Cons.IH [of r1] Cons.prems by auto
qed simp

text \<open>A queue that has no room left keeps what it holds and drops the rest.\<close>

lemma enq_all_overflow:
  assumes "ok r"
  shows "\<exists>r'. enq_all r xs = Some r' \<and> ok r' \<and>
    content r' = content r @ take (cap r - length (content r)) xs \<and> cap r' = cap r"
  using assms
proof (induction xs arbitrary: r)
  case (Cons x xs)
  show ?case
  proof (cases "length (content r) < cap r")
    case True
    then obtain e r1 where "enq r x = Some (e, r1)" "ok r1" "content r1 = content r @ [x]" "cap r1 = cap r"
      using enq_room [of r x] Cons.prems by auto
    then show ?thesis
      using Cons.IH [of r1] True by (auto simp: take_Cons' Suc_diff_Suc)
  next
    case False
    then show ?thesis
      using enq_full [of r x] Cons.IH [OF Cons.prems] Cons.prems by auto
  qed
qed simp

lemma deq_n_content:
  assumes "ok r" "n \<le> length (content r)"
  shows "\<exists>r'. deq_n n r = Some (take n (content r), r') \<and> ok r' \<and> content r' = drop n (content r) \<and>
    cap r' = cap r"
  using assms
proof (induction n arbitrary: r)
  case (Suc n)
  then obtain x xs where xs: "content r = x # xs"
    by (cases "content r") auto
  then obtain r1 where "deq r = Some (0, [x], r1)" "ok r1" "content r1 = xs" "cap r1 = cap r"
    using deq_first [of r x xs] Suc.prems by auto
  then show ?case
    using Suc.IH [of r1] Suc.prems xs by auto
qed simp

text \<open>First in, first out: what goes into an empty queue comes out in the same order.\<close>

lemma fifo_roundtrip:
  assumes "ok r" "content r = []" "length xs \<le> cap r"
  shows "\<exists>r1 r2. enq_all r xs = Some r1 \<and> deq_n (length xs) r1 = Some (xs, r2) \<and> content r2 = []"
proof -
  obtain r1 where r1: "enq_all r xs = Some r1" "ok r1" "content r1 = xs"
    using enq_all_content [of r xs] assms by auto
  then show ?thesis
    using deq_n_content [of r1 "length xs"] by auto
qed

end

lemma ring_push:
  assumes "ring_ok r" "length (ring_list r) < ring_cap r"
  shows "ring_ok (enq_step r [x] 1)" "ring_list (enq_step r [x] 1) = ring_list r @ [x]"
  using enq_step [of r 1 "[x]"] assms by auto

lemma ring_pop:
  assumes "ring_ok r" "ring_list r \<noteq> []"
  shows "ring_ok (deq_step r 1)" "ring_list (deq_step r 1) = tl (ring_list r)"
  using deq_step [of r 1] assms by (auto simp: Suc_le_eq drop_Suc)

lemma rte_ring_enqueue_ok:
  assumes "ring_ok r"
  shows "rte_ring_enqueue r x =
    (if length (ring_list r) < ring_cap r
     then Some (if unat (watermark (prod r)) < length (ring_list r) + 2 then - EDQUOT else 0,
                enq_step r [x] 1)
     else Some (- ENOBUFS, r))"
  using assms
  by (auto simp: rte_ring_enqueue_def rte_ring_sp_enqueue_bulk_def rte_ring_mp_enqueue_bulk_def
      mp_do_enqueue_alone sp_enqueue_fixed ring_free_def)

lemma rte_ring_dequeue_ok:
  assumes "ring_ok r"
  shows "rte_ring_dequeue r =
    (case ring_list r of [] \<Rightarrow> Some (- ENOENT, [], r) | x # xs \<Rightarrow> Some (0, [x], deq_step r 1))"
  using assms
  by (auto simp: rte_ring_dequeue_def rte_ring_sc_dequeue_bulk_def rte_ring_mc_dequeue_bulk_def
      mc_do_dequeue_alone sc_dequeue_fixed split: list.split)

interpretation rr: bounded_fifo rte_ring_enqueue rte_ring_dequeue ring_list ring_cap ring_ok
proof
  fix r :: "'a rte_ring" and x :: 'a
  assume "ring_ok r" "length (ring_list r) < ring_cap r"
  then show "\<exists>e r'. rte_ring_enqueue r x = Some (e, r') \<and> e \<noteq> - ENOBUFS \<and> ring_ok r' \<and>
      ring_list r' = ring_list r @ [x] \<and> ring_cap r' = ring_cap r"
    by (simp add: rte_ring_enqueue_ok ring_push)
qed (auto simp: rte_ring_enqueue_ok rte_ring_dequeue_ok ring_pop)

interpretation spsc: bounded_fifo "\<lambda>r x. Some (rte_ring_sp_enqueue_bulk r [x] 1)"
  "\<lambda>r. Some (rte_ring_sc_dequeue_bulk r 1)" ring_list ring_cap ring_ok
proof
  fix r :: "'a rte_ring" and x :: 'a
  assume "ring_ok r" "length (ring_list r) < ring_cap r"
  then show "\<exists>e r'. Some (rte_ring_sp_enqueue_bulk r [x] 1) = Some (e, r') \<and> e \<noteq> - ENOBUFS \<and>
      ring_ok r' \<and> ring_list r' = ring_list r @ [x] \<and> ring_cap r' = ring_cap r"
    by (simp add: rte_ring_sp_enqueue_bulk_def sp_enqueue_fixed ring_free_def ring_push)
qed (auto simp: rte_ring_sp_enqueue_bulk_def rte_ring_sc_dequeue_bulk_def sp_enqueue_fixed
      sc_dequeue_fixed ring_free_def ring_pop)


section \<open>Creation and queries\<close>

lemma POWEROF2_pow2:
  assumes "POWEROF2 x" "x \<noteq> 0"
  shows "\<exists>k<32. x = 2 ^ k"
proof -
  have pos: "0 < unat x" using assms(2) by (simp add: unat_gt_0)
  have "unat (x - 1) = unat x - 1"
    using assms(2) by (simp add: unat_minus_one)
  moreover have "unat ((x - 1) AND x) = unat (x - 1) AND unat x"
    by (simp add: unsigned_and_eq)
  ultimately have "unat x AND (unat x - 1) = 0"
    using assms(1) by (simp add: POWEROF2_def and.commute)
  then obtain k where k: "unat x = 2 ^ k"
    using nat_pow2_iff [OF _ pos] by auto
  have "(2 :: nat) ^ k < 2 ^ 32"
    using unsigned_less [where ?'a = nat, of x] k by simp
  then have "k < 32" by (rule power_less_imp_less_exp [rotated]) simp
  moreover have "x = 2 ^ k"
    using k \<open>k < 32\<close> unat_pow2 [of k, where ?'a = 32] by (simp add: word_unat_eq_iff)
  ultimately show ?thesis by auto
qed

lemma rte_ring_init_ok:
  assumes "POWEROF2 count" "0 < count" "count \<le> RTE_RING_SZ_MASK"
  shows "ring_ok (rte_ring_init fill count flgs)"
    and "ring_list (rte_ring_init fill count flgs) = []"
    and "ring_cap (rte_ring_init fill count flgs) = unat count - 1"
proof -
  obtain k where k: "k < 32" "count = 2 ^ k"
    using POWEROF2_pow2 [of count] assms by auto
  then have "(2 :: nat) ^ k \<le> 0x0fffffff"
    using assms(3) unat_pow2 [of k, where ?'a = 32] by (simp add: word_le_nat_alt)
  then have "(2 :: nat) ^ k < 2 ^ 28" by simp
  then have "k < 28" by (rule power_less_imp_less_exp [rotated]) simp
  with k show "ring_ok (rte_ring_init fill count flgs)"
    by (auto simp: rte_ring_init_def ring_ok_def)
  show "ring_list (rte_ring_init fill count flgs) = []"
    by (simp add: ring_list_def rte_ring_init_def)
  show "ring_cap (rte_ring_init fill count flgs) = unat count - 1"
    using assms(2) by (simp add: ring_cap_def rte_ring_init_def unat_minus_one)
qed

lemma rte_ring_count_ok:
  assumes "ring_ok r"
  shows "unat (rte_ring_count r) = length (ring_list r)"
proof -
  obtain k where "prod_mask (prod r) = 2 ^ k - 1"
    "unat (prod_tail (prod r) - cons_tail (cons r)) < 2 ^ k"
    by (rule ring_okE [OF assms])
  then show ?thesis
    by (simp add: rte_ring_count_def unat_and_mask length_ring_list)
qed

lemma rte_ring_free_count_ok:
  assumes "ring_ok r"
  shows "unat (rte_ring_free_count r) = ring_free r"
proof -
  obtain k where k: "k < 28" "prod_mask (prod r) = 2 ^ k - 1" "ring_cap r = 2 ^ k - 1"
    "unat (prod_tail (prod r) - cons_tail (cons r)) < 2 ^ k" "unat (2 ^ k - 1 :: u32) = 2 ^ k - 1"
    by (rule ring_okE [OF assms])
  let ?u = "prod_tail (prod r) - cons_tail (cons r)"
  let ?f = "(2 ^ k - 1 :: u32) - ?u"
  have f: "unat ?f = ring_free r"
    using k by (subst unat_sub) (auto simp: word_le_nat_alt ring_free_def length_ring_list)
  have eq: "cons_tail (cons r) - prod_tail (prod r) - 1 + 2 ^ k = ?f"
    by (simp add: algebra_simps)
  have "unat (cons_tail (cons r) - prod_tail (prod r) - 1 + 2 ^ k) mod 2 ^ k =
      unat (cons_tail (cons r) - prod_tail (prod r) - 1) mod 2 ^ k"
    using k(1) by (subst unat_add_mod) (simp_all add: unat_pow2)
  then have "unat (cons_tail (cons r) - prod_tail (prod r) - 1) mod 2 ^ k = ring_free r mod 2 ^ k"
    unfolding eq f by simp
  moreover have "ring_free r < 2 ^ k"
    using k(3) by (simp add: ring_free_def less_imp_diff_less)
  ultimately show ?thesis
    by (simp add: rte_ring_free_count_def k(2) unat_and_mask)
qed

lemma rte_ring_empty_ok:
  "ring_ok r \<Longrightarrow> rte_ring_empty r \<longleftrightarrow> ring_list r = []"
  by (auto simp: rte_ring_empty_def ring_list_def unat_eq_0)

lemma rte_ring_full_ok:
  assumes "ring_ok r"
  shows "rte_ring_full r \<longleftrightarrow> ring_free r = 0"
  unfolding rte_ring_full_def rte_ring_free_count_ok [OF assms, symmetric]
  by (simp add: rte_ring_free_count_def unat_eq_0)


section \<open>Properties\<close>

text \<open>
  C1. A bulk enqueue on a quiescent ring stores all objects behind those already queued,
  in order, when the ring has room for them, and answers 0 or, above the watermark,
  \<open>-EDQUOT\<close>; otherwise it answers \<open>-ENOBUFS\<close> and changes nothing. The indices may wrap.
\<close>

theorem sp_enqueue_bulk_fifo:
  assumes "ring_ok r" "unat n \<le> length tbl"
  shows "case rte_ring_sp_enqueue_bulk r tbl n of (ret, r') \<Rightarrow>
    ring_ok r' \<and> ring_cap r' = ring_cap r \<and>
    (if unat n \<le> ring_cap r - length (ring_list r)
     then ring_list r' = ring_list r @ take (unat n) tbl \<and>
          ret = (if unat (watermark (prod r)) < length (ring_list r) + 1 + unat n then - EDQUOT else 0)
     else ret = - ENOBUFS \<and> r' = r)"
  using enq_step [OF assms(1), of n tbl] assms
  by (auto simp: rte_ring_sp_enqueue_bulk_def sp_enqueue_fixed ring_free_def)

definition wrapped_ring :: "nat rte_ring" where
  "wrapped_ring = (rte_ring_init 0 4 0)
     \<lparr>prod := \<lparr>watermark = 4, sp_enqueue = False, prod_size = 4, prod_mask = 3,
               prod_head = 0xffffffff, prod_tail = 0xffffffff\<rparr>,
      cons := \<lparr>sc_dequeue = False, cons_size = 4, cons_mask = 3,
               cons_head = 0xfffffffe, cons_tail = 0xfffffffe\<rparr>,
      ring := [0, 0, 7, 0]\<rparr>"

lemma wrapped_ring: "ring_ok wrapped_ring" "ring_list wrapped_ring = [7]" "ring_cap wrapped_ring = 3"
  by (auto simp: wrapped_ring_def rte_ring_init_def ring_ok_def ring_list_def ring_cap_def
      intro!: bexI [of _ 2])

theorem sp_enqueue_bulk_fifo_witness:
  "ring_list (snd (rte_ring_sp_enqueue_bulk wrapped_ring [8, 9] 2)) = [7, 8, 9]"
  using sp_enqueue_bulk_fifo [of wrapped_ring 2 "[8, 9]"] wrapped_ring
  by (simp split: prod.splits)

text \<open>
  C2. What is put into an empty ring by one bulk enqueue comes out of a bulk dequeue of the
  same size unchanged and in the same order, and leaves the ring empty again.
\<close>

theorem ring_bulk_roundtrip:
  assumes "ring_ok r" "ring_list r = []" "length xs \<le> ring_cap r" "n = of_nat (length xs)"
  shows "case rte_ring_sp_enqueue_bulk r xs n of (ret, r1) \<Rightarrow>
    ret \<noteq> - ENOBUFS \<and>
    (case rte_ring_sc_dequeue_bulk r1 n of (ret', ys, r2) \<Rightarrow>
       ret' = 0 \<and> ys = xs \<and> ring_list r2 = [] \<and> ring_ok r2)"
proof -
  have "ring_cap r < 2 ^ 32"
    by (simp add: ring_cap_def unsigned_less [where ?'a = nat, of "prod_mask (prod r)", simplified])
  then have n: "unat n = length xs"
    using assms(3,4) by (simp add: unat_of_nat)
  have ok: "ring_ok (enq_step r xs n)" "ring_list (enq_step r xs n) = xs"
    using enq_step [OF assms(1), of n xs] assms(2,3) n by auto
  have "rte_ring_sc_do_dequeue (enq_step r xs n) n RTE_RING_QUEUE_FIXED =
      (0, xs, deq_step (enq_step r xs n) n)"
    using ok n by (simp add: sc_dequeue_fixed)
  moreover have "ring_ok (deq_step (enq_step r xs n) n)" "ring_list (deq_step (enq_step r xs n) n) = []"
    using deq_step [OF ok(1), of n] ok(2) n by auto
  ultimately show ?thesis
    using assms n
    by (simp add: rte_ring_sp_enqueue_bulk_def rte_ring_sc_dequeue_bulk_def sp_enqueue_fixed ring_free_def)
qed

theorem ring_bulk_roundtrip_witness:
  "fst (snd (rte_ring_sc_dequeue_bulk (snd (rte_ring_sp_enqueue_bulk (rte_ring_init 0 8 0) [1, 2, 3, 4, 5::nat] 5)) 5))
     = [1, 2, 3, 4, 5]"
proof -
  have "ring_ok (rte_ring_init (0::nat) 8 0)" "ring_list (rte_ring_init (0::nat) 8 0) = []"
    "ring_cap (rte_ring_init (0::nat) 8 0) = 7"
    by (simp_all add: rte_ring_init_ok POWEROF2_def)
  then show ?thesis
    using ring_bulk_roundtrip [of "rte_ring_init 0 8 0" "[1, 2, 3, 4, 5::nat]" 5]
    by (simp split: prod.splits)
qed



text \<open>
  A burst dequeue returns the oldest \<open>min n count\<close> entries and never more than it was
  asked for; the rest stays queued in order.
\<close>

theorem sc_dequeue_burst_takes_min:
  assumes "ring_ok r"
  shows "case rte_ring_sc_dequeue_burst r n of (ret, ys, r') \<Rightarrow>
    ret = int (min (unat n) (length (ring_list r))) \<and>
    ys = take (unat n) (ring_list r) \<and> ring_list r' = drop (unat n) (ring_list r) \<and> ring_ok r'"
proof -
  define m where "m = min (unat n) (length (ring_list r))"
  have "m \<le> unat n" by (simp add: m_def)
  then have "unat (of_nat m :: u32) = m"
    using unsigned_less [where ?'a = nat, of n] by (simp add: unat_of_nat)
  moreover have "take m (ring_list r) = take (unat n) (ring_list r)"
    "drop m (ring_list r) = drop (unat n) (ring_list r)"
    by (simp_all add: m_def min_def)
  ultimately show ?thesis
    using deq_step [OF assms, of "of_nat m"] sc_dequeue_variable [OF assms m_def]
    by (simp add: rte_ring_sc_dequeue_burst_def m_def)
qed

theorem sc_dequeue_burst_takes_min_witness:
  "fst (snd (rte_ring_sc_dequeue_burst wrapped_ring 32)) = [7]"
  using sc_dequeue_burst_takes_min [OF wrapped_ring(1), of 32] wrapped_ring(2)
  by (simp split: prod.splits)

end
