(* ===== verification/Ipaug_Common.thy ===== *)
theory Ipaug_Common
  imports Rte_Ring_Fifo
begin

unbundle bit_operations_syntax

text \<open>
  What the service and its applications share: the command buffers and per-connection blocks
  of \<open>service/ipaugenblick_common/ipaugenblick_common.h\<close>, the packet buffers (\<open>rte_mbuf\<close>)
  and pools of DPDK, and the rings between them. A pointer into one of these shared
  arrays or pools is a natural number, the memory it points to a function on numbers.
  A \<open>None\<close> result stands for a process that exits, spins for ever or executes code whose
  behaviour C leaves undefined.
\<close>

section \<open>Commands (ipaugenblick_common.h)\<close>

datatype cmd_code =
    IPAUGENBLICK_DUMMY_COMMAND
  | IPAUGENBLICK_OPEN_SOCKET_COMMAND
  | IPAUGENBLICK_SOCKET_CONNECT_BIND_COMMAND
  | IPAUGENBLICK_LISTEN_SOCKET_COMMAND
  | IPAUGENBLICK_SETSOCKOPT_COMMAND
  | IPAUGENBLICK_OPEN_SOCKET_FEEDBACK
  | IPAUGENBLICK_SOCKET_TX_KICK_COMMAND
  | IPAUGENBLICK_SOCKET_RX_KICK_COMMAND
  | IPAUGENBLICK_SOCKET_ACCEPTED_COMMAND
  | IPAUGENBLICK_SET_SOCKET_RING_COMMAND
  | IPAUGENBLICK_SET_SOCKET_SELECT_COMMAND
  | IPAUGENBLICK_SOCKET_READY_FEEDBACK
  | IPAUGENBLICK_SOCKET_CLOSE_COMMAND
  | IPAUGENBLICK_SOCKET_TX_POOL_EMPTY_COMMAND
  | IPAUGENBLICK_ROUTE_ADD_COMMAND
  | IPAUGENBLICK_ROUTE_DEL_COMMAND
  | IPAUGENBLICK_CONNECT_CLIENT
  | IPAUGENBLICK_DISCONNECT_CLIENT
  | IPAUGENBLICK_NEW_IFACES
  | IPAUGENBLICK_NEW_ADDRESSES
  | IPAUGENBLICK_END_OF_RECORD
  | IPAUGENBLICK_SOCKET_SHUTDOWN_COMMAND
  | IPAUGENBLICK_SOCKET_DECLINE_COMMAND

text \<open>
  The union \<open>u\<close> of a command, with the member that was written last. \<open>socket_descr\<close> is a
  pointer to a \<open>struct socket\<close> of the service, \<open>pid\<close> a process id.
\<close>

datatype cmd_union =
    U_none
  | U_open_sock (os_family: int) (os_type: int) (os_pid: nat)
  | U_accepted_socket (as_socket_descr: nat) (as_ipaddr: u32) (as_port: u16)
  | U_set_socket_ring (sr_socket_descr: nat) (sr_pid: nat)
  | U_set_socket_select (ss_socket_select: int) (ss_pid: nat)
  | U_socket_connect_bind (cb_ipaddr: u32) (cb_port: u16) (cb_is_connect: bool)
  | U_route (rt_dest_ipaddr: u32) (rt_dest_mask: u32) (rt_next_hop: u32) (rt_metric: int)
  | U_setsockopt (so_level: int) (so_optname: int) (so_optlen: int) (so_optval: "u8 list")
  | U_socket_shutdown (sh_how: int)
  | U_socket_decline (sd_socket_descr: nat)

record ipaugenblick_cmd =
  cmd :: cmd_code
  ringset_idx :: nat
  parent_idx :: int
  u :: cmd_union

abbreviation (input) SOCKET_READABLE_BIT :: u32 where "SOCKET_READABLE_BIT \<equiv> 1"
abbreviation (input) SOCKET_WRITABLE_BIT :: u32 where "SOCKET_WRITABLE_BIT \<equiv> 2"
abbreviation (input) SOCKET_CLOSED_BIT :: u32 where "SOCKET_CLOSED_BIT \<equiv> 4"
abbreviation (input) SOCKET_READY_SHIFT :: nat where "SOCKET_READY_SHIFT \<equiv> 16"
abbreviation (input) SOCKET_READY_MASK :: u32 where "SOCKET_READY_MASK \<equiv> 0xFFFF"
abbreviation (input) IPAUGENBLICK_CONNECTION_POOL_SIZE :: nat where "IPAUGENBLICK_CONNECTION_POOL_SIZE \<equiv> 2048"
abbreviation (input) IPAUGENBLICK_CLIENTS_POOL_SIZE :: nat where "IPAUGENBLICK_CLIENTS_POOL_SIZE \<equiv> 64"
abbreviation (input) IPAUGENBLICK_SELECTOR_POOL_SIZE :: nat where "IPAUGENBLICK_SELECTOR_POOL_SIZE \<equiv> 64"
abbreviation (input) COMMAND_POOL_SIZE :: nat where "COMMAND_POOL_SIZE \<equiv> 16384 * 2"
abbreviation (input) DATA_RINGS_SIZE :: nat where "DATA_RINGS_SIZE \<equiv> 1024"
abbreviation (input) MAX_PKT_BURST :: nat where "MAX_PKT_BURST \<equiv> 32"

record ipaugenblick_socket =
  connection_idx :: nat
  read_ready_to_app :: bool
  write_ready_to_app :: bool
  write_done_from_app :: bool
  local_ipaddr :: u32
  local_port :: u16
  tx_space :: u32

text \<open>The word a selector's ring carries: the connection in the low half, the event in the high.\<close>

definition ready_mask :: "nat \<Rightarrow> u32 \<Rightarrow> u32" where
  "ready_mask idx ev = of_nat idx OR push_bit SOCKET_READY_SHIFT ev"

section \<open>Packet buffers (rte_mbuf.h)\<close>

abbreviation (input) AF_INET :: int where "AF_INET \<equiv> 2"

record sockaddr_in =
  sin_family :: int
  sin_addr :: u32
  sin_port :: u16

text \<open>
  \<open>headroom\<close> is what is stored in the bytes right before offset \<open>o\<close>: the code keeps the peer
  address of a datagram there. \<open>data\<close> are the bytes from the start of the data on.
\<close>

record rte_mbuf =
  data_off :: u16
  refcnt :: u16
  nb_segs :: u8
  data_len :: u16
  pkt_len :: u32
  nxt :: "nat option"
  data :: "u8 list"
  headroom :: "u16 \<Rightarrow> sockaddr_in option"

datatype void_ptr = MbufPtr nat | CmdPtr nat

section \<open>Shared memory\<close>

record shm =
  command_ring :: "nat rte_ring"
  free_command_pool :: "nat rte_ring"
  cmds :: "nat \<Rightarrow> ipaugenblick_cmd"
  free_connections_ring :: "nat rte_ring"
  g_sockets :: "nat \<Rightarrow> ipaugenblick_socket"
  free_clients_ring :: "nat rte_ring"
  client_rings :: "nat \<Rightarrow> nat rte_ring"
  selectors_ring :: "nat rte_ring"
  ready_connections :: "nat \<Rightarrow> u32 rte_ring"
  tx_rings :: "nat \<Rightarrow> nat rte_ring"
  rx_rings :: "nat \<Rightarrow> void_ptr rte_ring"
  mbufs :: "nat \<Rightarrow> rte_mbuf"
  mbuf_pool :: "nat rte_ring"

abbreviation upd_g_socket :: "nat \<Rightarrow> (ipaugenblick_socket \<Rightarrow> ipaugenblick_socket) \<Rightarrow> shm \<Rightarrow> shm" where
  "upd_g_socket i f s \<equiv> s\<lparr>g_sockets := (g_sockets s)(i := f (g_sockets s i))\<rparr>"

abbreviation upd_mbuf :: "nat \<Rightarrow> (rte_mbuf \<Rightarrow> rte_mbuf) \<Rightarrow> shm \<Rightarrow> shm" where
  "upd_mbuf p f s \<equiv> s\<lparr>mbufs := (mbufs s)(p := f (mbufs s p))\<rparr>"

abbreviation upd_cmd :: "nat \<Rightarrow> (ipaugenblick_cmd \<Rightarrow> ipaugenblick_cmd) \<Rightarrow> shm \<Rightarrow> shm" where
  "upd_cmd p f s \<equiv> s\<lparr>cmds := (cmds s)(p := f (cmds s p))\<rparr>"

section \<open>Pools (rte_mempool)\<close>

text \<open>
  A pool keeps its free objects in a multi-producer, multi-consumer ring; the per-core object
  cache in front of it, which the command pool is created without, is not modelled.
\<close>

definition rte_mempool_get :: "'a rte_ring \<Rightarrow> (int \<times> 'a list \<times> 'a rte_ring) option" where
  "rte_mempool_get mp = rte_ring_mc_dequeue_bulk mp 1"

definition rte_mempool_put :: "'a rte_ring \<Rightarrow> 'a \<Rightarrow> 'a rte_ring option" where
  "rte_mempool_put mp obj = do { (_, mp') \<leftarrow> rte_ring_mp_enqueue_bulk mp [obj] 1; Some mp' }"

definition rte_align32pow2 :: "u32 \<Rightarrow> u32" where
  "rte_align32pow2 x0 =
     (let x = x0 - 1; x = x OR drop_bit 1 x; x = x OR drop_bit 2 x; x = x OR drop_bit 4 x;
          x = x OR drop_bit 8 x; x = x OR drop_bit 16 x in x + 1)"

text \<open>A pool of \<open>n\<close> objects, numbered from 0, on a ring with room for all of them.\<close>

definition common_ring_alloc :: "int \<Rightarrow> bool \<Rightarrow> nat \<Rightarrow> nat rte_ring option" where
  "common_ring_alloc hdr mem n = rte_ring_create hdr mem 0 (rte_align32pow2 (of_nat n + 1)) 0"

definition mempool_add_elem :: "nat \<Rightarrow> nat rte_ring \<Rightarrow> nat rte_ring option" where
  "mempool_add_elem obj mp = do { (_, mp') \<leftarrow> rte_ring_mp_enqueue_bulk mp [obj] 1; Some mp' }"

definition rte_mempool_create :: "int \<Rightarrow> bool \<Rightarrow> nat \<Rightarrow> nat rte_ring option" where
  "rte_mempool_create hdr mem n =
     do { mp \<leftarrow> common_ring_alloc hdr mem n; fold_opt mempool_add_elem [0..<n] mp }"

definition rte_mempool_count :: "'a rte_ring \<Rightarrow> u32" where
  "rte_mempool_count mp = rte_ring_count mp"

section \<open>Freeing packet buffers\<close>

text \<open>\<open>__rte_pktmbuf_prefree_seg\<close>: drop one reference; \<open>True\<close> when it was the last. All
  buffers of the program are direct ones.\<close>

definition rte_pktmbuf_prefree_seg :: "nat \<Rightarrow> shm \<Rightarrow> bool \<times> shm" where
  "rte_pktmbuf_prefree_seg m s =
     (let r = refcnt (mbufs s m) - 1 in (r = 0, upd_mbuf m (\<lambda>b. b\<lparr>refcnt := r\<rparr>) s))"

definition rte_pktmbuf_free_seg :: "nat \<Rightarrow> shm \<Rightarrow> shm option" where
  "rte_pktmbuf_free_seg m s =
     (case rte_pktmbuf_prefree_seg m s of
        (True, s1) \<Rightarrow> do { mp \<leftarrow> rte_mempool_put (mbuf_pool s1) m;
                           Some ((upd_mbuf m (\<lambda>b. b\<lparr>nxt := None\<rparr>) s1)\<lparr>mbuf_pool := mp\<rparr>) }
      | (False, s1) \<Rightarrow> Some s1)"

text \<open>Freeing a chain follows \<open>next\<close>; on a cyclic chain the loop need not end.\<close>

partial_function (option) rte_pktmbuf_free :: "nat option \<Rightarrow> shm \<Rightarrow> shm option" where
  "rte_pktmbuf_free m s =
     (case m of None \<Rightarrow> Some s
      | Some p \<Rightarrow> do { s' \<leftarrow> rte_pktmbuf_free_seg p s; rte_pktmbuf_free (nxt (mbufs s p)) s' })"

partial_function (option) rte_pktmbuf_lastseg :: "(nat \<Rightarrow> rte_mbuf) \<Rightarrow> nat \<Rightarrow> nat option" where
  "rte_pktmbuf_lastseg mb m =
     (case nxt (mb m) of None \<Rightarrow> Some m | Some m' \<Rightarrow> rte_pktmbuf_lastseg mb m')"

definition rte_pktmbuf_reset :: "rte_mbuf \<Rightarrow> rte_mbuf" where
  "rte_pktmbuf_reset b = b\<lparr>nxt := None, pkt_len := 0, nb_segs := 1, data_off := 128, data_len := 0\<rparr>"

definition rte_pktmbuf_alloc :: "shm \<Rightarrow> (nat option \<times> shm) option" where
  "rte_pktmbuf_alloc s =
     do { (ret, ms, mp) \<leftarrow> rte_mempool_get (mbuf_pool s);
          Some (case ms of
                  [] \<Rightarrow> (None, s)
                | m # _ \<Rightarrow> (Some m, (upd_mbuf m (\<lambda>b. (rte_pktmbuf_reset b)\<lparr>refcnt := 1\<rparr>) s)\<lparr>mbuf_pool := mp\<rparr>)) }"

section \<open>Command buffers\<close>

definition ipaugenblick_get_free_command_buf :: "shm \<Rightarrow> (nat option \<times> shm) option" where
  "ipaugenblick_get_free_command_buf s =
     do { (ret, cs, mp) \<leftarrow> rte_mempool_get (free_command_pool s);
          Some (if ret \<noteq> 0 then (None, s) else (Some (hd cs), s\<lparr>free_command_pool := mp\<rparr>)) }"

definition ipaugenblick_free_command_buf :: "nat \<Rightarrow> shm \<Rightarrow> shm option" where
  "ipaugenblick_free_command_buf c s =
     do { mp \<leftarrow> rte_mempool_put (free_command_pool s) c; Some (s\<lparr>free_command_pool := mp\<rparr>) }"

text \<open>\<open>True\<close> when the command ring was full.\<close>

definition ipaugenblick_enqueue_command_buf :: "nat \<Rightarrow> shm \<Rightarrow> (bool \<times> shm) option" where
  "ipaugenblick_enqueue_command_buf c s =
     do { (ret, r) \<leftarrow> rte_ring_enqueue (command_ring s) c;
          Some (ret = - ENOBUFS, s\<lparr>command_ring := r\<rparr>) }"

definition ipaugenblick_dequeue_command_buf :: "shm \<Rightarrow> nat option \<times> shm" where
  "ipaugenblick_dequeue_command_buf s =
     (if rte_ring_count (command_ring s) = 0 then (None, s)
      else case rte_ring_sc_dequeue_bulk (command_ring s) 1 of
        (ret, cs, r) \<Rightarrow> if ret \<noteq> 0 then (None, s\<lparr>command_ring := r\<rparr>)
                        else (Some (hd cs), s\<lparr>command_ring := r\<rparr>))"


section \<open>What freeing a chain leaves alone\<close>

lemma pktmbuf_free_seg_frame:
  "rte_pktmbuf_free_seg p m = Some m' \<Longrightarrow> m' = m\<lparr>mbufs := mbufs m', mbuf_pool := mbuf_pool m'\<rparr>"
  by (auto simp: rte_pktmbuf_free_seg_def rte_pktmbuf_prefree_seg_def Let_def
      split: prod.splits bool.splits Option.bind_splits)

lemma pktmbuf_free_frame:
  assumes "rte_pktmbuf_free ob m = Some m'"
  shows "m' = m\<lparr>mbufs := mbufs m', mbuf_pool := mbuf_pool m'\<rparr>"
  using assms
proof (induction rule: rte_pktmbuf_free.raw_induct [rotated, consumes 1])
  case (1 f ob m m')
  show ?case
  proof (cases ob)
    case (Some p)
    with 1(2) obtain m1 where m1: "rte_pktmbuf_free_seg p m = Some m1" "f (nxt (mbufs m p)) m1 = Some m'"
      by (auto split: Option.bind_splits)
    from 1(1) [OF m1(2)] pktmbuf_free_seg_frame [OF m1(1)]
    show ?thesis by (cases m; cases m1; cases m') simp
  qed (use 1(2) in simp)
qed

section \<open>The laws of pools and command buffers\<close>

lemma rte_mempool_get_ok:
  assumes "ring_ok mp"
  shows "rte_mempool_get mp =
    (case ring_list mp of [] \<Rightarrow> Some (- ENOENT, [], mp) | x # xs \<Rightarrow> Some (0, [x], deq_step mp 1))"
  using assms
  by (auto simp: rte_mempool_get_def rte_ring_mc_dequeue_bulk_def mc_do_dequeue_alone
      sc_dequeue_fixed split: list.split)

lemma mp_enqueue_bulk_one:
  assumes "ring_ok mp"
  shows "rte_ring_mp_enqueue_bulk mp [x] 1 =
    (if length (ring_list mp) < ring_cap mp
     then Some (if unat (watermark (prod mp)) < length (ring_list mp) + 2 then - EDQUOT else 0,
                enq_step mp [x] 1)
     else Some (- ENOBUFS, mp))"
  using assms
  by (auto simp: rte_ring_mp_enqueue_bulk_def mp_do_enqueue_alone sp_enqueue_fixed ring_free_def)

interpretation pool: bounded_fifo "\<lambda>mp x. rte_ring_mp_enqueue_bulk mp [x] 1" rte_mempool_get
  ring_list ring_cap ring_ok
proof
  fix mp :: "'a rte_ring" and x :: 'a
  assume "ring_ok mp" "length (ring_list mp) < ring_cap mp"
  then show "\<exists>e r'. rte_ring_mp_enqueue_bulk mp [x] 1 = Some (e, r') \<and> e \<noteq> - ENOBUFS \<and> ring_ok r' \<and>
      ring_list r' = ring_list mp @ [x] \<and> ring_cap r' = ring_cap mp"
    by (simp add: mp_enqueue_bulk_one ring_push)
qed (auto simp: mp_enqueue_bulk_one rte_mempool_get_ok ring_pop)

lemma rte_mempool_put_ok:
  assumes "ring_ok mp"
  shows "rte_mempool_put mp x = Some (if length (ring_list mp) < ring_cap mp then enq_step mp [x] 1 else mp)"
  using assms by (auto simp: rte_mempool_put_def mp_enqueue_bulk_one)

lemma get_free_command_buf_ok [ring_simps]:
  assumes "ring_ok (free_command_pool s)"
  shows "ipaugenblick_get_free_command_buf s =
    (case ring_list (free_command_pool s) of
       [] \<Rightarrow> Some (None, s)
     | c # _ \<Rightarrow> Some (Some c, s\<lparr>free_command_pool := deq_step (free_command_pool s) 1\<rparr>))"
  using assms
  by (auto simp: ipaugenblick_get_free_command_buf_def rte_mempool_get_ok split: list.split)

lemma free_command_buf_ok [ring_simps]:
  assumes "ring_ok (free_command_pool s)"
  shows "ipaugenblick_free_command_buf c s =
    Some (if length (ring_list (free_command_pool s)) < ring_cap (free_command_pool s)
          then s\<lparr>free_command_pool := enq_step (free_command_pool s) [c] 1\<rparr> else s)"
  using assms by (simp add: ipaugenblick_free_command_buf_def rte_mempool_put_ok)

lemma enqueue_command_buf_ok [ring_simps]:
  assumes "ring_ok (command_ring s)"
  shows "ipaugenblick_enqueue_command_buf c s =
    (if length (ring_list (command_ring s)) < ring_cap (command_ring s)
     then Some (False, s\<lparr>command_ring := enq_step (command_ring s) [c] 1\<rparr>)
     else Some (True, s))"
  using assms by (simp add: ipaugenblick_enqueue_command_buf_def rte_ring_enqueue_ok)

lemma dequeue_command_buf_ok [ring_simps]:
  assumes "ring_ok (command_ring s)"
  shows "ipaugenblick_dequeue_command_buf s =
    (case ring_list (command_ring s) of
       [] \<Rightarrow> (None, s)
     | c # _ \<Rightarrow> (Some c, s\<lparr>command_ring := deq_step (command_ring s) 1\<rparr>))"
proof -
  have "rte_ring_count (command_ring s) = 0 \<longleftrightarrow> ring_list (command_ring s) = []"
    using rte_ring_count_ok [OF assms] by (metis length_0_conv unat_eq_0)
  then show ?thesis
    using assms
    by (auto simp: ipaugenblick_dequeue_command_buf_def rte_ring_sc_dequeue_bulk_def
        sc_dequeue_fixed split: list.split)
qed

end
