(* ===== verification/Ipaug_Server.thy ===== *)
theory Ipaug_Server
  imports Ipaug_Common
begin

unbundle bit_operations_syntax

text \<open>
  The service's side of the shared memory,
  \<open>service/ipaugenblick_service/ipaugenblick_server_side.h\<close>: creation of all rings and pools,
  the data the service keeps per connection, and the calls that hand buffers and readiness
  events to the applications. A descriptor of the code is the address of an entry of
  \<open>socket_satelite_data\<close>; here it is the index of the entry. An index outside its array makes
  the result \<open>None\<close>. Signals sent with \<open>kill\<close> are recorded in the order of sending.
\<close>

section \<open>State\<close>

record socket_satelite_data_t =
  sd_socket :: "nat option"
  sd_ringset_idx :: int
  sd_parent_idx :: int
  sd_apppid :: nat

record srv =
  mem :: shm
  socket_satelite_data :: "nat \<Rightarrow> socket_satelite_data_t"
  signals :: "nat list"
  user_kick_select_tx :: u64
  user_kick_select_rx :: u64
  user_pending_accept :: u64

abbreviation upd_satelite ::
  "nat \<Rightarrow> (socket_satelite_data_t \<Rightarrow> socket_satelite_data_t) \<Rightarrow> 'a srv_scheme \<Rightarrow> 'a srv_scheme" where
  "upd_satelite d f s \<equiv>
     s\<lparr>socket_satelite_data := (socket_satelite_data s)(d := f (socket_satelite_data s d))\<rparr>"

definition conn_idx :: "int \<Rightarrow> nat option" where
  "conn_idx i = (if 0 \<le> i \<and> i < int IPAUGENBLICK_CONNECTION_POOL_SIZE then Some (nat i) else None)"

definition selector_idx :: "int \<Rightarrow> nat option" where
  "selector_idx i = (if 0 \<le> i \<and> i < int IPAUGENBLICK_SELECTOR_POOL_SIZE then Some (nat i) else None)"

section \<open>Creation of the shared memory\<close>

text \<open>The names rings and pools are created under.\<close>

datatype mem_name =
    FREE_CLIENTS_RING | CLIENT_RING nat | COMMAND_RING_NAME | RX_MBUFS_RING
  | FREE_COMMAND_POOL_NAME | FREE_CONNECTIONS_POOL_NAME | FREE_CONNECTIONS_RING
  | TX_RING_NAME nat | RX_RING_NAME nat | SELECTOR_POOL_NAME | SELECTOR_RING_NAME
  | SELECTOR_READY_RING nat

text \<open>
  \<open>hdr\<close> is \<open>sizeof(struct rte_ring)\<close> and \<open>avail\<close> says for each name whether its memory
  can be reserved. Every failure ends in \<open>exit(0)\<close>.
\<close>

definition init_client :: "int \<Rightarrow> (mem_name \<Rightarrow> bool) \<Rightarrow> nat \<Rightarrow> shm \<Rightarrow> shm option" where
  "init_client hdr avail i m =
     do { (_, fr) \<leftarrow> rte_ring_enqueue (free_clients_ring m) i;
          cr \<leftarrow> rte_ring_create hdr (avail (CLIENT_RING i)) 0 64 (RING_F_SP_ENQ OR RING_F_SC_DEQ);
          Some (m\<lparr>free_clients_ring := fr, client_rings := (client_rings m)(i := cr)\<rparr>) }"

definition init_connection ::
  "int \<Rightarrow> (mem_name \<Rightarrow> bool) \<Rightarrow> int \<Rightarrow> int \<Rightarrow> nat \<Rightarrow> 'a srv_scheme \<Rightarrow> 'a srv_scheme option" where
  "init_connection hdr avail rx_bufs_count tx_bufs_count i s =
     (let m = mem s;
          sk = \<lparr>connection_idx = i, read_ready_to_app = False, write_ready_to_app = False,
                write_done_from_app = False, local_ipaddr = 0, local_port = 0, tx_space = 0\<rparr> in
      do { (_, fr) \<leftarrow> rte_ring_enqueue (free_connections_ring m) i;
           tx \<leftarrow> rte_ring_create hdr (avail (TX_RING_NAME i)) 0 (of_int tx_bufs_count)
                   (RING_F_SP_ENQ OR RING_F_SC_DEQ);
           rx \<leftarrow> rte_ring_create hdr (avail (RX_RING_NAME i)) (MbufPtr 0) (of_int rx_bufs_count)
                   (RING_F_SP_ENQ OR RING_F_SC_DEQ);
           Some (upd_satelite i
                   (\<lambda>_. \<lparr>sd_socket = None, sd_ringset_idx = -1, sd_parent_idx = -1, sd_apppid = 0\<rparr>)
                   (s\<lparr>mem := m\<lparr>free_connections_ring := fr, g_sockets := (g_sockets m)(i := sk),
                             tx_rings := (tx_rings m)(i := snd (rte_ring_set_water_mark tx 1)),
                             rx_rings := (rx_rings m)(i := snd (rte_ring_set_water_mark rx 1))\<rparr>\<rparr>)) })"

definition init_selector :: "int \<Rightarrow> (mem_name \<Rightarrow> bool) \<Rightarrow> int \<Rightarrow> nat \<Rightarrow> shm \<Rightarrow> shm option" where
  "init_selector hdr avail tx_bufs_count i m =
     do { rc \<leftarrow> rte_ring_create hdr (avail (SELECTOR_READY_RING i)) 0 (of_int tx_bufs_count)
                  (RING_F_SP_ENQ OR RING_F_SC_DEQ);
          (_, sr) \<leftarrow> rte_ring_enqueue (selectors_ring m) i;
          Some (m\<lparr>ready_connections := (ready_connections m)(i := rc), selectors_ring := sr\<rparr>) }"

definition ipaugenblick_service_api_init ::
  "int \<Rightarrow> (mem_name \<Rightarrow> bool) \<Rightarrow> int \<Rightarrow> int \<Rightarrow> int \<Rightarrow> 'a srv_scheme \<Rightarrow> 'a srv_scheme option" where
  "ipaugenblick_service_api_init hdr avail command_bufs_count rx_bufs_count tx_bufs_count s =
     do { fc \<leftarrow> rte_ring_create hdr (avail FREE_CLIENTS_RING) 0
                  (of_nat IPAUGENBLICK_CLIENTS_POOL_SIZE) 0;
          m1 \<leftarrow> fold_opt (init_client hdr avail) [0..<IPAUGENBLICK_CLIENTS_POOL_SIZE]
                  ((mem s)\<lparr>free_clients_ring := fc\<rparr>);
          cr \<leftarrow> rte_ring_create hdr (avail COMMAND_RING_NAME) 0 (of_int command_bufs_count) RING_F_SC_DEQ;
          (_ :: nat rte_ring) \<leftarrow> rte_ring_create hdr (avail RX_MBUFS_RING) 0
                  (of_int (rx_bufs_count * int IPAUGENBLICK_CONNECTION_POOL_SIZE)) 0;
          cp \<leftarrow> rte_mempool_create hdr (avail FREE_COMMAND_POOL_NAME) (nat command_bufs_count);
          cnp \<leftarrow> rte_mempool_create hdr (avail FREE_CONNECTIONS_POOL_NAME) 1;
          (gret, _, _) \<leftarrow> rte_mempool_get cnp;
          _ \<leftarrow> (if gret \<noteq> 0 then None else Some ());
          fr \<leftarrow> rte_ring_create hdr (avail FREE_CONNECTIONS_RING) 0
                  (of_nat IPAUGENBLICK_CONNECTION_POOL_SIZE) 0;
          s2 \<leftarrow> fold_opt (init_connection hdr avail rx_bufs_count tx_bufs_count)
                  [0..<IPAUGENBLICK_CONNECTION_POOL_SIZE]
                  (s\<lparr>mem := m1\<lparr>command_ring := cr, free_command_pool := cp, free_connections_ring := fr\<rparr>\<rparr>);
          sp \<leftarrow> rte_mempool_create hdr (avail SELECTOR_POOL_NAME) 1;
          (sret, _, _) \<leftarrow> rte_mempool_get sp;
          _ \<leftarrow> (if sret \<noteq> 0 then None else Some ());
          sr \<leftarrow> rte_ring_create hdr (avail SELECTOR_RING_NAME) 0
                  (of_nat IPAUGENBLICK_SELECTOR_POOL_SIZE) 0;
          m3 \<leftarrow> fold_opt (init_selector hdr avail tx_bufs_count) [0..<IPAUGENBLICK_SELECTOR_POOL_SIZE]
                  ((mem s2)\<lparr>selectors_ring := sr\<rparr>);
          Some (s2\<lparr>mem := m3\<rparr>) }"

section \<open>Readiness events\<close>

text \<open>Signal 10 to the application that owns the connection, when it is known.\<close>

definition kick_app :: "nat \<Rightarrow> 'a srv_scheme \<Rightarrow> 'a srv_scheme" where
  "kick_app d s =
     (let pid = sd_apppid (socket_satelite_data s d) in
      if pid \<noteq> 0 then s\<lparr>signals := signals s @ [pid]\<rparr> else s)"

definition enqueue_ready :: "nat \<Rightarrow> u32 \<Rightarrow> 'a srv_scheme \<Rightarrow> (int \<times> 'a srv_scheme) option" where
  "enqueue_ready d ev s =
     (let sd = socket_satelite_data s d; m = mem s in
      do { i \<leftarrow> conn_idx (sd_ringset_idx sd);
           p \<leftarrow> selector_idx (sd_parent_idx sd);
           (rc, r) \<leftarrow> rte_ring_enqueue (ready_connections m p) (ready_mask i ev);
           Some (rc, s\<lparr>mem := m\<lparr>ready_connections := (ready_connections m)(p := r)\<rparr>\<rparr>) })"

definition ipaugenblick_mark_readable :: "nat \<Rightarrow> 'a srv_scheme \<Rightarrow> 'a srv_scheme option" where
  "ipaugenblick_mark_readable d s =
     (let sd = socket_satelite_data s d in
      if sd_parent_idx sd = -1 then Some s
      else do { i \<leftarrow> conn_idx (sd_ringset_idx sd);
           if read_ready_to_app (g_sockets (mem s) i) then Some (kick_app d s)
           else do { (_, s1) \<leftarrow> enqueue_ready d SOCKET_READABLE_BIT
                       (s\<lparr>mem := upd_g_socket i (\<lambda>k. k\<lparr>read_ready_to_app := True\<rparr>) (mem s)\<rparr>);
                     let s2 = kick_app d s1 in
                     Some (s2\<lparr>user_kick_select_rx := user_kick_select_rx s2 + 1\<rparr>) } })"

text \<open>
  When the flag was set already the code executes \<open>return;\<close> in a function of type \<open>int\<close>: the
  value the caller sees, \<open>rv\<close>, is indeterminate.
\<close>

definition ipaugenblick_mark_writable :: "int \<Rightarrow> nat \<Rightarrow> 'a srv_scheme \<Rightarrow> (int \<times> 'a srv_scheme) option" where
  "ipaugenblick_mark_writable rv d s =
     (let sd = socket_satelite_data s d in
      if sd_parent_idx sd = -1 then Some (1, s)
      else do { i \<leftarrow> conn_idx (sd_ringset_idx sd);
           if write_ready_to_app (g_sockets (mem s) i) then Some (rv, kick_app d s)
           else do { (rc, s1) \<leftarrow> enqueue_ready d SOCKET_WRITABLE_BIT
                       (s\<lparr>mem := upd_g_socket i (\<lambda>k. k\<lparr>write_ready_to_app := True\<rparr>) (mem s)\<rparr>);
                     let s2 = s1\<lparr>user_kick_select_tx := user_kick_select_tx s1 + 1\<rparr> in
                     Some (if rc = - ENOBUFS then 1 else 0, kick_app d s2) } })"

definition ipaugenblick_mark_closed :: "nat \<Rightarrow> 'a srv_scheme \<Rightarrow> (int \<times> 'a srv_scheme) option" where
  "ipaugenblick_mark_closed d s =
     (if sd_parent_idx (socket_satelite_data s d) = -1 then Some (1, s)
      else do { (rc, s1) \<leftarrow> enqueue_ready d SOCKET_CLOSED_BIT s;
                Some (if rc = - ENOBUFS then 1 else 0, kick_app d s1) })"

section \<open>Buffers and accepted sockets\<close>

definition ipaugenblick_post_accepted :: "nat \<Rightarrow> nat \<Rightarrow> 'a srv_scheme \<Rightarrow> 'a srv_scheme option" where
  "ipaugenblick_post_accepted c d s =
     do { (rc, r) \<leftarrow> rte_ring_enqueue (rx_rings (mem s) d) (CmdPtr c);
          let m = (mem s)\<lparr>rx_rings := (rx_rings (mem s))(d := r)\<rparr>;
          s1 \<leftarrow> (if rc = - ENOBUFS
                 then do { m' \<leftarrow> ipaugenblick_free_command_buf c m; Some (s\<lparr>mem := m'\<rparr>) }
                 else ipaugenblick_mark_readable d (s\<lparr>mem := m\<rparr>));
          Some (s1\<lparr>user_pending_accept := user_pending_accept s1 + 1\<rparr>) }"

definition ipaugenblick_dequeue_tx_buf :: "nat \<Rightarrow> 'a srv_scheme \<Rightarrow> nat option \<times> 'a srv_scheme" where
  "ipaugenblick_dequeue_tx_buf d s =
     (case rte_ring_sc_dequeue_bulk (tx_rings (mem s) d) 1 of
        (ret, bufs, r) \<Rightarrow>
          let s1 = s\<lparr>mem := (mem s)\<lparr>tx_rings := (tx_rings (mem s))(d := r)\<rparr>\<rparr> in
          if ret \<noteq> 0 then (None, s1) else (Some (hd bufs), s1))"

definition ipaugenblick_dequeue_tx_buf_burst ::
  "nat \<Rightarrow> int \<Rightarrow> 'a srv_scheme \<Rightarrow> nat list \<times> 'a srv_scheme" where
  "ipaugenblick_dequeue_tx_buf_burst d max_count s =
     (case rte_ring_sc_dequeue_burst (tx_rings (mem s) d) (of_int max_count) of
        (_, bufs, r) \<Rightarrow> (bufs, s\<lparr>mem := (mem s)\<lparr>tx_rings := (tx_rings (mem s))(d := r)\<rparr>\<rparr>))"

definition ipaugenblick_tx_buf_count :: "nat \<Rightarrow> 'a srv_scheme \<Rightarrow> (int \<times> 'a srv_scheme) option" where
  "ipaugenblick_tx_buf_count d s =
     do { i \<leftarrow> conn_idx (sd_ringset_idx (socket_satelite_data s d));
          Some (sint (rte_ring_count (tx_rings (mem s) d)),
                s\<lparr>mem := upd_g_socket i (\<lambda>k. k\<lparr>write_done_from_app := False\<rparr>) (mem s)\<rparr>) }"

definition ipaugenblick_rx_buf_free_count :: "nat \<Rightarrow> 'a srv_scheme \<Rightarrow> int" where
  "ipaugenblick_rx_buf_free_count d s = sint (rte_ring_free_count (rx_rings (mem s) d))"

text \<open>\<open>True\<close> when the ring had no room for the buffer.\<close>

definition ipaugenblick_submit_rx_buf :: "nat \<Rightarrow> nat \<Rightarrow> 'a srv_scheme \<Rightarrow> (bool \<times> 'a srv_scheme) option" where
  "ipaugenblick_submit_rx_buf mbuf d s =
     (case rte_ring_sp_enqueue_bulk (rx_rings (mem s) d) [MbufPtr mbuf] 1 of
        (rc, r) \<Rightarrow>
          let s1 = s\<lparr>mem := (mem s)\<lparr>rx_rings := (rx_rings (mem s))(d := r)\<rparr>\<rparr> in
          do { s2 \<leftarrow> (if rc \<noteq> 0 then ipaugenblick_mark_readable d s1 else Some s1);
               Some (rc = - ENOBUFS, s2) })"

definition ipaugenblick_free_socket :: "nat \<Rightarrow> 'a srv_scheme \<Rightarrow> 'a srv_scheme option" where
  "ipaugenblick_free_socket connidx s =
     do { (_, r) \<leftarrow> rte_ring_enqueue (free_connections_ring (mem s)) connidx;
          Some (s\<lparr>mem := (mem s)\<lparr>free_connections_ring := r\<rparr>\<rparr>) }"

section \<open>Well-formed shared memory\<close>

definition ring_fresh :: "nat \<Rightarrow> 'a rte_ring \<Rightarrow> bool" where
  "ring_fresh c r \<longleftrightarrow> ring_ok r \<and> ring_list r = [] \<and> ring_cap r = c"

text \<open>Every ring is well formed; the watermark of the data rings is 1.\<close>

definition shm_ok :: "shm \<Rightarrow> bool" where
  "shm_ok m \<longleftrightarrow>
     ring_ok (command_ring m) \<and> ring_ok (free_command_pool m) \<and> ring_ok (free_connections_ring m) \<and>
     ring_ok (free_clients_ring m) \<and> ring_ok (selectors_ring m) \<and> ring_ok (mbuf_pool m) \<and>
     (\<forall>i < IPAUGENBLICK_CLIENTS_POOL_SIZE. ring_ok (client_rings m i)) \<and>
     (\<forall>i < IPAUGENBLICK_SELECTOR_POOL_SIZE. ring_ok (ready_connections m i)) \<and>
     (\<forall>i < IPAUGENBLICK_CONNECTION_POOL_SIZE.
        ring_ok (tx_rings m i) \<and> ring_ok (rx_rings m i) \<and>
        watermark (prod (tx_rings m i)) = 1 \<and> watermark (prod (rx_rings m i)) = 1)"

lemma shm_okD:
  assumes "shm_ok m"
  shows "ring_ok (command_ring m)" "ring_ok (free_command_pool m)" "ring_ok (free_connections_ring m)"
    "ring_ok (free_clients_ring m)" "ring_ok (selectors_ring m)" "ring_ok (mbuf_pool m)"
    "i < 64 \<Longrightarrow> ring_ok (client_rings m i)" "i < 64 \<Longrightarrow> ring_ok (ready_connections m i)"
    "i < 2048 \<Longrightarrow> ring_ok (tx_rings m i)" "i < 2048 \<Longrightarrow> ring_ok (rx_rings m i)"
    "i < 2048 \<Longrightarrow> watermark (prod (tx_rings m i)) = 1" "i < 2048 \<Longrightarrow> watermark (prod (rx_rings m i)) = 1"
  using assms by (simp_all add: shm_ok_def)

section \<open>Creation\<close>

text \<open>The index ranges below are not to be unrolled by the simplifier.\<close>

declare upt_rec_numeral [simp del]

lemma rte_ring_create_ok:
  assumes "0 \<le> hdr" "POWEROF2 count" "count \<le> RTE_RING_SZ_MASK"
  shows "rte_ring_create hdr True fill count flgs = Some (rte_ring_init fill count flgs)"
proof -
  have "0 \<le> (hdr + uint count * 8 + 63) div 64 * 64"
    using assms(1) by (simp add: pos_imp_zdiv_nonneg_iff)
  then show ?thesis
    using assms by (simp add: rte_ring_create_def rte_ring_get_memsize_def)
qed

lemma init_fresh:
  assumes "POWEROF2 count" "0 < count" "count \<le> RTE_RING_SZ_MASK"
  shows "ring_fresh (unat count - 1) (rte_ring_init fill count flgs)"
  by (simp add: ring_fresh_def rte_ring_init_ok [OF assms])

lemma water_mark_fresh:
  assumes "ring_fresh c r" "0 < w" "w < prod_size (prod r)"
  shows "ring_fresh c (snd (rte_ring_set_water_mark r w))"
    "watermark (prod (snd (rte_ring_set_water_mark r w))) = w"
  using assms by (auto simp: rte_ring_set_water_mark_def ring_fresh_def ring_ok_def ring_list_def ring_cap_def)

lemma data_ring_fresh:
  "ring_fresh 1023 (snd (rte_ring_set_water_mark (rte_ring_init fill 1024 flgs) 1))"
  "watermark (prod (snd (rte_ring_set_water_mark (rte_ring_init fill 1024 flgs) 1))) = 1"
  using water_mark_fresh [OF init_fresh [of 1024 fill flgs], of 1]
  by (simp_all add: POWEROF2_def rte_ring_init_def)

lemma enqueue_capped:
  assumes "ring_ok r" "ring_cap r = c" "ring_list r = [0..<min i c]"
  shows "\<exists>e r'. rte_ring_enqueue r i = Some (e, r') \<and> ring_ok r' \<and> ring_cap r' = c \<and>
    ring_list r' = [0..<min (Suc i) c]"
  using assms by (auto simp: rte_ring_enqueue_ok ring_push min_def)

lemma mempool_create_ok:
  assumes "0 \<le> hdr" "POWEROF2 c" "c \<le> RTE_RING_SZ_MASK" "c = rte_align32pow2 (of_nat n + 1)" "n < unat c"
  shows "\<exists>mp. rte_mempool_create hdr True n = Some mp \<and> ring_ok mp \<and> ring_list mp = [0..<n] \<and>
    ring_cap mp = unat c - 1"
proof -
  let ?P = "\<lambda>i mp. ring_ok mp \<and> ring_list mp = [0..<i] \<and> ring_cap mp = unat c - 1"
  have c0: "0 < c" using assms(5) by (auto simp: word_gt_0)
  have "\<exists>mp. fold_opt mempool_add_elem [0..<n] (rte_ring_init 0 c 0) = Some mp \<and> ?P n mp"
  proof (rule fold_opt_upt)
    fix i mp assume "i < n" "?P i mp"
    then show "\<exists>mp'. mempool_add_elem i mp = Some mp' \<and> ?P (Suc i) mp'"
      using assms(5) by (auto simp: mempool_add_elem_def mp_enqueue_bulk_one ring_push)
  qed (use rte_ring_init_ok [OF assms(2) c0 assms(3)] in auto)
  then show ?thesis
    using assms by (simp add: rte_mempool_create_def common_ring_alloc_def rte_ring_create_ok)
qed

text \<open>An unused connection, and the parts of the memory its creation leaves alone.\<close>

definition conn_fresh :: "nat \<Rightarrow> 'a srv_scheme \<Rightarrow> bool" where
  "conn_fresh i s \<longleftrightarrow>
     ring_fresh 1023 (tx_rings (mem s) i) \<and> watermark (prod (tx_rings (mem s) i)) = 1 \<and>
     ring_fresh 1023 (rx_rings (mem s) i) \<and> watermark (prod (rx_rings (mem s) i)) = 1 \<and>
     connection_idx (g_sockets (mem s) i) = i \<and> \<not> read_ready_to_app (g_sockets (mem s) i) \<and>
     \<not> write_ready_to_app (g_sockets (mem s) i) \<and> tx_space (g_sockets (mem s) i) = 0 \<and>
     socket_satelite_data s i =
       \<lparr>sd_socket = None, sd_ringset_idx = -1, sd_parent_idx = -1, sd_apppid = 0\<rparr>"

definition same_but_connections :: "shm \<Rightarrow> shm \<Rightarrow> bool" where
  "same_but_connections m m' \<longleftrightarrow>
     command_ring m' = command_ring m \<and> free_command_pool m' = free_command_pool m \<and>
     free_clients_ring m' = free_clients_ring m \<and> client_rings m' = client_rings m \<and>
     mbuf_pool m' = mbuf_pool m"

lemma init_clients_ok:
  assumes "0 \<le> hdr" "\<forall>n. avail n" "ring_fresh 63 (free_clients_ring m)"
  shows "\<exists>m'. fold_opt (init_client hdr avail) [0..<64] m = Some m' \<and>
    ring_ok (free_clients_ring m') \<and> ring_list (free_clients_ring m') = [0..<63] \<and>
    (\<forall>i<64. ring_fresh 63 (client_rings m' i)) \<and>
    mbuf_pool m' = mbuf_pool m"
proof -
  let ?P = "\<lambda>i m'. ring_ok (free_clients_ring m') \<and> ring_cap (free_clients_ring m') = 63 \<and>
    ring_list (free_clients_ring m') = [0..<min i 63] \<and> (\<forall>j<i. ring_fresh 63 (client_rings m' j)) \<and>
    mbuf_pool m' = mbuf_pool m"
  have "\<exists>m'. fold_opt (init_client hdr avail) [0..<64] m = Some m' \<and> ?P 64 m'"
  proof (rule fold_opt_upt [where P = ?P])
    fix i :: nat and m' :: shm assume "?P i m'"
    moreover from this obtain e fr where "rte_ring_enqueue (free_clients_ring m') i = Some (e, fr)"
      "ring_ok fr" "ring_cap fr = 63" "ring_list fr = [0..<min (Suc i) 63]"
      using enqueue_capped [of "free_clients_ring m'" 63 i] by auto
    ultimately show "\<exists>m''. init_client hdr avail i m' = Some m'' \<and> ?P (Suc i) m''"
      using assms(1,2) init_fresh [of 64 0 3]
      by (auto simp: init_client_def rte_ring_create_ok POWEROF2_def less_Suc_eq)
  qed (use assms(3) in \<open>auto simp: ring_fresh_def\<close>)
  then show ?thesis by auto
qed

lemma init_connections_ok:
  fixes s :: "'a srv_scheme"
  assumes "0 \<le> hdr" "\<forall>n. avail n" "ring_fresh 2047 (free_connections_ring (mem s))"
  shows "\<exists>s'. fold_opt (init_connection hdr avail 1024 1024) [0..<2048] s = Some s' \<and>
    ring_ok (free_connections_ring (mem s')) \<and> ring_list (free_connections_ring (mem s')) = [0..<2047] \<and>
    (\<forall>i<2048. conn_fresh i s') \<and>
    same_but_connections (mem s) (mem s')"
proof -
  let ?P = "\<lambda>i (s' :: 'a srv_scheme). ring_ok (free_connections_ring (mem s')) \<and>
    ring_cap (free_connections_ring (mem s')) = 2047 \<and>
    ring_list (free_connections_ring (mem s')) = [0..<min i 2047] \<and> (\<forall>j<i. conn_fresh j s') \<and>
    same_but_connections (mem s) (mem s')"
  have "\<exists>s'. fold_opt (init_connection hdr avail 1024 1024) [0..<2048] s = Some s' \<and> ?P 2048 s'"
  proof (rule fold_opt_upt [where P = ?P])
    fix i and s' :: "'a srv_scheme"
    assume P: "?P i s'"
    then obtain e fr where fr: "rte_ring_enqueue (free_connections_ring (mem s')) i = Some (e, fr)"
      "ring_ok fr" "ring_cap fr = 2047" "ring_list fr = [0..<min (Suc i) 2047]"
      using enqueue_capped [of "free_connections_ring (mem s')" 2047 i] by auto
    show "\<exists>s''. init_connection hdr avail 1024 1024 i s' = Some s'' \<and> ?P (Suc i) s''"
      using assms(1,2) P fr(2-)
      by (auto simp: init_connection_def fr(1) rte_ring_create_ok POWEROF2_def less_Suc_eq
          conn_fresh_def same_but_connections_def data_ring_fresh Let_def)
  qed (use assms(3) in \<open>auto simp: ring_fresh_def same_but_connections_def\<close>)
  then show ?thesis by auto
qed

lemma init_selectors_ok:
  assumes "0 \<le> hdr" "\<forall>n. avail n" "ring_fresh 63 (selectors_ring m)"
  shows "\<exists>m'. fold_opt (init_selector hdr avail 1024) [0..<64] m = Some m' \<and>
    ring_ok (selectors_ring m') \<and> ring_list (selectors_ring m') = [0..<63] \<and>
    (\<forall>i<64. ring_fresh 1023 (ready_connections m' i)) \<and> same_but_connections m m' \<and>
    free_connections_ring m' = free_connections_ring m \<and> tx_rings m' = tx_rings m \<and>
    rx_rings m' = rx_rings m \<and> g_sockets m' = g_sockets m"
proof -
  let ?P = "\<lambda>i m'. ring_ok (selectors_ring m') \<and> ring_cap (selectors_ring m') = 63 \<and>
    ring_list (selectors_ring m') = [0..<min i 63] \<and>
    (\<forall>j<i. ring_fresh 1023 (ready_connections m' j)) \<and> same_but_connections m m' \<and>
    free_connections_ring m' = free_connections_ring m \<and> tx_rings m' = tx_rings m \<and>
    rx_rings m' = rx_rings m \<and> g_sockets m' = g_sockets m"
  have "\<exists>m'. fold_opt (init_selector hdr avail 1024) [0..<64] m = Some m' \<and> ?P 64 m'"
  proof (rule fold_opt_upt [where P = ?P])
    fix i :: nat and m' :: shm assume P: "?P i m'"
    then obtain e fr where fr: "rte_ring_enqueue (selectors_ring m') i = Some (e, fr)"
      "ring_ok fr" "ring_cap fr = 63" "ring_list fr = [0..<min (Suc i) 63]"
      using enqueue_capped [of "selectors_ring m'" 63 i] by auto
    show "\<exists>m''. init_selector hdr avail 1024 i m' = Some m'' \<and> ?P (Suc i) m''"
      using assms(1,2) P fr(2-) init_fresh [of 1024 0 3]
      by (auto simp: init_selector_def fr(1) rte_ring_create_ok POWEROF2_def less_Suc_eq
          same_but_connections_def)
  qed (use assms(3) in \<open>auto simp: ring_fresh_def same_but_connections_def\<close>)
  then show ?thesis by auto
qed

section \<open>The laws of readiness events\<close>

text \<open>What marking a connection leaves alone.\<close>

definition same_but_events :: "'a srv_scheme \<Rightarrow> 'a srv_scheme \<Rightarrow> bool" where
  "same_but_events s s' \<longleftrightarrow>
     socket_satelite_data s' = socket_satelite_data s \<and> srv.more s' = srv.more s \<and>
     (\<forall>rc gs. (mem s')\<lparr>ready_connections := rc, g_sockets := gs\<rparr> =
              (mem s)\<lparr>ready_connections := rc, g_sockets := gs\<rparr>) \<and>
     user_pending_accept s' = user_pending_accept s"

lemma same_but_events_refl [simp]: "same_but_events s s"
  by (simp add: same_but_events_def)

lemma same_but_events_trans:
  "same_but_events s1 s2 \<Longrightarrow> same_but_events s2 s3 \<Longrightarrow> same_but_events s1 s3"
  by (simp add: same_but_events_def)

lemma same_but_eventsD:
  assumes "same_but_events s s'"
  shows "socket_satelite_data s' = socket_satelite_data s" "command_ring (mem s') = command_ring (mem s)"
    "free_command_pool (mem s') = free_command_pool (mem s)" "cmds (mem s') = cmds (mem s)"
    "free_connections_ring (mem s') = free_connections_ring (mem s)"
    "tx_rings (mem s') = tx_rings (mem s)" "rx_rings (mem s') = rx_rings (mem s)"
    "mbufs (mem s') = mbufs (mem s)" "mbuf_pool (mem s') = mbuf_pool (mem s)"
    "client_rings (mem s') = client_rings (mem s)" "selectors_ring (mem s') = selectors_ring (mem s)"
    "free_clients_ring (mem s') = free_clients_ring (mem s)"
  using assms by (cases "mem s"; cases "mem s'"; simp add: same_but_events_def)+

lemma kick_app_simps [simp]:
  "mem (kick_app d s) = mem s" "socket_satelite_data (kick_app d s) = socket_satelite_data s"
  "same_but_events s0 (kick_app d s) = same_but_events s0 s"
  "signals (kick_app d s) =
    signals s @ (if sd_apppid (socket_satelite_data s d) \<noteq> 0 then [sd_apppid (socket_satelite_data s d)] else [])"
  by (simp_all add: kick_app_def Let_def same_but_events_def)

lemma selector_idxD: "selector_idx p = Some q \<Longrightarrow> q < 64" "conn_idx i = Some j \<Longrightarrow> j < 2048 \<and> i = int j"
  by (auto simp: selector_idx_def conn_idx_def split: if_splits)

text \<open>The indices of a connection that is in use.\<close>

definition sat_ok :: "socket_satelite_data_t \<Rightarrow> bool" where
  "sat_ok sd \<longleftrightarrow> sd_parent_idx sd = -1 \<or> selector_idx (sd_parent_idx sd) \<noteq> None \<and> conn_idx (sd_ringset_idx sd) \<noteq> None"

lemma enqueue_ready_ok:
  assumes "shm_ok (mem s)" "conn_idx (sd_ringset_idx (socket_satelite_data s d)) = Some i"
    "selector_idx (sd_parent_idx (socket_satelite_data s d)) = Some p"
  shows "\<exists>rc s'. enqueue_ready d ev s = Some (rc, s') \<and> shm_ok (mem s') \<and> same_but_events s s' \<and>
    signals s' = signals s \<and> g_sockets (mem s') = g_sockets (mem s) \<and>
    (\<forall>q. q \<noteq> p \<longrightarrow> ready_connections (mem s') q = ready_connections (mem s) q) \<and>
    (if length (ring_list (ready_connections (mem s) p)) < ring_cap (ready_connections (mem s) p)
     then rc \<noteq> - ENOBUFS \<and>
       ring_list (ready_connections (mem s') p) = ring_list (ready_connections (mem s) p) @ [ready_mask i ev]
     else rc = - ENOBUFS \<and> ready_connections (mem s') p = ready_connections (mem s) p)"
  using assms selector_idxD(1) [OF assms(3)]
  by (auto simp: enqueue_ready_def shm_ok_def same_but_events_def rte_ring_enqueue_ok ring_push Let_def)

lemma g_socket_update_frame [simp]:
  "shm_ok (m\<lparr>g_sockets := gs\<rparr>) = shm_ok m"
  "same_but_events (s\<lparr>mem := (mem s)\<lparr>g_sockets := gs\<rparr>\<rparr>) s' = same_but_events s s'"
  "same_but_events s (s'\<lparr>user_kick_select_rx := n\<rparr>) = same_but_events s s'"
  "same_but_events s (s'\<lparr>user_kick_select_tx := n\<rparr>) = same_but_events s s'"
  by (simp_all add: shm_ok_def same_but_events_def)

lemma mark_readable_ok:
  assumes ok: "shm_ok (mem s)" "sat_ok (socket_satelite_data s d)"
  shows "\<exists>s'. ipaugenblick_mark_readable d s = Some s' \<and> shm_ok (mem s') \<and> same_but_events s s' \<and>
    (\<forall>j. write_ready_to_app (g_sockets (mem s') j) = write_ready_to_app (g_sockets (mem s) j))"
proof (cases "sd_parent_idx (socket_satelite_data s d) = -1")
  case False
  then obtain i p where ip: "conn_idx (sd_ringset_idx (socket_satelite_data s d)) = Some i"
    "selector_idx (sd_parent_idx (socket_satelite_data s d)) = Some p"
    using ok by (auto simp: sat_ok_def)
  show ?thesis
    using enqueue_ready_ok [of "s\<lparr>mem := upd_g_socket i (\<lambda>k. k\<lparr>read_ready_to_app := True\<rparr>) (mem s)\<rparr>" d i p 1]
      ok ip False by (auto simp: ipaugenblick_mark_readable_def Let_def)
qed (use ok in \<open>simp add: ipaugenblick_mark_readable_def\<close>)

lemma mark_writable_ok:
  assumes ok: "shm_ok (mem s)" "sat_ok (socket_satelite_data s d)"
  shows "\<exists>rc s'. ipaugenblick_mark_writable rv d s = Some (rc, s') \<and> shm_ok (mem s') \<and> same_but_events s s' \<and>
    (\<forall>j. read_ready_to_app (g_sockets (mem s') j) = read_ready_to_app (g_sockets (mem s) j))"
proof (cases "sd_parent_idx (socket_satelite_data s d) = -1")
  case False
  then obtain i p where ip: "conn_idx (sd_ringset_idx (socket_satelite_data s d)) = Some i"
    "selector_idx (sd_parent_idx (socket_satelite_data s d)) = Some p"
    using ok by (auto simp: sat_ok_def)
  show ?thesis
    using enqueue_ready_ok [of "s\<lparr>mem := upd_g_socket i (\<lambda>k. k\<lparr>write_ready_to_app := True\<rparr>) (mem s)\<rparr>" d i p 2]
      ok ip False by (auto simp: ipaugenblick_mark_writable_def Let_def)
qed (use ok in \<open>simp add: ipaugenblick_mark_writable_def\<close>)

lemma mark_closed_ok:
  assumes ok: "shm_ok (mem s)" "sat_ok (socket_satelite_data s d)"
  shows "\<exists>rc s'. ipaugenblick_mark_closed d s = Some (rc, s') \<and> shm_ok (mem s') \<and> same_but_events s s' \<and>
    g_sockets (mem s') = g_sockets (mem s)"
proof (cases "sd_parent_idx (socket_satelite_data s d) = -1")
  case False
  then show ?thesis
    using enqueue_ready_ok [OF ok(1), of d _ _ 4] ok(2)
    by (fastforce simp: ipaugenblick_mark_closed_def sat_ok_def)
qed (use ok in \<open>simp add: ipaugenblick_mark_closed_def\<close>)

text \<open>The first event since the application last looked is posted, later ones only signal.\<close>

lemma mark_readable_first:
  assumes "shm_ok (mem s)" "conn_idx (sd_ringset_idx (socket_satelite_data s d)) = Some i"
    "selector_idx (sd_parent_idx (socket_satelite_data s d)) = Some p"
    "\<not> read_ready_to_app (g_sockets (mem s) i)"
    "length (ring_list (ready_connections (mem s) p)) < ring_cap (ready_connections (mem s) p)"
  shows "\<exists>s'. ipaugenblick_mark_readable d s = Some s' \<and> shm_ok (mem s') \<and> same_but_events s s' \<and>
    ring_list (ready_connections (mem s') p) =
      ring_list (ready_connections (mem s) p) @ [ready_mask i SOCKET_READABLE_BIT] \<and>
    read_ready_to_app (g_sockets (mem s') i) \<and>
    signals s' = signals s @ (if sd_apppid (socket_satelite_data s d) \<noteq> 0
                              then [sd_apppid (socket_satelite_data s d)] else [])"
  using enqueue_ready_ok [of "s\<lparr>mem := upd_g_socket i (\<lambda>k. k\<lparr>read_ready_to_app := True\<rparr>) (mem s)\<rparr>" d i p 1] assms
  by (auto simp: ipaugenblick_mark_readable_def Let_def same_but_eventsD selector_idx_def split: if_splits)

lemma mark_readable_again:
  assumes "read_ready_to_app (g_sockets (mem s) i)"
    "conn_idx (sd_ringset_idx (socket_satelite_data s d)) = Some i"
    "sd_parent_idx (socket_satelite_data s d) \<noteq> -1"
  shows "ipaugenblick_mark_readable d s = Some (kick_app d s)"
  using assms by (simp add: ipaugenblick_mark_readable_def)

section \<open>A small instance\<close>

text \<open>Rings of eight slots, three free command buffers; connection 3 is open with selector 2.\<close>

definition data_ring :: "'a \<Rightarrow> 'a rte_ring" where
  "data_ring x = snd (rte_ring_set_water_mark (rte_ring_init x 8 (RING_F_SP_ENQ OR RING_F_SC_DEQ)) 1)"

definition small_shm :: shm where
  "small_shm =
     \<lparr>command_ring = rte_ring_init 0 8 RING_F_SC_DEQ,
      free_command_pool = enq_step (rte_ring_init 0 8 0) [0, 1, 2] 3,
      cmds = (\<lambda>_. \<lparr>cmd = IPAUGENBLICK_DUMMY_COMMAND, ringset_idx = 0, parent_idx = -1, u = U_none\<rparr>),
      free_connections_ring = enq_step (rte_ring_init 0 8 0) [4, 5] 2,
      g_sockets = (\<lambda>i. \<lparr>connection_idx = i, read_ready_to_app = False, write_ready_to_app = False,
                           write_done_from_app = False, local_ipaddr = 0, local_port = 0, tx_space = 0\<rparr>),
      free_clients_ring = rte_ring_init 0 8 0, client_rings = (\<lambda>_. rte_ring_init 0 8 3),
      selectors_ring = rte_ring_init 0 8 0, ready_connections = (\<lambda>_. rte_ring_init 0 8 3),
      tx_rings = (\<lambda>_. data_ring 0), rx_rings = (\<lambda>_. data_ring (MbufPtr 0)),
      mbufs = (\<lambda>_. \<lparr>data_off = 128, refcnt = 1, nb_segs = 1, data_len = 0, pkt_len = 0, nxt = None, data = [],
                       headroom = (\<lambda>_. None)\<rparr>),
      mbuf_pool = enq_step (rte_ring_init 0 8 0) [10, 11, 12] 3\<rparr>"

definition small_srv :: srv where
  "small_srv =
     \<lparr>mem = small_shm,
      socket_satelite_data = (\<lambda>i. if i = 3
        then \<lparr>sd_socket = Some 30, sd_ringset_idx = 3, sd_parent_idx = 2, sd_apppid = 77\<rparr>
        else \<lparr>sd_socket = None, sd_ringset_idx = -1, sd_parent_idx = -1, sd_apppid = 0\<rparr>),
      signals = [], user_kick_select_tx = 0, user_kick_select_rx = 0, user_pending_accept = 0\<rparr>"

lemma ring_init8 [simp]:
  "ring_ok (rte_ring_init x 8 f)" "ring_list (rte_ring_init x 8 f) = []" "ring_cap (rte_ring_init x 8 f) = 7"
  using rte_ring_init_ok [of 8 x f] by (simp_all add: POWEROF2_def)

lemma ring_init8_filled:
  assumes "length xs \<le> 7"
  shows "ring_ok (enq_step (rte_ring_init x 8 f) xs (of_nat (length xs)))"
    "ring_list (enq_step (rte_ring_init x 8 f) xs (of_nat (length xs))) = xs"
  using enq_step [of "rte_ring_init x 8 f" "of_nat (length xs)" xs] assms
  by (simp_all add: unat_of_nat)

lemma data_ring_ok [simp]:
  "ring_ok (data_ring x)" "ring_list (data_ring x) = []" "ring_cap (data_ring x) = 7"
  "watermark (prod (data_ring x)) = 1"
  using water_mark_fresh [OF init_fresh [of 8 x 3], of 1]
  by (simp_all add: data_ring_def POWEROF2_def ring_fresh_def rte_ring_init_def)

lemma small_shm_rings [simp]:
  "ring_ok (free_command_pool small_shm)" "ring_list (free_command_pool small_shm) = [0, 1, 2]"
  "ring_ok (free_connections_ring small_shm)" "ring_list (free_connections_ring small_shm) = [4, 5]"
  "ring_ok (mbuf_pool small_shm)" "ring_list (mbuf_pool small_shm) = [10, 11, 12]"
  "ring_cap (free_command_pool small_shm) = 7" "ring_cap (free_connections_ring small_shm) = 7"
  "ring_cap (mbuf_pool small_shm) = 7"
  using ring_init8_filled [of "[0, 1, 2 :: nat]" 0 0] ring_init8_filled [of "[4, 5 :: nat]" 0 0]
    ring_init8_filled [of "[10, 11, 12 :: nat]" 0 0]
  by (simp_all add: small_shm_def)

lemma small_shm_sel [simp]:
  "command_ring small_shm = rte_ring_init 0 8 RING_F_SC_DEQ" "rx_rings small_shm i = data_ring (MbufPtr 0)"
  "tx_rings small_shm i = data_ring 0" "ready_connections small_shm p = rte_ring_init 0 8 3"
  "client_rings small_shm p = rte_ring_init 0 8 3" "free_clients_ring small_shm = rte_ring_init 0 8 0"
  "selectors_ring small_shm = rte_ring_init 0 8 0"
  "\<not> read_ready_to_app (g_sockets small_shm i)" "\<not> write_ready_to_app (g_sockets small_shm i)"
  by (simp_all add: small_shm_def)

lemma small_srv_sel [simp]:
  "mem small_srv = small_shm" "signals small_srv = []"
  "socket_satelite_data small_srv 3 =
    \<lparr>sd_socket = Some 30, sd_ringset_idx = 3, sd_parent_idx = 2, sd_apppid = 77\<rparr>"
  by (simp_all add: small_srv_def)

lemma small_shm_ok [simp]: "shm_ok small_shm"
  by (simp add: shm_ok_def)

section \<open>Properties\<close>

lemma command_pool_create:
  assumes "0 \<le> hdr"
  shows "\<exists>mp. rte_mempool_create hdr True 32768 = Some mp \<and> ring_ok mp \<and> ring_list mp = [0..<32768]"
proof -
  have "65536 = rte_align32pow2 (of_nat 32768 + 1)" "POWEROF2 65536"
    by (simp_all add: rte_align32pow2_def POWEROF2_def Let_def)
  then show ?thesis
    using mempool_create_ok [OF assms, of 65536 32768] by fastforce
qed

lemma one_pool_create:
  assumes "0 \<le> hdr"
  shows "\<exists>mp. rte_mempool_create hdr True 1 = Some mp \<and> ring_ok mp \<and> ring_list mp = [0]"
proof -
  have "2 = rte_align32pow2 (of_nat 1 + 1)" "POWEROF2 2"
    by (simp_all add: rte_align32pow2_def POWEROF2_def Let_def)
  then show ?thesis
    using mempool_create_ok [OF assms, of 2 1] by fastforce
qed

text \<open>
  C4. With memory for every ring, starting the service leaves a well-formed shared memory:
  all command buffers free, empty data rings of 1023 slots with watermark 1, and the
  connections 0 to 2046, the clients 0 to 62 and the selectors 0 to 62 on their free rings. A
  ring of 2048 slots holds 2047 entries, so the last connection, client and selector that the
  loops enqueue are dropped.
\<close>

theorem service_api_init_ok:
  fixes s :: "'a srv_scheme"
  assumes hdr: "0 \<le> hdr" and avail: "\<forall>n. avail n" and mb: "ring_ok (mbuf_pool (mem s))"
  shows "\<exists>s'. ipaugenblick_service_api_init hdr avail (int COMMAND_POOL_SIZE) (int DATA_RINGS_SIZE)
        (int DATA_RINGS_SIZE) s = Some s' \<and>
    shm_ok (mem s') \<and> (\<forall>i<2048. conn_fresh i s') \<and>
    ring_list (free_command_pool (mem s')) = [0..<COMMAND_POOL_SIZE] \<and> ring_fresh 32767 (command_ring (mem s')) \<and>
    ring_list (free_connections_ring (mem s')) = [0..<2047] \<and>
    ring_list (free_clients_ring (mem s')) = [0..<63] \<and> ring_list (selectors_ring (mem s')) = [0..<63]"
proof -
  have av: "\<And>n. avail n" using avail by simp
  define fc where "fc = rte_ring_init (0 :: nat) 64 0"
  define fr where "fr = rte_ring_init (0 :: nat) 2048 0"
  define cr where "cr = rte_ring_init (0 :: nat) 32768 RING_F_SC_DEQ"
  have fresh: "ring_fresh 63 fc" "ring_fresh 2047 fr" "ring_fresh 32767 cr"
    using init_fresh [of 64 0 0] init_fresh [of 2048 0 0] init_fresh [of 32768 0 2]
    by (simp_all add: fc_def fr_def cr_def POWEROF2_def)
  obtain m1 where m1: "fold_opt (init_client hdr avail) [0..<64] ((mem s)\<lparr>free_clients_ring := fc\<rparr>) = Some m1"
    "ring_ok (free_clients_ring m1)" "ring_list (free_clients_ring m1) = [0..<63]"
    "\<forall>i<64. ring_fresh 63 (client_rings m1 i)" "mbuf_pool m1 = mbuf_pool (mem s)"
    using init_clients_ok [OF hdr avail, of "(mem s)\<lparr>free_clients_ring := fc\<rparr>"] fresh by auto
  obtain cp where cp: "rte_mempool_create hdr True 32768 = Some cp" "ring_ok cp" "ring_list cp = [0..<32768]"
    using command_pool_create [OF hdr] by metis
  obtain op where op: "rte_mempool_create hdr True 1 = Some op" "ring_ok op" "ring_list op = [0]"
    using one_pool_create [OF hdr] by metis
  let ?s1 = "s\<lparr>mem := m1\<lparr>command_ring := cr, free_command_pool := cp, free_connections_ring := fr\<rparr>\<rparr>"
  obtain s2 where s2: "fold_opt (init_connection hdr avail 1024 1024) [0..<2048] ?s1 = Some s2"
    "ring_ok (free_connections_ring (mem s2))" "ring_list (free_connections_ring (mem s2)) = [0..<2047]"
    "\<forall>i<2048. conn_fresh i s2" "same_but_connections (mem ?s1) (mem s2)"
    using init_connections_ok [OF hdr avail, of ?s1] fresh by auto
  obtain m3 where m3: "fold_opt (init_selector hdr avail 1024) [0..<64] ((mem s2)\<lparr>selectors_ring := fc\<rparr>) = Some m3"
    "ring_ok (selectors_ring m3)" "ring_list (selectors_ring m3) = [0..<63]"
    "\<forall>i<64. ring_fresh 1023 (ready_connections m3 i)" "same_but_connections (mem s2) m3"
    "free_connections_ring m3 = free_connections_ring (mem s2)" "tx_rings m3 = tx_rings (mem s2)"
    "rx_rings m3 = rx_rings (mem s2)" "g_sockets m3 = g_sockets (mem s2)"
    using init_selectors_ok [OF hdr avail, of "(mem s2)\<lparr>selectors_ring := fc\<rparr>"] fresh
    by (auto simp: same_but_connections_def)
  have run: "ipaugenblick_service_api_init hdr avail (int COMMAND_POOL_SIZE) (int DATA_RINGS_SIZE)
      (int DATA_RINGS_SIZE) s = Some (s2\<lparr>mem := m3\<rparr>)"
    using m1(1) cp(1) op s2(1) m3(1)
    by (simp add: ipaugenblick_service_api_init_def av rte_ring_create_ok [OF hdr] POWEROF2_def
        rte_mempool_get_ok fc_def fr_def cr_def)
  show ?thesis
    unfolding run option.inject
    by (rule exI [of _ "s2\<lparr>mem := m3\<rparr>"])
      (use m1 cp s2 m3 mb fresh in \<open>auto simp: shm_ok_def conn_fresh_def ring_fresh_def same_but_connections_def\<close>)
qed

theorem service_api_init_ok_witness:
  "\<exists>s'. ipaugenblick_service_api_init 256 (\<lambda>_. True) (int COMMAND_POOL_SIZE) (int DATA_RINGS_SIZE)
        (int DATA_RINGS_SIZE) small_srv = Some s' \<and>
    ring_list (free_connections_ring (mem s')) = [0..<2047] \<and> 2047 \<notin> set (ring_list (free_connections_ring (mem s')))"
  using service_api_init_ok [of 256 "\<lambda>_. True" small_srv] by auto

lemma shm_ok_rx_update [simp]:
  assumes "shm_ok m" "ring_ok r" "watermark (prod r) = 1"
  shows "shm_ok (m\<lparr>rx_rings := (rx_rings m)(d := r)\<rparr>)"
  using assms by (simp add: shm_ok_def)



text \<open>
  Readable events coalesce: until the application clears the flag of a connection, further
  events on it change neither the rings nor the flags, they only repeat the signal.
\<close>

theorem mark_readable_coalesces:
  assumes "shm_ok (mem s)" "conn_idx (sd_ringset_idx (socket_satelite_data s d)) = Some i"
    "selector_idx (sd_parent_idx (socket_satelite_data s d)) = Some p"
    "\<not> read_ready_to_app (g_sockets (mem s) i)"
    "length (ring_list (ready_connections (mem s) p)) < ring_cap (ready_connections (mem s) p)"
  shows "\<exists>s1 s2. ipaugenblick_mark_readable d s = Some s1 \<and> ipaugenblick_mark_readable d s1 = Some s2 \<and>
    mem s2 = mem s1 \<and> length (ring_list (ready_connections (mem s2) p)) =
      Suc (length (ring_list (ready_connections (mem s) p)))"
proof -
  obtain s1 where s1: "ipaugenblick_mark_readable d s = Some s1" "same_but_events s s1"
    "ring_list (ready_connections (mem s1) p) =
      ring_list (ready_connections (mem s) p) @ [ready_mask i SOCKET_READABLE_BIT]"
    "read_ready_to_app (g_sockets (mem s1) i)"
    using mark_readable_first [OF assms] by blast
  then have "ipaugenblick_mark_readable d s1 = Some (kick_app d s1)"
    using assms(2,3) by (intro mark_readable_again) (auto simp: same_but_eventsD selector_idx_def split: if_splits)
  then show ?thesis using s1 by auto
qed

theorem mark_readable_coalesces_witness:
  "\<exists>s1 s2. ipaugenblick_mark_readable 3 small_srv = Some s1 \<and> ipaugenblick_mark_readable 3 s1 = Some s2 \<and>
    mem s2 = mem s1 \<and> length (ring_list (ready_connections (mem s2) 2)) = 1"
  using mark_readable_coalesces [of small_srv 3 3 2]
  by (simp add: conn_idx_def selector_idx_def)

text \<open>
  A newly accepted socket is announced without losing its command buffer: the buffer is
  either queued last on the ring of the listening socket or, when that ring is full, returned
  to the pool.
\<close>

theorem post_accepted_keeps_command:
  assumes ok: "shm_ok (mem s)" "d < 2048" "sat_ok (socket_satelite_data s d)"
    and room: "length (ring_list (free_command_pool (mem s))) < ring_cap (free_command_pool (mem s))"
  shows "\<exists>s'. ipaugenblick_post_accepted c d s = Some s' \<and> shm_ok (mem s') \<and>
    (if length (ring_list (rx_rings (mem s) d)) < ring_cap (rx_rings (mem s) d)
     then ring_list (rx_rings (mem s') d) = ring_list (rx_rings (mem s) d) @ [CmdPtr c] \<and>
          free_command_pool (mem s') = free_command_pool (mem s)
     else rx_rings (mem s') = rx_rings (mem s) \<and>
          ring_list (free_command_pool (mem s')) = ring_list (free_command_pool (mem s)) @ [c])"
proof (cases "length (ring_list (rx_rings (mem s) d)) < ring_cap (rx_rings (mem s) d)")
  case True
  let ?s1 = "s\<lparr>mem := (mem s)\<lparr>rx_rings := (rx_rings (mem s))(d := enq_step (rx_rings (mem s) d) [CmdPtr c] 1)\<rparr>\<rparr>"
  note rx = shm_okD(10,12) [OF ok(1,2)]
  obtain s' where "ipaugenblick_mark_readable d ?s1 = Some s'" "shm_ok (mem s')" "same_but_events ?s1 s'"
    using mark_readable_ok [of ?s1 d] ok True rx ring_push [of "rx_rings (mem s) d" "CmdPtr c"] by auto
  then show ?thesis
    using True rx ring_push [of "rx_rings (mem s) d" "CmdPtr c"]
    by (auto simp: ipaugenblick_post_accepted_def rte_ring_enqueue_ok same_but_eventsD)
next
  case False
  then show ?thesis
    using shm_okD(2,10,12) [OF ok(1)] ok room ring_push [of "free_command_pool (mem s)" c]
    by (auto simp: ipaugenblick_post_accepted_def rte_ring_enqueue_ok free_command_buf_ok shm_ok_def)
qed

theorem post_accepted_keeps_command_witness:
  "\<exists>s'. ipaugenblick_post_accepted 2 3 small_srv = Some s' \<and> ring_list (rx_rings (mem s') 3) = [CmdPtr 2]"
  using post_accepted_keeps_command [of small_srv 3 2]
  by (auto simp: sat_ok_def conn_idx_def selector_idx_def)

end
