(* ===== verification/App_Glue.thy ===== *)
theory App_Glue
  imports Ipaug_Server
begin

text \<open>
  \<open>porting/app_glue.c\<close>: the callbacks through which the TCP/IP stack tells the service that a
  socket became readable, writable, acceptable or failed, the four queues of sockets they
  fill, and the calls that create, bind, connect and listen.

  The stack itself (\<open>net/\<close>) is a parameter: the record \<open>kops\<close> has one field per call the
  glue makes into it, a function on the whole state, since the stack may call the glue back
  while it runs. A pointer to a \<open>struct socket\<close> or \<open>struct sock\<close> is a number. The structures
  have the fields the glue reads and writes.
\<close>

section \<open>State\<close>

datatype sock_type = SOCK_STREAM | SOCK_DGRAM | SOCK_RAW

datatype tcp_state = TCP_ESTABLISHED | TCP_LISTEN | TCP_OTHER nat

text \<open>The functions installed in the callback fields of a \<open>struct sock\<close>.\<close>

datatype sk_handler =
    App_glue_sock_readable | App_glue_sock_write_space | App_glue_sock_error_report | App_glue_sock_wakeup
  | Sock_def_readable | Sock_def_write_space | Sk_stream_write_space | Sock_def_error_report | Sock_def_wakeup

record socket_t =
  sock_type :: sock_type
  sock_sk :: "nat option"
  SOCK_NOSPACE :: bool
  read_queue_present :: bool
  write_queue_present :: bool
  accept_queue_present :: bool
  closed_queue_present :: bool
  buffers_available_notification_queue_present :: bool

record sock_t =
  sk_socket :: "nat option"
  sk_state :: tcp_state
  sk_sndbuf :: int
  sk_wmem_queued :: int
  sk_prot_memory_free :: bool
  sk_refcnt :: int
  sk_user_data :: "nat option"
  SOCK_USE_WRITE_QUEUE :: bool
  sk_data_ready :: sk_handler
  sk_write_space :: sk_handler
  sk_state_change :: sk_handler
  sk_error_report :: sk_handler
  sk_daddr :: u32
  sk_dport :: u16
  inet_num :: u16

text \<open>The counters the service prints as statistics.\<close>

datatype stat =
    app_glue_sock_readable_called | app_glue_sock_writable_called | app_glue_periodic_called
  | app_glue_tx_queues_process | app_glue_rx_queues_process | working_cycles_stat | total_cycles_stat
  | user_on_tx_opportunity_called | user_on_tx_opportunity_getbuff_called
  | user_on_tx_opportunity_api_nothing_to_tx | user_on_tx_opportunity_api_failed
  | user_on_tx_opportunity_api_mbufs_sent | user_on_tx_opportunity_socket_full
  | user_on_tx_opportunity_cannot_get_buff | user_on_rx_opportunity_called
  | user_on_rx_opportunity_called_exhausted | user_rx_mbufs | user_kick_tx | user_kick_rx
  | user_rx_ring_full | user_client_app_accepted | user_sockets_closed | user_sockets_shutdown
  | user_flush_tx_cnt | user_flush_rx_cnt

text \<open>
  \<open>kern\<close> is the private state of the stack and \<open>live\<close> says which \<open>struct socket\<close>s are
  allocated. A \<open>TAILQ\<close> is the list of its entries.
\<close>

record 'k glue = srv +
  kern :: 'k
  live :: "nat \<Rightarrow> bool"
  sockets :: "nat \<Rightarrow> socket_t"
  socks :: "nat \<Rightarrow> sock_t"
  read_ready_socket_list :: "nat list"
  write_ready_socket_list :: "nat list"
  accept_ready_socket_list :: "nat list"
  closed_socket_list :: "nat list"
  buffers_available_list :: "nat list"
  read_sockets_queue_len :: u64
  write_sockets_queue_len :: u64
  stats :: "stat \<Rightarrow> u64"
  clients_list :: "nat list"
  client_is_busy :: "nat \<Rightarrow> bool"

abbreviation upd_socket :: "nat \<Rightarrow> (socket_t \<Rightarrow> socket_t) \<Rightarrow> 'k glue \<Rightarrow> 'k glue" where
  "upd_socket a f s \<equiv> s\<lparr>sockets := (sockets s)(a := f (sockets s a))\<rparr>"

abbreviation upd_sk :: "nat \<Rightarrow> (sock_t \<Rightarrow> sock_t) \<Rightarrow> 'k glue \<Rightarrow> 'k glue" where
  "upd_sk a f s \<equiv> s\<lparr>socks := (socks s)(a := f (socks s a))\<rparr>"

definition bump :: "stat \<Rightarrow> u64 \<Rightarrow> 'k glue \<Rightarrow> 'k glue" where
  "bump c n s = s\<lparr>stats := (stats s)(c := stats s c + n)\<rparr>"

text \<open>The calls into the stack. A result \<open>None\<close> ends the process.\<close>

record 'k kops =
  k_sock_create_kern :: "int \<Rightarrow> sock_type \<Rightarrow> 'k glue \<Rightarrow> (nat option \<times> 'k glue) option"
  k_sock_setsockopt :: "nat \<Rightarrow> int \<Rightarrow> int \<Rightarrow> u8 list \<Rightarrow> int \<Rightarrow> 'k glue \<Rightarrow> (int \<times> 'k glue) option"
  k_bind :: "nat \<Rightarrow> sockaddr_in \<Rightarrow> 'k glue \<Rightarrow> (int \<times> 'k glue) option"
  k_connect :: "nat \<Rightarrow> sockaddr_in \<Rightarrow> 'k glue \<Rightarrow> (int \<times> 'k glue) option"
  k_listen :: "nat \<Rightarrow> int \<Rightarrow> 'k glue \<Rightarrow> (int \<times> 'k glue) option"
  k_accept :: "nat \<Rightarrow> 'k glue \<Rightarrow> (nat option \<times> 'k glue) option"
  k_close :: "nat \<Rightarrow> 'k glue \<Rightarrow> (unit \<times> 'k glue) option"
  k_sendpage :: "nat \<Rightarrow> int \<Rightarrow> 'k glue \<Rightarrow> (int \<times> 'k glue) option"
  k_udp_sendmsg :: "nat \<Rightarrow> nat \<Rightarrow> sockaddr_in option \<Rightarrow> u16 \<Rightarrow> 'k glue \<Rightarrow> (int \<times> 'k glue) option"
  k_recvmsg :: "nat \<Rightarrow> 'k glue \<Rightarrow> ((int \<times> nat option \<times> sockaddr_in option) \<times> 'k glue) option"
  k_sk_free :: "nat \<Rightarrow> 'k glue \<Rightarrow> (unit \<times> 'k glue) option"
  k_inet_getname :: "nat \<Rightarrow> 'k glue \<Rightarrow> (sockaddr_in \<times> 'k glue) option"
  k_inet_shutdown :: "nat \<Rightarrow> int \<Rightarrow> 'k glue \<Rightarrow> (int \<times> 'k glue) option"
  k_ip_rt_ioctl :: "bool \<Rightarrow> cmd_union \<Rightarrow> 'k glue \<Rightarrow> (int \<times> 'k glue) option"
  k_dpdk_dev_by_port_num :: "nat \<Rightarrow> bool"
  k_poll :: "nat \<Rightarrow> 'k glue \<Rightarrow> (unit \<times> 'k glue) option"
  k_timer_manage :: "'k glue \<Rightarrow> (unit \<times> 'k glue) option"
  k_inet_lookup_listener :: "'k glue \<Rightarrow> nat \<Rightarrow> nat option"

section \<open>Socket memory and references (net/sock.h)\<close>

definition sk_stream_min_wspace :: "sock_t \<Rightarrow> int" where
  "sk_stream_min_wspace k = sk_wmem_queued k div 2"

definition sk_stream_wspace :: "sock_t \<Rightarrow> int" where
  "sk_stream_wspace k = sk_sndbuf k - sk_wmem_queued k"

definition sk_stream_memory_free :: "sock_t \<Rightarrow> bool" where
  "sk_stream_memory_free k = (if sk_wmem_queued k \<ge> sk_sndbuf k then False else sk_prot_memory_free k)"

definition sk_stream_is_writeable :: "sock_t \<Rightarrow> bool" where
  "sk_stream_is_writeable k = (sk_stream_wspace k \<ge> sk_stream_min_wspace k \<and> sk_stream_memory_free k)"

definition sock_hold :: "nat \<Rightarrow> 'k glue \<Rightarrow> 'k glue" where
  "sock_hold sk s = upd_sk sk (\<lambda>k. k\<lparr>sk_refcnt := sk_refcnt k + 1\<rparr>) s"

definition sock_put :: "'k kops \<Rightarrow> nat \<Rightarrow> 'k glue \<Rightarrow> 'k glue option" where
  "sock_put K sk s =
     (let s1 = upd_sk sk (\<lambda>k. k\<lparr>sk_refcnt := sk_refcnt k - 1\<rparr>) s in
      if sk_refcnt (socks s1 sk) = 0 then do { (_, s2) \<leftarrow> k_sk_free K sk s1; Some s2 } else Some s1)"

section \<open>The queues\<close>

text \<open>
  A socket is in a queue at most once: each queue has a flag in the socket, set together with
  \<open>TAILQ_INSERT_TAIL\<close> and cleared together with \<open>TAILQ_REMOVE\<close>.
\<close>

definition read_queue_put :: "nat \<Rightarrow> 'k glue \<Rightarrow> 'k glue" where
  "read_queue_put so s =
     (upd_socket so (\<lambda>k. k\<lparr>read_queue_present := True\<rparr>) s)\<lparr>read_ready_socket_list := read_ready_socket_list s @ [so]\<rparr>"

definition read_queue_del :: "nat \<Rightarrow> 'k glue \<Rightarrow> 'k glue" where
  "read_queue_del so s =
     (upd_socket so (\<lambda>k. k\<lparr>read_queue_present := False\<rparr>) s)\<lparr>read_ready_socket_list := remove1 so (read_ready_socket_list s)\<rparr>"

definition write_queue_put :: "nat \<Rightarrow> 'k glue \<Rightarrow> 'k glue" where
  "write_queue_put so s =
     (upd_socket so (\<lambda>k. k\<lparr>write_queue_present := True\<rparr>) s)\<lparr>write_ready_socket_list := write_ready_socket_list s @ [so]\<rparr>"

definition write_queue_del :: "nat \<Rightarrow> 'k glue \<Rightarrow> 'k glue" where
  "write_queue_del so s =
     (upd_socket so (\<lambda>k. k\<lparr>write_queue_present := False\<rparr>) s)\<lparr>write_ready_socket_list := remove1 so (write_ready_socket_list s)\<rparr>"

definition accept_queue_put :: "nat \<Rightarrow> 'k glue \<Rightarrow> 'k glue" where
  "accept_queue_put so s =
     (upd_socket so (\<lambda>k. k\<lparr>accept_queue_present := True\<rparr>) s)\<lparr>accept_ready_socket_list := accept_ready_socket_list s @ [so]\<rparr>"

definition accept_queue_del :: "nat \<Rightarrow> 'k glue \<Rightarrow> 'k glue" where
  "accept_queue_del so s =
     (upd_socket so (\<lambda>k. k\<lparr>accept_queue_present := False\<rparr>) s)\<lparr>accept_ready_socket_list := remove1 so (accept_ready_socket_list s)\<rparr>"

definition closed_queue_put :: "nat \<Rightarrow> 'k glue \<Rightarrow> 'k glue" where
  "closed_queue_put so s =
     (upd_socket so (\<lambda>k. k\<lparr>closed_queue_present := True\<rparr>) s)\<lparr>closed_socket_list := closed_socket_list s @ [so]\<rparr>"

definition closed_queue_del :: "nat \<Rightarrow> 'k glue \<Rightarrow> 'k glue" where
  "closed_queue_del so s =
     (upd_socket so (\<lambda>k. k\<lparr>closed_queue_present := False\<rparr>) s)\<lparr>closed_socket_list := remove1 so (closed_socket_list s)\<rparr>"

definition buffers_available_queue_put :: "nat \<Rightarrow> 'k glue \<Rightarrow> 'k glue" where
  "buffers_available_queue_put so s =
     (upd_socket so (\<lambda>k. k\<lparr>buffers_available_notification_queue_present := True\<rparr>) s)\<lparr>buffers_available_list := buffers_available_list s @ [so]\<rparr>"

definition buffers_available_queue_del :: "nat \<Rightarrow> 'k glue \<Rightarrow> 'k glue" where
  "buffers_available_queue_del so s =
     (upd_socket so (\<lambda>k. k\<lparr>buffers_available_notification_queue_present := False\<rparr>) s)\<lparr>buffers_available_list := remove1 so (buffers_available_list s)\<rparr>"

section \<open>Callbacks from the stack\<close>

definition app_glue_sock_readable :: "nat \<Rightarrow> 'k glue \<Rightarrow> 'k glue option" where
  "app_glue_sock_readable sk s =
     (case sk_socket (socks s sk) of
        None \<Rightarrow> Some s
      | Some so \<Rightarrow>
          if sk_state (socks s sk) \<noteq> TCP_ESTABLISHED \<and> sock_type (sockets s so) = SOCK_STREAM then Some s
          else if read_queue_present (sockets s so)
               then (if read_sockets_queue_len s = 0 then None else Some s)
          else (let s1 = read_queue_put so (sock_hold sk (bump app_glue_sock_readable_called 1 s)) in
                Some (s1\<lparr>read_sockets_queue_len := read_sockets_queue_len s1 + 1\<rparr>)))"

definition app_glue_sock_write_space :: "nat \<Rightarrow> 'k glue \<Rightarrow> 'k glue option" where
  "app_glue_sock_write_space sk s =
     (case sk_socket (socks s sk) of
        None \<Rightarrow> Some s
      | Some so \<Rightarrow>
          if sk_state (socks s sk) \<noteq> TCP_ESTABLISHED \<and> sock_type (sockets s so) = SOCK_STREAM then Some s
          else if sk_stream_is_writeable (socks s sk)
               then (let s0 = upd_socket so (\<lambda>k. k\<lparr>SOCK_NOSPACE := False\<rparr>) s in
                     if write_queue_present (sockets s0 so) then Some s0
                     else (let s1 = write_queue_put so (sock_hold sk (bump app_glue_sock_writable_called 1 s0)) in
                           Some (s1\<lparr>write_sockets_queue_len := write_sockets_queue_len s1 + 1\<rparr>)))
               else Some s)"

definition app_glue_sock_error_report :: "nat option \<Rightarrow> 'k glue \<Rightarrow> 'k glue option" where
  "app_glue_sock_error_report osk s =
     (case osk of None \<Rightarrow> Some s
      | Some sk \<Rightarrow>
        (case sk_socket (socks s sk) of None \<Rightarrow> Some s
         | Some so \<Rightarrow>
             if closed_queue_present (sockets s so) then Some s
             else Some (closed_queue_put so (sock_hold sk s))))"

definition install_handlers :: "nat \<Rightarrow> 'k glue \<Rightarrow> 'k glue" where
  "install_handlers sk s =
     upd_sk sk (\<lambda>k. k\<lparr>SOCK_USE_WRITE_QUEUE := False, sk_data_ready := App_glue_sock_readable,
                      sk_write_space := App_glue_sock_write_space,
                      sk_error_report := App_glue_sock_error_report\<rparr>) s"

definition app_glue_sock_wakeup :: "'k kops \<Rightarrow> nat \<Rightarrow> 'k glue \<Rightarrow> 'k glue option" where
  "app_glue_sock_wakeup K sk s =
     do { s1 \<leftarrow> (case k_inet_lookup_listener K s sk of
            Some lsk \<Rightarrow>
              do { lso \<leftarrow> sk_socket (socks s lsk);
                   if accept_queue_present (sockets s lso) then Some (Inl s)
                   else Some (Inr (accept_queue_put lso (sock_hold lsk s))) }
          | None \<Rightarrow> do { s1 \<leftarrow> app_glue_sock_write_space sk s; Some (Inr s1) });
          Some (case s1 of
                  Inl s' \<Rightarrow> s'
                | Inr s' \<Rightarrow> install_handlers sk s') }"

section \<open>Creating, binding, connecting and listening\<close>

abbreviation (input) SOL_SOCKET :: int where "SOL_SOCKET \<equiv> 1"
abbreviation (input) SO_RCVTIMEO :: int where "SO_RCVTIMEO \<equiv> 20"
abbreviation (input) SO_SNDTIMEO :: int where "SO_SNDTIMEO \<equiv> 21"

text \<open>\<open>struct timeval {-1, 0}\<close> in memory.\<close>

definition no_timeout :: "u8 list" where
  "no_timeout = replicate 8 255 @ replicate 8 0"

definition app_glue_create_socket :: "'k kops \<Rightarrow> int \<Rightarrow> sock_type \<Rightarrow> 'k glue \<Rightarrow> (nat option \<times> 'k glue) option" where
  "app_glue_create_socket K family type s =
     do { (r, s1) \<leftarrow> k_sock_create_kern K family type s;
          case r of None \<Rightarrow> Some (None, s1)
          | Some so \<Rightarrow>
            do { (_, s2) \<leftarrow> k_sock_setsockopt K so SOL_SOCKET SO_RCVTIMEO no_timeout 16 s1;
                 (_, s3) \<leftarrow> k_sock_setsockopt K so SOL_SOCKET SO_SNDTIMEO no_timeout 16 s2;
                 s4 \<leftarrow> (if type \<noteq> SOCK_STREAM
                        then (case sock_sk (sockets s3 so) of None \<Rightarrow> Some s3
                              | Some sk \<Rightarrow> app_glue_sock_write_space sk
                                  (upd_sk sk (\<lambda>k. k\<lparr>SOCK_USE_WRITE_QUEUE := False,
                                      sk_data_ready := App_glue_sock_readable,
                                      sk_write_space := App_glue_sock_write_space\<rparr>) s3))
                        else Some s3);
                 Some (Some so, s4) } }"

definition app_glue_v4_bind :: "'k kops \<Rightarrow> nat \<Rightarrow> u32 \<Rightarrow> u16 \<Rightarrow> 'k glue \<Rightarrow> (int \<times> 'k glue) option" where
  "app_glue_v4_bind K so ipaddr port s =
     k_bind K so \<lparr>sin_family = AF_INET, sin_addr = ipaddr, sin_port = port\<rparr> s"

text \<open>
  An unbound socket is first bound to random ports until that succeeds; \<open>ports\<close> are the
  numbers \<open>rand() & 0xffff\<close> gives. Where they run out the loop has not ended: \<open>None\<close>.
\<close>

fun bind_random :: "'k kops \<Rightarrow> u16 list \<Rightarrow> nat \<Rightarrow> nat \<Rightarrow> 'k glue \<Rightarrow> 'k glue option" where
  "bind_random K [] so sk s = (if inet_num (socks s sk) \<noteq> 0 then Some s else None)"
| "bind_random K (p # ps) so sk s =
     (if inet_num (socks s sk) \<noteq> 0 then Some s
      else do { (r, s1) \<leftarrow> k_bind K so \<lparr>sin_family = AF_INET, sin_addr = 0, sin_port = p\<rparr> s;
                if r \<noteq> 0 then bind_random K ps so sk s1 else Some s1 })"

definition app_glue_v4_connect ::
  "'k kops \<Rightarrow> u16 list \<Rightarrow> nat \<Rightarrow> u32 \<Rightarrow> u16 \<Rightarrow> 'k glue \<Rightarrow> (int \<times> 'k glue) option" where
  "app_glue_v4_connect K ports so ipaddr port s =
     (case sock_sk (sockets s so) of None \<Rightarrow> Some (-1, s)
      | Some sk \<Rightarrow>
        do { s1 \<leftarrow> bind_random K ports so sk s;
             let s2 = (case sock_sk (sockets s1 so) of None \<Rightarrow> s1
                       | Some sk' \<Rightarrow> upd_sk sk' (\<lambda>k. k\<lparr>sk_state_change := App_glue_sock_wakeup\<rparr>) s1);
             (_, s3) \<leftarrow> k_connect K so \<lparr>sin_family = AF_INET, sin_addr = ipaddr, sin_port = port\<rparr> s2;
             Some (0, s3) })"

definition app_glue_v4_listen :: "'k kops \<Rightarrow> nat \<Rightarrow> 'k glue \<Rightarrow> (int \<times> 'k glue) option" where
  "app_glue_v4_listen K so s =
     do { sk \<leftarrow> sock_sk (sockets s so);
          (r, s1) \<leftarrow> k_listen K so 32000 (upd_sk sk (\<lambda>k. k\<lparr>sk_state_change := App_glue_sock_wakeup\<rparr>) s);
          Some (if r \<noteq> 0 then -1 else 0, s1) }"

definition app_glue_init :: "'k glue \<Rightarrow> 'k glue" where
  "app_glue_init s =
     s\<lparr>read_ready_socket_list := [], write_ready_socket_list := [], accept_ready_socket_list := [],
       closed_socket_list := []\<rparr>"

section \<open>User data\<close>

text \<open>A socket without \<open>sk\<close>: the code hangs, or dereferences \<open>NULL\<close>.\<close>

definition app_glue_set_user_data :: "nat \<Rightarrow> nat option \<Rightarrow> 'k glue \<Rightarrow> 'k glue option" where
  "app_glue_set_user_data so ud s =
     do { sk \<leftarrow> sock_sk (sockets s so); Some (upd_sk sk (\<lambda>k. k\<lparr>sk_user_data := ud\<rparr>) s) }"

definition app_glue_get_user_data :: "nat \<Rightarrow> 'k glue \<Rightarrow> nat option option" where
  "app_glue_get_user_data so s =
     do { sk \<leftarrow> sock_sk (sockets s so); Some (sk_user_data (socks s sk)) }"

section \<open>Taking sockets from the queues\<close>

text \<open>
  The interface for applications that poll the queues themselves. Unlike the periodic
  processing it neither drops the reference the callback took nor counts the queue down.
\<close>

definition user_data_of :: "nat \<Rightarrow> 'k glue \<Rightarrow> nat option" where
  "user_data_of so s = (case sock_sk (sockets s so) of None \<Rightarrow> None | Some sk \<Rightarrow> sk_user_data (socks s sk))"

text \<open>Without \<open>sk\<close> the first of them returns an uninitialised variable, \<open>junk\<close>.\<close>

definition app_glue_get_next_closed :: "nat option \<Rightarrow> 'k glue \<Rightarrow> nat option \<times> 'k glue" where
  "app_glue_get_next_closed junk s =
     (case closed_socket_list s of [] \<Rightarrow> (None, s)
      | so # _ \<Rightarrow>
        let s1 = closed_queue_del so s in
        (case sock_sk (sockets s1 so) of None \<Rightarrow> (junk, s1) | Some sk \<Rightarrow> (sk_user_data (socks s1 sk), s1)))"

definition app_glue_get_next_writer :: "'k glue \<Rightarrow> nat option \<times> 'k glue" where
  "app_glue_get_next_writer s =
     (case write_ready_socket_list s of [] \<Rightarrow> (None, s)
      | so # _ \<Rightarrow>
        let s1 = write_queue_del so s in
        (user_data_of so s1, s1))"

definition app_glue_get_next_reader :: "'k glue \<Rightarrow> nat option \<times> 'k glue" where
  "app_glue_get_next_reader s =
     (case read_ready_socket_list s of [] \<Rightarrow> (None, s)
      | so # _ \<Rightarrow>
        let s1 = read_queue_del so s in
        (user_data_of so s1, s1))"

definition app_glue_get_next_listener :: "'k glue \<Rightarrow> nat option \<times> 'k glue" where
  "app_glue_get_next_listener s =
     (case accept_ready_socket_list s of [] \<Rightarrow> (None, s)
      | so # _ \<Rightarrow>
        let s1 = accept_queue_del so s in
        (user_data_of so s1, s1))"

section \<open>Closing\<close>

text \<open>
  Connections not yet accepted are accepted and closed one by one; \<open>None\<close> if that never ends.
\<close>

partial_function (option) close_pending :: "'k kops \<Rightarrow> nat \<Rightarrow> 'k glue \<Rightarrow> 'k glue option" where
  "close_pending K so s =
     do { (r, s1) \<leftarrow> k_accept K so s;
          case r of None \<Rightarrow> Some s1
          | Some newsock \<Rightarrow> do { (_, s2) \<leftarrow> k_close K newsock s1; close_pending K so s2 } }"

definition app_glue_close_socket :: "'k kops \<Rightarrow> nat \<Rightarrow> 'k glue \<Rightarrow> 'k glue option" where
  "app_glue_close_socket K so s =
     (let s1 = (if read_queue_present (sockets s so)
                then (read_queue_del so s)\<lparr>read_sockets_queue_len := read_sockets_queue_len s - 1\<rparr> else s);
          s2 = (if write_queue_present (sockets s1 so)
                then (write_queue_del so s1)\<lparr>write_sockets_queue_len := write_sockets_queue_len s1 - 1\<rparr>
                else s1) in
      do { s3 \<leftarrow> (if accept_queue_present (sockets s2 so)
                  then do { s' \<leftarrow> close_pending K so s2; Some (accept_queue_del so s') }
                  else Some s2);
           let s4 = (if closed_queue_present (sockets s3 so) then closed_queue_del so s3 else s3);
           sk \<leftarrow> sock_sk (sockets s4 so);
           let s5 = upd_sk sk (\<lambda>k. k\<lparr>sk_user_data := None,
                      sk_write_space := (if sock_type (sockets s4 so) = SOCK_STREAM
                                         then Sk_stream_write_space else Sock_def_write_space),
                      sk_state_change := Sock_def_wakeup, sk_data_ready := Sock_def_readable,
                      sk_error_report := Sock_def_error_report\<rparr>) s4;
           (_, s6) \<leftarrow> k_close K so s5;
           Some s6 })"

text \<open>
  How much may be sent: the space of the socket, but at most 1024 bytes for each buffer of
  the scarcest kind. The three counts are the free entries of the fclone and header caches and
  of the buffer pool.
\<close>

definition app_glue_calc_size_of_data_to_send ::
  "int \<Rightarrow> int \<Rightarrow> int \<Rightarrow> nat \<Rightarrow> 'k glue \<Rightarrow> int option" where
  "app_glue_calc_size_of_data_to_send n1 n2 n3 so s =
     do { sk \<leftarrow> sock_sk (sockets s so);
          if \<not> sk_stream_is_writeable (socks s sk) then Some 0
          else (let c1 = (if n1 > 2 then n1 - 2 else n1); c2 = (if n2 > 2 then n2 - 2 else n2);
                    m = min (min c1 c2) n3 in
                if m \<le> 0 then Some 0
                else Some (min (m * 1024) (sk_stream_wspace (socks s sk)))) }"

section \<open>Flagged queues\<close>

text \<open>
  The contract the five queues share: \<open>put\<close> appends and sets the flag, \<open>del\<close> removes and
  clears it. As long as \<open>put\<close> is only used where the flag is clear, the flag says exactly which
  sockets are queued and no socket is queued twice.
\<close>

locale flag_queue =
  fixes queue :: "'s \<Rightarrow> nat list" and present :: "'s \<Rightarrow> nat \<Rightarrow> bool"
    and put :: "nat \<Rightarrow> 's \<Rightarrow> 's" and del :: "nat \<Rightarrow> 's \<Rightarrow> 's"
  assumes put_queue: "queue (put a s) = queue s @ [a]" and put_present: "present (put a s) b = (b = a \<or> present s b)"
    and del_queue: "queue (del a s) = remove1 a (queue s)" and del_present: "present (del a s) b = (b \<noteq> a \<and> present s b)"
begin

definition consistent :: "'s \<Rightarrow> bool" where
  "consistent s \<longleftrightarrow> distinct (queue s) \<and> (\<forall>a. a \<in> set (queue s) \<longleftrightarrow> present s a)"

lemma consistent_put: "consistent s \<Longrightarrow> \<not> present s a \<Longrightarrow> consistent (put a s)"
  by (auto simp: consistent_def put_queue put_present)

lemma consistent_del: "consistent s \<Longrightarrow> consistent (del a s)"
  by (auto simp: consistent_def del_queue del_present)

lemma consistent_same: "consistent s \<Longrightarrow> queue s' = queue s \<Longrightarrow> present s' = present s \<Longrightarrow> consistent s'"
  by (simp add: consistent_def)

lemma length_del: "consistent s \<Longrightarrow> present s a \<Longrightarrow> length (queue (del a s)) = length (queue s) - 1"
  by (simp add: consistent_def del_queue length_remove1)

lemma set_del: "consistent s \<Longrightarrow> set (queue (del a s)) = set (queue s) - {a}"
  by (simp add: consistent_def del_queue)

lemma del_first: "queue s = a # q \<Longrightarrow> queue (del a s) = q"
  by (simp add: del_queue)

lemma bounded:
  assumes "consistent s" "\<And>a. present s a \<Longrightarrow> a < n"
  shows "length (queue s) \<le> n"
proof -
  have "set (queue s) \<subseteq> {..<n}" using assms by (auto simp: consistent_def)
  then have "card (set (queue s)) \<le> n" using card_mono [of "{..<n}" "set (queue s)"] by simp
  then show ?thesis using assms(1) by (simp add: consistent_def distinct_card)
qed

end

interpretation rq: flag_queue read_ready_socket_list "\<lambda>s a. read_queue_present (sockets s a)" read_queue_put read_queue_del
  by unfold_locales (auto simp: read_queue_put_def read_queue_del_def)

interpretation wq: flag_queue write_ready_socket_list "\<lambda>s a. write_queue_present (sockets s a)" write_queue_put write_queue_del
  by unfold_locales (auto simp: write_queue_put_def write_queue_del_def)

interpretation aq: flag_queue accept_ready_socket_list "\<lambda>s a. accept_queue_present (sockets s a)" accept_queue_put accept_queue_del
  by unfold_locales (auto simp: accept_queue_put_def accept_queue_del_def)

interpretation cq: flag_queue closed_socket_list "\<lambda>s a. closed_queue_present (sockets s a)" closed_queue_put closed_queue_del
  by unfold_locales (auto simp: closed_queue_put_def closed_queue_del_def)

interpretation bq: flag_queue buffers_available_list
    "\<lambda>s a. buffers_available_notification_queue_present (sockets s a)" buffers_available_queue_put buffers_available_queue_del
  by unfold_locales (auto simp: buffers_available_queue_put_def buffers_available_queue_del_def)

section \<open>The invariant of the glue\<close>

text \<open>
  A \<open>struct socket\<close> is aligned to 64 bytes, so there are fewer than $2^{58}$ of them: \<open>live\<close> numbers
  are below that. \<open>r\<close> and \<open>w\<close> count the sockets a loop has taken from the read and the write
  queue without having counted the queue down yet. Every \<open>struct sock\<close> that points to a socket
  points to an allocated one, which points back.
\<close>

definition glue_inv :: "nat \<Rightarrow> nat \<Rightarrow> 'k glue \<Rightarrow> bool" where
  "glue_inv r w s \<longleftrightarrow>
     rq.consistent s \<and> wq.consistent s \<and> aq.consistent s \<and> cq.consistent s \<and> bq.consistent s \<and>
     set (read_ready_socket_list s) \<union> set (write_ready_socket_list s) \<union> set (accept_ready_socket_list s) \<union>
       set (closed_socket_list s) \<union> set (buffers_available_list s) \<subseteq> {a. live s a} \<and>
     (\<forall>a. live s a \<longrightarrow> a < 2 ^ 58) \<and>
     (\<forall>k a. sk_socket (socks s k) = Some a \<longrightarrow> live s a \<and> sock_sk (sockets s a) = Some k) \<and>
     unat (read_sockets_queue_len s) = length (read_ready_socket_list s) + r \<and>
     unat (write_sockets_queue_len s) = length (write_ready_socket_list s) + w \<and> r \<le> 1 \<and> w \<le> 1"

section \<open>What the elementary steps leave alone\<close>

lemma sock_hold_simps [simp]:
  "sk_socket (socks (sock_hold k s) j) = sk_socket (socks s j)"
  "sk_state (socks (sock_hold k s) j) = sk_state (socks s j)"
  "sk_user_data (socks (sock_hold k s) j) = sk_user_data (socks s j)"
  by (simp_all add: sock_hold_def)

text \<open>The invariant only depends on the queues, their flags and counters, and the allocated sockets.\<close>

definition glue_view :: "'k glue \<Rightarrow> _" where
  "glue_view s = (read_ready_socket_list s, write_ready_socket_list s, accept_ready_socket_list s,
     closed_socket_list s, buffers_available_list s, read_sockets_queue_len s, write_sockets_queue_len s, live s,
     (\<lambda>a. (read_queue_present (sockets s a), write_queue_present (sockets s a), accept_queue_present (sockets s a),
          closed_queue_present (sockets s a), buffers_available_notification_queue_present (sockets s a))),
     (\<lambda>a. sock_sk (sockets s a)), (\<lambda>k. sk_socket (socks s k)))"

lemma glue_inv_view: "glue_view s' = glue_view s \<Longrightarrow> glue_inv r w s' = glue_inv r w s"
  by (simp add: glue_view_def glue_inv_def rq.consistent_def wq.consistent_def aq.consistent_def
      cq.consistent_def bq.consistent_def fun_eq_iff)

lemma glue_view_simps [simp]:
  "glue_view (bump c n s) = glue_view s" "glue_view (sock_hold k s) = glue_view s"
  "glue_view (s\<lparr>mem := m\<rparr>) = glue_view s" "glue_view (s\<lparr>signals := x\<rparr>) = glue_view s"
  "glue_view (s\<lparr>user_kick_select_rx := n\<rparr>) = glue_view s" "glue_view (s\<lparr>user_kick_select_tx := n\<rparr>) = glue_view s"
  "glue_view (s\<lparr>user_pending_accept := n\<rparr>) = glue_view s"
  "glue_view (s\<lparr>socket_satelite_data := d\<rparr>) = glue_view s"
  by (auto simp: glue_view_def bump_def sock_hold_def fun_eq_iff)

lemma glue_inv_simps [simp]:
  "glue_inv r w (bump c n s) = glue_inv r w s" "glue_inv r w (sock_hold k s) = glue_inv r w s"
  by (rule glue_inv_view, simp)+

lemmas glue_inv_defs = glue_inv_def rq.consistent_def wq.consistent_def aq.consistent_def
  cq.consistent_def bq.consistent_def

lemma inv_bounds:
  assumes "glue_inv r w s"
  shows "unat (read_sockets_queue_len s + 1) = length (read_ready_socket_list s) + r + 1"
    "unat (write_sockets_queue_len s + 1) = length (write_ready_socket_list s) + w + 1"
proof -
  have inv: "rq.consistent s" "\<And>a. read_queue_present (sockets s a) \<Longrightarrow> a < 2 ^ 58"
    "wq.consistent s" "\<And>a. write_queue_present (sockets s a) \<Longrightarrow> a < 2 ^ 58"
    using assms unfolding glue_inv_defs by blast+
  have "length (read_ready_socket_list s) \<le> 2 ^ 58" "length (write_ready_socket_list s) \<le> 2 ^ 58"
    using rq.bounded [OF inv(1,2)] wq.bounded [OF inv(3,4)] by blast+
  then show "unat (read_sockets_queue_len s + 1) = length (read_ready_socket_list s) + r + 1"
    "unat (write_sockets_queue_len s + 1) = length (write_ready_socket_list s) + w + 1"
    using assms by (auto simp: glue_inv_def unat_word_ariths)
qed

lemma inv_read_put:
  assumes "glue_inv r w s" "live s a" "\<not> read_queue_present (sockets s a)"
  shows "glue_inv r w ((read_queue_put a s)\<lparr>read_sockets_queue_len := read_sockets_queue_len s + 1\<rparr>)"
  using assms inv_bounds [OF assms(1)] by (auto simp: glue_inv_defs read_queue_put_def)

lemma inv_write_put:
  assumes "glue_inv r w s" "live s a" "\<not> write_queue_present (sockets s a)"
  shows "glue_inv r w ((write_queue_put a s)\<lparr>write_sockets_queue_len := write_sockets_queue_len s + 1\<rparr>)"
  using assms inv_bounds [OF assms(1)] by (auto simp: glue_inv_defs write_queue_put_def)

lemma inv_accept_put:
  "glue_inv r w s \<Longrightarrow> live s a \<Longrightarrow> \<not> accept_queue_present (sockets s a) \<Longrightarrow> glue_inv r w (accept_queue_put a s)"
  by (auto simp: glue_inv_defs accept_queue_put_def)

lemma inv_closed_put:
  "glue_inv r w s \<Longrightarrow> live s a \<Longrightarrow> \<not> closed_queue_present (sockets s a) \<Longrightarrow> glue_inv r w (closed_queue_put a s)"
  by (auto simp: glue_inv_defs closed_queue_put_def)

lemma inv_buffers_put:
  "glue_inv r w s \<Longrightarrow> live s a \<Longrightarrow> \<not> buffers_available_notification_queue_present (sockets s a) \<Longrightarrow>
   glue_inv r w (buffers_available_queue_put a s)"
  by (auto simp: glue_inv_defs buffers_available_queue_put_def)

lemma inv_accept_del: "glue_inv r w s \<Longrightarrow> glue_inv r w (accept_queue_del a s)"
  and inv_closed_del: "glue_inv r w s \<Longrightarrow> glue_inv r w (closed_queue_del a s)"
  and inv_buffers_del: "glue_inv r w s \<Longrightarrow> glue_inv r w (buffers_available_queue_del a s)"
  by (auto simp: glue_inv_defs accept_queue_del_def closed_queue_del_def buffers_available_queue_del_def
      dest: notin_set_remove1)

lemma inv_read_del:
  assumes "glue_inv r w s" "read_queue_present (sockets s a)"
  shows "r = 0 \<Longrightarrow> glue_inv 1 w (read_queue_del a s)"
    and "glue_inv r w ((read_queue_del a s)\<lparr>read_sockets_queue_len := read_sockets_queue_len s - 1\<rparr>)"
proof -
  have pos: "a \<in> set (read_ready_socket_list s)" using assms by (auto simp: glue_inv_defs)
  then obtain n where n: "length (read_ready_socket_list s) = Suc n" by (cases "read_ready_socket_list s") auto
  then have u: "unat (read_sockets_queue_len s) = Suc (n + r)"
    using assms(1) by (simp add: glue_inv_def)
  then have "read_sockets_queue_len s \<noteq> 0" by (intro notI) simp
  then have "unat (read_sockets_queue_len s - 1) = n + r"
    using u by (simp add: unat_minus_one)
  then show "glue_inv r w ((read_queue_del a s)\<lparr>read_sockets_queue_len := read_sockets_queue_len s - 1\<rparr>)"
    "r = 0 \<Longrightarrow> glue_inv 1 w (read_queue_del a s)"
    using assms pos n by (auto simp: glue_inv_defs read_queue_del_def length_remove1 dest: notin_set_remove1)
qed

lemma inv_write_del:
  assumes "glue_inv r w s" "write_queue_present (sockets s a)"
  shows "w = 0 \<Longrightarrow> glue_inv r 1 (write_queue_del a s)"
    and "glue_inv r w ((write_queue_del a s)\<lparr>write_sockets_queue_len := write_sockets_queue_len s - 1\<rparr>)"
proof -
  have pos: "a \<in> set (write_ready_socket_list s)" using assms by (auto simp: glue_inv_defs)
  then obtain n where n: "length (write_ready_socket_list s) = Suc n" by (cases "write_ready_socket_list s") auto
  then have u: "unat (write_sockets_queue_len s) = Suc (n + w)"
    using assms(1) by (simp add: glue_inv_def)
  then have "write_sockets_queue_len s \<noteq> 0" by (intro notI) simp
  then have "unat (write_sockets_queue_len s - 1) = n + w"
    using u by (simp add: unat_minus_one)
  then show "glue_inv r w ((write_queue_del a s)\<lparr>write_sockets_queue_len := write_sockets_queue_len s - 1\<rparr>)"
    "w = 0 \<Longrightarrow> glue_inv r 1 (write_queue_del a s)"
    using assms pos n by (auto simp: glue_inv_defs write_queue_del_def length_remove1 dest: notin_set_remove1)
qed

section \<open>The callbacks keep the invariant\<close>

lemma glue_inv_upd [simp]:
  "glue_view (upd_socket a (\<lambda>k. k\<lparr>SOCK_NOSPACE := b\<rparr>) s) = glue_view s"
  by (auto simp: glue_view_def fun_eq_iff)

lemma live_sk_socket: "glue_inv r w s \<Longrightarrow> sk_socket (socks s k) = Some a \<Longrightarrow> live s a"
  by (auto simp: glue_inv_def)

lemma sock_hold_sel [simp]:
  "live (sock_hold k s) = live s" "sockets (sock_hold k s) = sockets s" "live (bump c n s) = live s"
  "sockets (bump c n s) = sockets s" "socks (bump c n s) = socks s"
  "read_sockets_queue_len (sock_hold k s) = read_sockets_queue_len s"
  "write_sockets_queue_len (sock_hold k s) = write_sockets_queue_len s"
  "read_sockets_queue_len (bump c n s) = read_sockets_queue_len s"
  "write_sockets_queue_len (bump c n s) = write_sockets_queue_len s"
  by (simp_all add: sock_hold_def bump_def)

lemma queue_put_len [simp]:
  "read_sockets_queue_len (read_queue_put a s) = read_sockets_queue_len s"
  "write_sockets_queue_len (write_queue_put a s) = write_sockets_queue_len s"
  by (simp_all add: read_queue_put_def write_queue_put_def)

lemma readable_inv:
  assumes inv: "glue_inv r w s"
  shows "\<exists>s'. app_glue_sock_readable sk s = Some s' \<and> glue_inv r w s'"
proof -
  have pos: "read_sockets_queue_len s \<noteq> 0" if "read_queue_present (sockets s a)" for a
  proof -
    have "read_ready_socket_list s \<noteq> []" using inv that by (force simp: glue_inv_defs)
    then show ?thesis using inv by (auto simp: glue_inv_def)
  qed
  then show ?thesis
    using inv live_sk_socket [OF inv] inv_read_put [of r w "sock_hold sk (bump app_glue_sock_readable_called 1 s)"]
    by (auto simp: app_glue_sock_readable_def Let_def split: option.split)
qed

lemma write_space_inv:
  assumes inv: "glue_inv r w s"
  shows "\<exists>s'. app_glue_sock_write_space sk s = Some s' \<and> glue_inv r w s'"
proof (cases "sk_socket (socks s sk)")
  case (Some so)
  let ?s0 = "upd_socket so (\<lambda>k. k\<lparr>SOCK_NOSPACE := False\<rparr>) s"
  have "glue_inv r w ?s0" using inv glue_inv_view [of ?s0 s r w] by simp
  then show ?thesis
    using inv live_sk_socket [OF inv Some] Some
      inv_write_put [of r w "sock_hold sk (bump app_glue_sock_writable_called 1 ?s0)" so]
    by (auto simp: app_glue_sock_write_space_def Let_def)
qed (use inv in \<open>simp add: app_glue_sock_write_space_def\<close>)

lemma error_report_inv:
  assumes "glue_inv r w s"
  shows "\<exists>s'. app_glue_sock_error_report osk s = Some s' \<and> glue_inv r w s'"
  using assms live_sk_socket [OF assms] inv_closed_put [of r w "sock_hold _ s"]
  by (auto simp: app_glue_sock_error_report_def split: option.split)

lemma wakeup_inv:
  assumes inv: "glue_inv r w s"
    and lookup: "\<And>lsk. k_inet_lookup_listener K s sk = Some lsk \<Longrightarrow> sk_socket (socks s lsk) \<noteq> None"
  shows "\<exists>s'. app_glue_sock_wakeup K sk s = Some s' \<and> glue_inv r w s'"
proof -
  have fin: "glue_inv r w (install_handlers sk s')" if "glue_inv r w s'" for s'
    using that by (subst glue_inv_view [of _ s']) (auto simp: glue_view_def install_handlers_def)
  obtain s1 where s1: "app_glue_sock_write_space sk s = Some s1" "glue_inv r w s1"
    using write_space_inv [OF inv] by blast
  have put: "glue_inv r w (accept_queue_put lso (sock_hold lsk s))"
    if "sk_socket (socks s lsk) = Some lso" "\<not> accept_queue_present (sockets s lso)" for lsk lso
    using that inv live_sk_socket [OF inv] by (intro inv_accept_put) auto
  show ?thesis
    using inv lookup s1 fin put
    by (fastforce simp: app_glue_sock_wakeup_def split: option.split)
qed

end
