(* ===== verification/Stack_Contract.thy ===== *)
theory Stack_Contract
  imports App_Glue
begin

text \<open>
  What the service relies on of the TCP/IP stack. The stack acts on the state of the service
  in two ways: it changes what is its own, and it calls back, through the handlers installed in
  a \<open>struct sock\<close>, through \<open>user_get_buffer\<close> (\<open>user_get_buffer_callback.h\<close>) and through
  \<open>user_transmitted_callback\<close> (\<open>service/ipaugenblick_service_loop.c\<close>). Every call into the stack
  is a finite sequence of such steps; the relation \<open>kstep\<close> has one rule for each kind, and what
  each step keeps is kept by every call.
\<close>

section \<open>Buffers for transmission\<close>

text \<open>
  The loop of \<open>user_get_buffer\<close>: take buffers from the connection's ring and chain them until
  less than a segment (1448 bytes) is missing or the ring is empty.
\<close>

partial_function (option) get_buffer_loop ::
  "nat \<Rightarrow> int \<Rightarrow> nat option \<Rightarrow> nat \<Rightarrow> 'k glue \<Rightarrow> (nat option \<times> int \<times> 'k glue) option" where
  "get_buffer_loop d copy first prev s =
     (if copy \<ge> 1448
      then (case ipaugenblick_dequeue_tx_buf d s of
              (None, s1) \<Rightarrow> Some (first, copy, bump user_on_tx_opportunity_cannot_get_buff 1 s1)
            | (Some b, s1) \<Rightarrow>
                let copy' = copy - uint (data_len (mbufs (mem s1) b));
                    s2 = (case first of None \<Rightarrow> s1
                          | Some _ \<Rightarrow> s1\<lparr>mem := upd_mbuf prev (\<lambda>k. k\<lparr>nxt := Some b\<rparr>) (mem s1)\<rparr>) in
                get_buffer_loop d copy' (case first of None \<Rightarrow> Some b | Some f \<Rightarrow> Some f) b
                  (bump user_on_tx_opportunity_api_mbufs_sent 1 s2))
      else Some (first, copy, s))"

definition user_get_buffer :: "nat \<Rightarrow> int \<Rightarrow> 'k glue \<Rightarrow> (nat option \<times> int \<times> 'k glue) option" where
  "user_get_buffer sk copy s =
     (let s1 = bump user_on_tx_opportunity_getbuff_called 1 s in
      if sk_socket (socks s1 sk) = None then Some (None, copy, s1)
      else if copy < 1448 then Some (None, copy, s1)
      else do { d \<leftarrow> sk_user_data (socks s1 sk); get_buffer_loop d copy None 0 s1 })"

text \<open>A socket without \<open>sk\<close> ends the process.\<close>

definition get_user_data :: "nat \<Rightarrow> 'k glue \<Rightarrow> nat option option" where
  "get_user_data so s = do { sk \<leftarrow> sock_sk (sockets s so); Some (sk_user_data (socks s sk)) }"

definition user_increment_socket_tx_space :: "nat \<Rightarrow> u32 \<Rightarrow> 'k glue \<Rightarrow> 'k glue" where
  "user_increment_socket_tx_space i n s =
     s\<lparr>mem := upd_g_socket i (\<lambda>k. k\<lparr>tx_space := tx_space k + n\<rparr>) (mem s)\<rparr>"

definition user_set_socket_tx_space :: "nat \<Rightarrow> int \<Rightarrow> 'k glue \<Rightarrow> 'k glue" where
  "user_set_socket_tx_space i n s = s\<lparr>mem := upd_g_socket i (\<lambda>k. k\<lparr>tx_space := of_int n\<rparr>) (mem s)\<rparr>"

definition user_transmitted_callback :: "nat \<Rightarrow> nat option \<Rightarrow> 'k glue \<Rightarrow> 'k glue option" where
  "user_transmitted_callback mbuf osock s =
     do { s1 \<leftarrow> (case osock of None \<Rightarrow> Some s
            | Some so \<Rightarrow> do { od \<leftarrow> get_user_data so s;
                case od of None \<Rightarrow> Some s
                | Some d \<Rightarrow> do { i \<leftarrow> conn_idx (sd_ringset_idx (socket_satelite_data s d));
                     Some (user_increment_socket_tx_space i (ucast (data_len (mbufs (mem s) mbuf))) s) } });
          m \<leftarrow> rte_pktmbuf_free_seg mbuf (mem s1);
          Some (s1\<lparr>mem := m\<rparr>) }"

section \<open>Events\<close>

datatype kevent =
    Ev_data_ready nat | Ev_write_space nat | Ev_state_change nat | Ev_error_report nat
  | Ev_get_buffer nat int | Ev_transmitted nat "nat option"

text \<open>The default handlers only wake kernel waiters, of which there are none.\<close>

definition run_handler :: "'k kops \<Rightarrow> sk_handler \<Rightarrow> nat \<Rightarrow> 'k glue \<Rightarrow> 'k glue option" where
  "run_handler K h sk s =
     (case h of App_glue_sock_readable \<Rightarrow> app_glue_sock_readable sk s
      | App_glue_sock_write_space \<Rightarrow> app_glue_sock_write_space sk s
      | App_glue_sock_error_report \<Rightarrow> app_glue_sock_error_report (Some sk) s
      | App_glue_sock_wakeup \<Rightarrow> app_glue_sock_wakeup K sk s
      | _ \<Rightarrow> Some s)"

definition handle_event :: "'k kops \<Rightarrow> kevent \<Rightarrow> 'k glue \<Rightarrow> 'k glue option" where
  "handle_event K e s =
     (case e of Ev_data_ready sk \<Rightarrow> run_handler K (sk_data_ready (socks s sk)) sk s
      | Ev_write_space sk \<Rightarrow> run_handler K (sk_write_space (socks s sk)) sk s
      | Ev_state_change sk \<Rightarrow> run_handler K (sk_state_change (socks s sk)) sk s
      | Ev_error_report sk \<Rightarrow> run_handler K (sk_error_report (socks s sk)) sk s
      | Ev_get_buffer sk copy \<Rightarrow> do { (_, _, s') \<leftarrow> user_get_buffer sk copy s; Some s' }
      | Ev_transmitted mbuf so \<Rightarrow> user_transmitted_callback mbuf so s)"

section \<open>The steps of the stack\<close>

definition queue_flags :: "socket_t \<Rightarrow> bool \<times> bool \<times> bool \<times> bool \<times> bool" where
  "queue_flags k = (read_queue_present k, write_queue_present k, accept_queue_present k,
     closed_queue_present k, buffers_available_notification_queue_present k)"

text \<open>
  The stack's own changes. It may allocate sockets, with all queue flags clear, and it frees
  sockets of \<open>F\<close> only; it does not touch the queues, the flags of other sockets, or the data of
  the service, except for the packet buffers.
\<close>

definition kernel_private :: "nat set \<Rightarrow> 'k glue \<Rightarrow> 'k glue \<Rightarrow> bool" where
  "kernel_private F s s' \<longleftrightarrow>
     read_ready_socket_list s' = read_ready_socket_list s \<and> write_ready_socket_list s' = write_ready_socket_list s \<and>
     accept_ready_socket_list s' = accept_ready_socket_list s \<and> closed_socket_list s' = closed_socket_list s \<and>
     buffers_available_list s' = buffers_available_list s \<and>
     read_sockets_queue_len s' = read_sockets_queue_len s \<and> write_sockets_queue_len s' = write_sockets_queue_len s \<and>
     (\<forall>a. live s a \<and> a \<notin> F \<longrightarrow> live s' a) \<and> (\<forall>a. live s' a \<longrightarrow> live s a \<or> a < 2 ^ 58) \<and>
     (\<forall>a. queue_flags (sockets s' a) = queue_flags (sockets s a) \<or>
          \<not> live s a \<and> live s' a \<and> queue_flags (sockets s' a) = (False, False, False, False, False)) \<and>
     (\<forall>k a. sk_socket (socks s' k) = Some a \<longrightarrow>
        live s' a \<and> sock_sk (sockets s' a) = Some k \<or>
        sk_socket (socks s k) = Some a \<and> (live s a \<longrightarrow> live s' a) \<and> sock_sk (sockets s' a) = sock_sk (sockets s a)) \<and>
     socket_satelite_data s' = socket_satelite_data s \<and>
     (\<exists>mb mp. (ring_ok (mbuf_pool (mem s)) \<longrightarrow> ring_ok mp) \<and> mem s' = (mem s)\<lparr>mbufs := mb, mbuf_pool := mp\<rparr>)"

inductive kstep :: "'k kops \<Rightarrow> 'k glue \<Rightarrow> 'k glue \<Rightarrow> bool" for K where
  own: "kernel_private {} s s' \<Longrightarrow> kstep K s s'"
| event: "handle_event K e s = Some s' \<Longrightarrow> kstep K s s'"

inductive_cases kstepE: "kstep K s s'"

definition unqueued :: "nat \<Rightarrow> 'k glue \<Rightarrow> bool" where
  "unqueued a s \<longleftrightarrow> a \<notin> set (read_ready_socket_list s) \<union> set (write_ready_socket_list s) \<union>
     set (accept_ready_socket_list s) \<union> set (closed_socket_list s) \<union> set (buffers_available_list s)"

text \<open>No handler of the glue is installed for the socket.\<close>

definition quiet :: "nat \<Rightarrow> 'k glue \<Rightarrow> bool" where
  "quiet a s \<longleftrightarrow> (\<forall>k. sk_socket (socks s k) = Some a \<longrightarrow>
     sk_data_ready (socks s k) = Sock_def_readable \<and>
     sk_write_space (socks s k) \<in> {Sk_stream_write_space, Sock_def_write_space} \<and>
     sk_state_change (socks s k) = Sock_def_wakeup \<and> sk_error_report (socks s k) = Sock_def_error_report)"

text \<open>
  The contract: a listener found for a connection has a socket, each call is a sequence of
  steps, and \<open>kernel_close\<close> frees no socket but its own; it does not call back for a socket
  that has no handler of the glue.
\<close>

definition stack_call :: "'k kops \<Rightarrow> ('k glue \<Rightarrow> ('r \<times> 'k glue) option) \<Rightarrow> bool" where
  "stack_call K f \<longleftrightarrow> (\<forall>s r s'. f s = Some (r, s') \<longrightarrow> (kstep K)\<^sup>*\<^sup>* s s')"

definition stack_ok :: "'k kops \<Rightarrow> bool" where
  "stack_ok K \<longleftrightarrow>
     (\<forall>s sk lsk. k_inet_lookup_listener K s sk = Some lsk \<longrightarrow> sk_socket (socks s lsk) \<noteq> None) \<and>
     (\<forall>fam ty. stack_call K (k_sock_create_kern K fam ty)) \<and>
     (\<forall>so l n v len. stack_call K (k_sock_setsockopt K so l n v len)) \<and>
     (\<forall>so a. stack_call K (k_bind K so a)) \<and> (\<forall>so a. stack_call K (k_connect K so a)) \<and>
     (\<forall>so n. stack_call K (k_listen K so n)) \<and> (\<forall>so. stack_call K (k_accept K so)) \<and>
     (\<forall>so n. stack_call K (k_sendpage K so n)) \<and>
     (\<forall>sk b a n. stack_call K (k_udp_sendmsg K sk b a n)) \<and> (\<forall>so. stack_call K (k_recvmsg K so)) \<and>
     (\<forall>sk. stack_call K (k_sk_free K sk)) \<and> (\<forall>so. stack_call K (k_inet_getname K so)) \<and>
     (\<forall>so n. stack_call K (k_inet_shutdown K so n)) \<and> (\<forall>b c. stack_call K (k_ip_rt_ioctl K b c)) \<and>
     (\<forall>p. stack_call K (k_poll K p)) \<and> stack_call K (k_timer_manage K) \<and>
     (\<forall>so s r s'. k_close K so s = Some (r, s') \<longrightarrow>
        (\<exists>s1 s2. (kstep K)\<^sup>*\<^sup>* s s1 \<and> (quiet so s \<and> unqueued so s \<longrightarrow> unqueued so s1) \<and>
                 kernel_private {so} s1 s2 \<and> (kstep K)\<^sup>*\<^sup>* s2 s'))"

section \<open>What every call keeps\<close>

text \<open>
  The part of the state that the stack and most callbacks leave alone: the queues, the command
  ring and the pool of command buffers.
\<close>

definition full_view :: "'k glue \<Rightarrow> _" where
  "full_view s = (glue_view s, command_ring (mem s), free_command_pool (mem s))"

lemma full_viewD: "full_view s' = full_view s \<Longrightarrow> glue_view s' = glue_view s"
  by (simp add: full_view_def)

lemma full_view_simps [simp]:
  "full_view (bump c n s) = full_view s" "full_view (sock_hold k s) = full_view s"
  "command_ring m = command_ring (mem s) \<Longrightarrow> free_command_pool m = free_command_pool (mem s) \<Longrightarrow>
     full_view (s\<lparr>mem := m\<rparr>) = full_view s"
  "full_view (s\<lparr>signals := x\<rparr>) = full_view s"
  "full_view (s\<lparr>user_kick_select_rx := n\<rparr>) = full_view s" "full_view (s\<lparr>user_kick_select_tx := n\<rparr>) = full_view s"
  "full_view (s\<lparr>socket_satelite_data := d\<rparr>) = full_view s"
  by (simp_all add: full_view_def) (simp_all add: bump_def sock_hold_def)

lemma full_view_dequeue_tx [simp]: "full_view (snd (ipaugenblick_dequeue_tx_buf d s)) = full_view s"
  by (auto simp: ipaugenblick_dequeue_tx_buf_def Let_def split: prod.splits)

lemma get_buffer_loop_view:
  assumes "get_buffer_loop d copy first prev s = Some y"
  shows "full_view (snd (snd y)) = full_view s"
  using assms
proof (rule get_buffer_loop.raw_induct [rotated])
  fix loop :: "nat \<Rightarrow> int \<Rightarrow> nat option \<Rightarrow> nat \<Rightarrow> 'a glue \<Rightarrow> (nat option \<times> int \<times> 'a glue) option"
  fix d copy first prev and s :: "'a glue" and y
  assume IH: "\<And>d copy first prev s y. loop d copy first prev s = Some y \<Longrightarrow> full_view (snd (snd y)) = full_view s"
    and eq: "(if copy \<ge> 1448
      then (case ipaugenblick_dequeue_tx_buf d s of
              (None, s1) \<Rightarrow> Some (first, copy, bump user_on_tx_opportunity_cannot_get_buff 1 s1)
            | (Some b, s1) \<Rightarrow>
                let copy' = copy - uint (data_len (mbufs (mem s1) b));
                    s2 = (case first of None \<Rightarrow> s1
                          | Some _ \<Rightarrow> s1\<lparr>mem := upd_mbuf prev (\<lambda>k. k\<lparr>nxt := Some b\<rparr>) (mem s1)\<rparr>) in
                loop d copy' (case first of None \<Rightarrow> Some b | Some f \<Rightarrow> Some f) b
                  (bump user_on_tx_opportunity_api_mbufs_sent 1 s2))
      else Some (first, copy, s)) = Some y"
  obtain ob s1 where deq: "ipaugenblick_dequeue_tx_buf d s = (ob, s1)" by force
  then have "full_view s1 = full_view s" using full_view_dequeue_tx [of d s] by simp
  then show "full_view (snd (snd y)) = full_view s"
    using eq deq by (auto simp: Let_def split: if_splits option.splits dest!: IH)
qed

lemma get_buffer_view: "user_get_buffer sk copy s = Some y \<Longrightarrow> full_view (snd (snd y)) = full_view s"
  by (auto simp: user_get_buffer_def Let_def split: if_splits Option.bind_splits dest!: get_buffer_loop_view)

lemma free_seg_rings:
  "rte_pktmbuf_free_seg b m = Some m' \<Longrightarrow> command_ring m' = command_ring m \<and> free_command_pool m' = free_command_pool m"
  by (auto simp: rte_pktmbuf_free_seg_def rte_pktmbuf_prefree_seg_def Let_def split: bool.splits Option.bind_splits)

lemma transmitted_view: "user_transmitted_callback b so s = Some s' \<Longrightarrow> full_view s' = full_view s"
  by (auto simp: user_transmitted_callback_def user_increment_socket_tx_space_def
      split: option.splits Option.bind_splits dest!: free_seg_rings)

lemma handle_event_inv:
  assumes ok: "stack_ok K" and inv: "glue_inv r w s" and ev: "handle_event K e s = Some s'"
  shows "glue_inv r w s'"
proof -
  have lk: "\<And>sk lsk. k_inet_lookup_listener K s sk = Some lsk \<Longrightarrow> sk_socket (socks s lsk) \<noteq> None"
    using ok by (simp add: stack_ok_def)
  have run: "glue_inv r w s'" if "run_handler K h sk s = Some s'" for h sk
    using that inv readable_inv [OF inv, of sk] write_space_inv [OF inv, of sk]
      error_report_inv [OF inv, of "Some sk"] wakeup_inv [OF inv, of K sk, OF lk]
    by (auto simp: run_handler_def split: sk_handler.splits)
  have view: "glue_inv r w s'" if "glue_view s' = glue_view s"
    using that inv glue_inv_view by blast
  show ?thesis
  proof (cases e)
    case (Ev_get_buffer sk copy)
    then show ?thesis
      using ev view full_viewD [OF get_buffer_view] by (fastforce simp: handle_event_def split: Option.bind_splits)
  next
    case (Ev_transmitted b so)
    then show ?thesis
      using ev by (auto simp: handle_event_def intro: view full_viewD transmitted_view)
  qed (use ev run in \<open>auto simp: handle_event_def\<close>)
qed

lemma kernel_private_inv:
  assumes priv: "kernel_private F s s'" and inv: "glue_inv r w s" and F: "\<And>a. a \<in> F \<Longrightarrow> unqueued a s"
  shows "glue_inv r w s'"
proof -
  have flags: "queue_flags (sockets s' a) = queue_flags (sockets s a)" for a
  proof (cases "live s a")
    case False
    then have "queue_flags (sockets s a) = (False, False, False, False, False)"
      using inv by (auto simp: glue_inv_defs queue_flags_def)
    then show ?thesis using priv unfolding kernel_private_def by metis
  qed (use priv in \<open>auto simp: kernel_private_def\<close>)
  have "live s' a" if "\<not> unqueued a s" for a
    using that inv priv F by (auto simp: kernel_private_def glue_inv_def unqueued_def)
  moreover have "\<forall>k a. sk_socket (socks s' k) = Some a \<longrightarrow> live s' a \<and> sock_sk (sockets s' a) = Some k"
    using priv inv unfolding kernel_private_def glue_inv_def by metis
  moreover have "\<forall>a. live s' a \<longrightarrow> a < 2 ^ 58"
    using priv inv unfolding kernel_private_def glue_inv_def by metis
  ultimately show ?thesis
    using inv priv flags unfolding glue_inv_defs kernel_private_def queue_flags_def unqueued_def
    by auto
qed

lemma kernel_private_refl [simp]: "kernel_private F s s"
  by (auto simp: kernel_private_def intro!: exI [of _ "mbufs (mem s)"] exI [of _ "mbuf_pool (mem s)"])

lemma kstep_inv: "stack_ok K \<Longrightarrow> kstep K s s' \<Longrightarrow> glue_inv r w s \<Longrightarrow> glue_inv r w s'"
  by (auto elim!: kstepE intro: kernel_private_inv handle_event_inv)

lemma ksteps_inv:
  assumes "(kstep K)\<^sup>*\<^sup>* s s'" "stack_ok K" "glue_inv r w s"
  shows "glue_inv r w s'"
  using assms by (induction rule: rtranclp_induct) (auto intro: kstep_inv)

lemma stack_okD:
  assumes "stack_ok K"
  shows "stack_call K (k_sock_create_kern K fam ty)" "stack_call K (k_sock_setsockopt K so l n v len)"
    "stack_call K (k_bind K so ad)" "stack_call K (k_connect K so ad)" "stack_call K (k_listen K so i)"
    "stack_call K (k_accept K so)" "stack_call K (k_sendpage K so i)" "stack_call K (k_udp_sendmsg K sk b oa dl)"
    "stack_call K (k_recvmsg K so)" "stack_call K (k_sk_free K sk)" "stack_call K (k_inet_getname K so)"
    "stack_call K (k_inet_shutdown K so i)" "stack_call K (k_ip_rt_ioctl K f c)" "stack_call K (k_poll K p)"
    "stack_call K (k_timer_manage K)"
  using assms by (simp_all add: stack_ok_def)

section \<open>Properties the stack and the callbacks keep\<close>

text \<open>
  A property of the queues and of the command buffers that no step of the stack breaks.
  A computation keeps it when the state of every result, found by \<open>g\<close>, has it.
\<close>

locale glue_property =
  fixes I :: "'k glue \<Rightarrow> bool"
  assumes I_view: "full_view s' = full_view s \<Longrightarrow> I s' = I s"
    and I_kstep: "stack_ok K \<Longrightarrow> kstep K s s' \<Longrightarrow> I s \<Longrightarrow> I s'"
begin

definition keeps :: "('y \<Rightarrow> 'k glue) \<Rightarrow> 'y option \<Rightarrow> bool" where
  "keeps g m \<longleftrightarrow> (\<forall>y. m = Some y \<longrightarrow> I (g y))"

lemma keeps_simps [simp]: "keeps g None" "keeps g (Some y) = I (g y)"
  by (simp_all add: keeps_def)

lemma keepsD: "keeps g m \<Longrightarrow> m = Some y \<Longrightarrow> I (g y)"
  by (simp add: keeps_def)

lemma keeps_bind:
  assumes "keeps g m" "\<And>y. I (g y) \<Longrightarrow> keeps h (f y)"
  shows "keeps h (Option.bind m f)"
  using assms by (auto simp: keeps_def split: Option.bind_splits)

lemma keeps_pure_bind:
  assumes "\<And>y. m = Some y \<Longrightarrow> keeps h (f y)"
  shows "keeps h (Option.bind m f)"
  using assms by (auto simp: keeps_def split: Option.bind_splits)

lemma keeps_view: "I s \<Longrightarrow> (\<And>y. m = Some y \<Longrightarrow> full_view (g y) = full_view s) \<Longrightarrow> keeps g m"
  unfolding keeps_def using I_view by blast

lemma ksteps_keep: "(kstep K)\<^sup>*\<^sup>* s s' \<Longrightarrow> stack_ok K \<Longrightarrow> I s \<Longrightarrow> I s'"
  by (induction rule: rtranclp_induct) (auto intro: I_kstep)

lemma stack_keeps: "stack_call K f \<Longrightarrow> stack_ok K \<Longrightarrow> I s \<Longrightarrow> keeps snd (f s)"
  by (auto simp: keeps_def stack_call_def intro: ksteps_keep)

lemmas stack_ops_keep = stack_okD [THEN stack_keeps]

lemma I_simps [simp]:
  "I (bump c n s) = I s" "I (sock_hold k s) = I s"
  "command_ring m = command_ring (mem s) \<Longrightarrow> free_command_pool m = free_command_pool (mem s) \<Longrightarrow>
     I (s\<lparr>mem := m\<rparr>) = I s"
  by (rule I_view, simp)+

end

text \<open>A property of the queues alone.\<close>

locale queue_property = glue_property I for I :: "'k glue \<Rightarrow> bool" +
  assumes I_queues: "glue_view s' = glue_view s \<Longrightarrow> I s' = I s"

lemma queue_propertyI:
  assumes "\<And>s s'. glue_view s' = glue_view s \<Longrightarrow> I s' = I s"
    "\<And>K s s'. stack_ok K \<Longrightarrow> kstep K s s' \<Longrightarrow> I s \<Longrightarrow> I s'"
  shows "queue_property I"
proof
  fix s s' :: "'a glue"
  show "full_view s' = full_view s \<Longrightarrow> I s' = I s" by (rule assms(1)) (rule full_viewD)
qed (fact assms)+

interpretation inv: queue_property "glue_inv r w"
proof (rule queue_propertyI)
  fix s s' :: "'a glue"
  show "glue_view s' = glue_view s \<Longrightarrow> glue_inv r w s' = glue_inv r w s" by (rule glue_inv_view)
  fix K :: "'a kops"
  show "stack_ok K \<Longrightarrow> kstep K s s' \<Longrightarrow> glue_inv r w s \<Longrightarrow> glue_inv r w s'" by (rule kstep_inv)
qed

text \<open>Between two removals the queues only grow at the end.\<close>

definition queues_extend :: "nat list \<Rightarrow> nat list \<Rightarrow> nat list \<Rightarrow> nat list \<Rightarrow> 'k glue \<Rightarrow> bool" where
  "queues_extend qr qw qa qc s \<longleftrightarrow>
     (\<exists>x. read_ready_socket_list s = qr @ x) \<and> (\<exists>x. write_ready_socket_list s = qw @ x) \<and>
     (\<exists>x. accept_ready_socket_list s = qa @ x) \<and> (\<exists>x. closed_socket_list s = qc @ x)"

lemma queues_extend_view: "glue_view s' = glue_view s \<Longrightarrow> queues_extend qr qw qa qc s' = queues_extend qr qw qa qc s"
  by (simp add: glue_view_def queues_extend_def)

lemma run_handler_extends:
  assumes "queues_extend qr qw qa qc s" "run_handler K h sk s = Some s'"
  shows "queues_extend qr qw qa qc s'"
proof -
  have "queues_extend qr qw qa qc s'" if "app_glue_sock_write_space sk s = Some s'" for s'
    using that assms(1)
    by (auto simp: app_glue_sock_write_space_def queues_extend_def Let_def write_queue_put_def sock_hold_def bump_def
        split: option.splits if_splits)
  then show ?thesis
    using assms
    by (auto simp: run_handler_def app_glue_sock_readable_def app_glue_sock_error_report_def
        app_glue_sock_wakeup_def queues_extend_def Let_def read_queue_put_def closed_queue_put_def
        accept_queue_put_def sock_hold_def bump_def install_handlers_def
        split: option.splits if_splits sk_handler.splits Option.bind_splits sum.splits)
qed

lemma kstep_extends:
  assumes "queues_extend qr qw qa qc s" "kstep K s s'"
  shows "queues_extend qr qw qa qc s'"
proof -
  have view: "queues_extend qr qw qa qc t" if "glue_view t = glue_view s" for t
    using that assms(1) queues_extend_view by blast
  show ?thesis
    using assms(2)
  proof cases
    case own
    then show ?thesis using assms(1) by (auto simp: kernel_private_def queues_extend_def)
  next
    case (event e)
    then show ?thesis
    proof (cases e)
      case (Ev_get_buffer sk copy)
      then show ?thesis
        using event view full_viewD [OF get_buffer_view]
        by (fastforce simp: handle_event_def split: Option.bind_splits)
    next
      case (Ev_transmitted b so)
      then show ?thesis
        using event by (auto simp: handle_event_def intro: view full_viewD transmitted_view)
    qed (use event run_handler_extends [OF assms(1)] in \<open>auto simp: handle_event_def\<close>)
  qed
qed

interpretation ext: queue_property "queues_extend qr qw qa qc"
proof (rule queue_propertyI)
  fix s s' :: "'a glue"
  show "glue_view s' = glue_view s \<Longrightarrow> queues_extend qr qw qa qc s' = queues_extend qr qw qa qc s"
    by (rule queues_extend_view)
  fix K :: "'a kops"
  show "kstep K s s' \<Longrightarrow> queues_extend qr qw qa qc s \<Longrightarrow> queues_extend qr qw qa qc s'" by (rule kstep_extends)
qed

text \<open>The stack does not touch the command buffers.\<close>

lemma run_handler_mem: "run_handler K h sk s = Some s' \<Longrightarrow> mem s' = mem s"
  by (auto simp: run_handler_def app_glue_sock_readable_def app_glue_sock_error_report_def
      app_glue_sock_write_space_def app_glue_sock_wakeup_def Let_def read_queue_put_def closed_queue_put_def
      accept_queue_put_def write_queue_put_def sock_hold_def bump_def install_handlers_def
      split: option.splits if_splits sk_handler.splits Option.bind_splits sum.splits)

lemma kstep_commands:
  assumes "kstep K s s'"
  shows "command_ring (mem s') = command_ring (mem s) \<and> free_command_pool (mem s') = free_command_pool (mem s)"
  using assms
proof cases
  case own
  then show ?thesis by (auto simp: kernel_private_def)
next
  case (event e)
  then show ?thesis
    by (cases e) (auto simp: handle_event_def full_view_def split: Option.bind_splits
        dest!: run_handler_mem get_buffer_view transmitted_view)
qed

interpretation cmds: glue_property "\<lambda>s. command_ring (mem s) = cr \<and> free_command_pool (mem s) = fp"
  by unfold_locales (auto simp: full_view_def dest: kstep_commands)

lemma close_inv:
  assumes ok: "stack_ok K" and inv: "glue_inv r w s" and c: "k_close K so s = Some (x, s')"
    and q: "quiet so s" "unqueued so s"
  shows "glue_inv r w s'"
proof -
  obtain s1 s2 where "(kstep K)\<^sup>*\<^sup>* s s1" "unqueued so s1" "kernel_private {so} s1 s2" "(kstep K)\<^sup>*\<^sup>* s2 s'"
    using ok c q unfolding stack_ok_def by meson
  then show ?thesis
    using ksteps_inv [OF _ ok] kernel_private_inv [of "{so}" s1 s2] inv by blast
qed

section \<open>Closing a socket\<close>

definition reset_handlers :: "nat \<Rightarrow> bool \<Rightarrow> 'k glue \<Rightarrow> 'k glue" where
  "reset_handlers sk stream s = upd_sk sk (\<lambda>k. k\<lparr>sk_user_data := None,
     sk_write_space := (if stream then Sk_stream_write_space else Sock_def_write_space),
     sk_state_change := Sock_def_wakeup, sk_data_ready := Sock_def_readable,
     sk_error_report := Sock_def_error_report\<rparr>) s"

lemma reset_handlers_view [simp]: "glue_view (reset_handlers sk b s) = glue_view s"
  by (auto simp: glue_view_def reset_handlers_def)

lemma reset_handlers_quiet: "glue_inv r w s \<Longrightarrow> sock_sk (sockets s a) = Some sk \<Longrightarrow> quiet a (reset_handlers sk b s)"
  by (auto simp: glue_inv_def quiet_def reset_handlers_def split: if_splits)

text \<open>Taking the socket from the queues that its close removes it from.\<close>

definition close_dequeue :: "nat \<Rightarrow> 'k glue \<Rightarrow> 'k glue" where
  "close_dequeue so s =
     (let s1 = (if read_queue_present (sockets s so)
                then (read_queue_del so s)\<lparr>read_sockets_queue_len := read_sockets_queue_len s - 1\<rparr> else s);
          s2 = (if write_queue_present (sockets s1 so)
                then (write_queue_del so s1)\<lparr>write_sockets_queue_len := write_sockets_queue_len s1 - 1\<rparr>
                else s1) in
      if closed_queue_present (sockets s2 so) then closed_queue_del so s2 else s2)"

lemma close_dequeue_inv:
  assumes "glue_inv r w s"
  shows "glue_inv r w (close_dequeue so s)"
proof -
  define s1 where "s1 = (if read_queue_present (sockets s so)
    then (read_queue_del so s)\<lparr>read_sockets_queue_len := read_sockets_queue_len s - 1\<rparr> else s)"
  define s2 where "s2 = (if write_queue_present (sockets s1 so)
    then (write_queue_del so s1)\<lparr>write_sockets_queue_len := write_sockets_queue_len s1 - 1\<rparr> else s1)"
  have "glue_inv r w s1" using inv_read_del(2) [OF assms] assms by (simp add: s1_def)
  then have "glue_inv r w s2" using inv_write_del(2) [of r w s1 so] by (simp add: s2_def)
  then show ?thesis
    using inv_closed_del [of r w s2 so] by (simp add: close_dequeue_def Let_def flip: s1_def s2_def)
qed

lemma close_dequeue_unqueued:
  assumes "glue_inv r w s" "\<not> accept_queue_present (sockets s so)"
    "\<not> buffers_available_notification_queue_present (sockets s so)"
  shows "unqueued so (close_dequeue so s)"
  using assms by (auto simp: glue_inv_defs unqueued_def close_dequeue_def Let_def read_queue_del_def
      write_queue_del_def closed_queue_del_def)

lemma close_socket_eq:
  assumes "\<not> accept_queue_present (sockets s so)"
  shows "app_glue_close_socket K so s =
    (let s4 = close_dequeue so s in
     do { sk \<leftarrow> sock_sk (sockets s4 so);
          (_, s6) \<leftarrow> k_close K so (reset_handlers sk (sock_type (sockets s4 so) = SOCK_STREAM) s4);
          Some s6 })"
  using assms
  by (simp add: app_glue_close_socket_def close_dequeue_def Let_def reset_handlers_def
      read_queue_del_def write_queue_del_def)

lemma close_socket_inv:
  assumes ok: "stack_ok K" and inv: "glue_inv r w s"
    and q: "\<not> accept_queue_present (sockets s so)" "\<not> buffers_available_notification_queue_present (sockets s so)"
    and run: "app_glue_close_socket K so s = Some s'"
  shows "glue_inv r w s'"
proof -
  let ?s4 = "close_dequeue so s"
  obtain sk where sk: "sock_sk (sockets ?s4 so) = Some sk"
    and c: "k_close K so (reset_handlers sk (sock_type (sockets ?s4 so) = SOCK_STREAM) ?s4) = Some ((), s')"
    using run close_socket_eq [OF q(1), of K] by (auto simp: Let_def split: Option.bind_splits)
  have inv4: "glue_inv r w ?s4" using close_dequeue_inv [OF inv] .
  then have "glue_inv r w (reset_handlers sk (sock_type (sockets ?s4 so) = SOCK_STREAM) ?s4)"
    by (subst glue_inv_view [of _ ?s4]) simp_all
  moreover have "unqueued so (reset_handlers sk (sock_type (sockets ?s4 so) = SOCK_STREAM) ?s4)"
    using close_dequeue_unqueued [OF inv q] by (simp add: unqueued_def reset_handlers_def)
  ultimately show ?thesis
    using close_inv [OF ok _ c reset_handlers_quiet [OF inv4 sk]] by blast
qed

section \<open>A stack with nothing to do\<close>

text \<open>
  No connections, no data: every call returns at once, and closing a socket frees it. This stack
  fulfils the contract.
\<close>

definition orphan :: "nat \<Rightarrow> 'k glue \<Rightarrow> 'k glue" where
  "orphan so s = s\<lparr>live := (live s)(so := False),
     socks := (\<lambda>k. if sk_socket (socks s k) = Some so then (socks s k)\<lparr>sk_socket := None\<rparr> else socks s k)\<rparr>"

definition idle_stack :: "'k kops" where
  "idle_stack =
     \<lparr>k_sock_create_kern = (\<lambda>_ _ s. Some (None, s)), k_sock_setsockopt = (\<lambda>_ _ _ _ _ s. Some (0, s)),
      k_bind = (\<lambda>_ _ s. Some (0, s)), k_connect = (\<lambda>_ _ s. Some (0, s)), k_listen = (\<lambda>_ _ s. Some (0, s)),
      k_accept = (\<lambda>_ s. Some (None, s)), k_close = (\<lambda>so s. Some ((), orphan so s)), k_sendpage = (\<lambda>_ _ s. Some (0, s)),
      k_udp_sendmsg = (\<lambda>_ _ _ _ s. Some (0, s)), k_recvmsg = (\<lambda>_ s. Some ((0, None, None), s)),
      k_sk_free = (\<lambda>_ s. Some ((), s)),
      k_inet_getname = (\<lambda>_ s. Some (\<lparr>sin_family = 2, sin_addr = 0, sin_port = 0\<rparr>, s)),
      k_inet_shutdown = (\<lambda>_ _ s. Some (0, s)), k_ip_rt_ioctl = (\<lambda>_ _ s. Some (0, s)),
      k_dpdk_dev_by_port_num = (\<lambda>_. True), k_poll = (\<lambda>_ s. Some ((), s)), k_timer_manage = (\<lambda>s. Some ((), s)),
      k_inet_lookup_listener = (\<lambda>_ _. None)\<rparr>"

lemma orphan_private: "kernel_private {so} s (orphan so s)"
  by (auto simp: kernel_private_def orphan_def
      intro!: exI [of _ "mbufs (mem s)"] exI [of _ "mbuf_pool (mem s)"] split: if_splits)

lemma idle_stack_ok [simp]: "stack_ok idle_stack"
proof -
  have "\<exists>s1 s2. (kstep idle_stack)\<^sup>*\<^sup>* s s1 \<and> (quiet so s \<and> unqueued so s \<longrightarrow> unqueued so s1) \<and>
      kernel_private {so} s1 s2 \<and> (kstep idle_stack)\<^sup>*\<^sup>* s2 (orphan so s)" for so and s :: "'a glue"
    by (rule exI [of _ s], rule exI [of _ "orphan so s"]) (simp add: orphan_private)
  then show ?thesis
    by (simp add: stack_ok_def stack_call_def) (simp add: idle_stack_def)
qed

text \<open>Socket 30, of connection 3, is established and waits in the write queue.\<close>

definition small_glue :: "unit glue" where
  "small_glue = srv.extend small_srv (glue.fields () (\<lambda>a. a = 30)
     (\<lambda>a. \<lparr>sock_type = SOCK_STREAM, sock_sk = (if a = 30 then Some 300 else None), SOCK_NOSPACE = False,
          read_queue_present = False, write_queue_present = (a = 30), accept_queue_present = False,
          closed_queue_present = False, buffers_available_notification_queue_present = False\<rparr>)
     (\<lambda>k. \<lparr>sk_socket = (if k = 300 then Some 30 else None), sk_state = TCP_ESTABLISHED, sk_sndbuf = 4096,
          sk_wmem_queued = 0, sk_prot_memory_free = True, sk_refcnt = 2,
          sk_user_data = (if k = 300 then Some 3 else None), SOCK_USE_WRITE_QUEUE = False,
          sk_data_ready = App_glue_sock_readable, sk_write_space = App_glue_sock_write_space,
          sk_state_change = App_glue_sock_wakeup, sk_error_report = App_glue_sock_error_report,
          sk_daddr = 0, sk_dport = 0, inet_num = 80\<rparr>)
     [] [30] [] [] [] 0 1 (\<lambda>_. 0) [] (\<lambda>_. False))"

lemma small_glue_sel [simp]:
  "mem small_glue = small_shm" "socket_satelite_data small_glue = socket_satelite_data small_srv"
  "live small_glue a = (a = 30)" "write_ready_socket_list small_glue = [30]" "read_ready_socket_list small_glue = []"
  "read_sockets_queue_len small_glue = 0" "write_sockets_queue_len small_glue = 1"
  "closed_socket_list small_glue = []" "accept_ready_socket_list small_glue = []" "buffers_available_list small_glue = []"
  "sk_socket (socks small_glue 300) = Some 30" "sk_state (socks small_glue 300) = TCP_ESTABLISHED"
  "sk_user_data (socks small_glue 300) = Some 3" "sock_sk (sockets small_glue 30) = Some 300"
  by (simp_all add: small_glue_def srv.defs glue.defs small_srv_def)

lemma small_glue_inv [simp]: "glue_inv 0 0 small_glue"
  by (auto simp: glue_inv_defs small_glue_def srv.defs glue.defs small_srv_def)

end
