(* ===== verification/User_Callbacks.thy ===== *)
theory User_Callbacks
  imports Stack_Contract
begin

text \<open>
  \<open>user_callbacks.h\<close>: what the service does when a socket can be written, has data, has
  failed or has connections to accept. Data moves between the stack and the rings of the
  connection here.
\<close>

section \<open>Transmission\<close>

text \<open>Send pages while the socket has space.\<close>

partial_function (option) sendpage_loop :: "'k kops \<Rightarrow> nat \<Rightarrow> nat \<Rightarrow> 'k glue \<Rightarrow> 'k glue option" where
  "sendpage_loop K so sk s =
     (if sk_stream_wspace (socks s sk) > 0
      then do { (i, s1) \<leftarrow> k_sendpage K so (sk_stream_wspace (socks s sk)) s;
                if i \<le> 0 then Some s1 else sendpage_loop K so sk s1 }
      else Some s)"

definition free_mbuf :: "nat \<Rightarrow> 'k glue \<Rightarrow> 'k glue option" where
  "free_mbuf b s = do { m \<leftarrow> rte_pktmbuf_free (Some b) (mem s); Some (s\<lparr>mem := m\<rparr>) }"

text \<open>
  Send datagrams until one fails; then free that one and the rest. \<open>with_name\<close> says that the
  destination is taken from the bytes before the data of each buffer.
\<close>

fun udp_send_bufs :: "'k kops \<Rightarrow> nat \<Rightarrow> bool \<Rightarrow> nat list \<Rightarrow> 'k glue \<Rightarrow> (bool \<times> 'k glue) option" where
  "udp_send_bufs K sk with_name [] s = Some (False, s)"
| "udp_send_bufs K sk with_name (b # bs) s =
     (let mb = mbufs (mem s) b in
      do { name \<leftarrow> (if with_name then map_option Some (headroom mb (data_off mb)) else Some None);
           (rc, s1) \<leftarrow> k_udp_sendmsg K sk b name (data_len mb) s;
           if rc > 0 then udp_send_bufs K sk with_name bs s1
           else do { s2 \<leftarrow> fold_opt free_mbuf (b # bs)
                            (bump user_on_tx_opportunity_api_failed (of_nat (length (b # bs))) s1);
                     Some (True, s2) } })"

partial_function (option) udp_tx_loop :: "'k kops \<Rightarrow> nat \<Rightarrow> nat \<Rightarrow> 'k glue \<Rightarrow> (bool \<times> 'k glue) option" where
  "udp_tx_loop K sk d s =
     do { (ring_entries, s1) \<leftarrow> ipaugenblick_tx_buf_count d s;
          if ring_entries > 0
          then (let with_name = (sk_state (socks s1 sk) \<noteq> TCP_ESTABLISHED) in
                case ipaugenblick_dequeue_tx_buf_burst d ring_entries s1 of (bufs, s2) \<Rightarrow>
                do { (exhausted, s3) \<leftarrow> udp_send_bufs K sk with_name bufs s2;
                     if bufs \<noteq> [] \<and> \<not> exhausted then udp_tx_loop K sk d s3 else Some (exhausted, s3) })
          else Some (False, bump user_on_tx_opportunity_api_nothing_to_tx 1 s1) }"

definition user_on_transmission_opportunity :: "'k kops \<Rightarrow> nat option \<Rightarrow> 'k glue \<Rightarrow> 'k glue option" where
  "user_on_transmission_opportunity K osock s0 =
     (let s = bump user_on_tx_opportunity_called 1 s0 in
      case osock of None \<Rightarrow> Some s
      | Some so \<Rightarrow>
        do { od \<leftarrow> get_user_data so s;
             case od of None \<Rightarrow> Some s
             | Some d \<Rightarrow>
               do { sk \<leftarrow> sock_sk (sockets s so);
                    if sk_state (socks s sk) = TCP_LISTEN then None
                    else if sock_type (sockets s so) = SOCK_STREAM
                    then do { (ring_entries, s1) \<leftarrow> ipaugenblick_tx_buf_count d s;
                              if ring_entries = 0
                              then do { (_, s2) \<leftarrow> ipaugenblick_mark_writable 0 d s1;
                                        Some (bump user_on_tx_opportunity_api_nothing_to_tx 1 s2) }
                              else do { s2 \<leftarrow> sendpage_loop K so sk s1;
                                        let s3 = bump user_on_tx_opportunity_socket_full
                                          (if sk_stream_wspace (socks s2 sk) = 0 then 1 else 0) s2;
                                        (_, s4) \<leftarrow> ipaugenblick_tx_buf_count d s3;
                                        (_, s5) \<leftarrow> ipaugenblick_mark_writable 0 d s4;
                                        Some s5 } }
                    else do { (exhausted, s1) \<leftarrow> udp_tx_loop K sk d s;
                              if \<not> exhausted
                              then do { (_, s2) \<leftarrow> ipaugenblick_mark_writable 0 d s1; Some s2 }
                              else Some s1 } } })"

section \<open>Reception\<close>

text \<open>
  Receive while the ring of the connection has room. The result says whether the socket was
  exhausted and how much room is left.
\<close>

fun rx_loop :: "'k kops \<Rightarrow> nat \<Rightarrow> nat \<Rightarrow> nat \<Rightarrow> 'k glue \<Rightarrow> (bool \<times> nat \<times> 'k glue) option" where
  "rx_loop K so d 0 s = Some (False, 0, s)"
| "rx_loop K so d (Suc room) s =
     do { ((rc, ohead, name), s1) \<leftarrow> k_recvmsg K so s;
          if rc \<le> 0 then Some (True, Suc room, s1)
          else do { head \<leftarrow> ohead;
            let s2 = (if sock_type (sockets s1 so) \<noteq> SOCK_STREAM
                      then s1\<lparr>mem := upd_mbuf head
                             (\<lambda>b. b\<lparr>headroom := (headroom b)(data_off b :=
                                      (case name of None \<Rightarrow> headroom b (data_off b) | Some a \<Rightarrow> Some a))\<rparr>) (mem s1)\<rparr>
                      else s1);
            let segs = nb_segs (mbufs (mem s2) head);
            (full, s3) \<leftarrow> ipaugenblick_submit_rx_buf head d s2;
            if full then do { s4 \<leftarrow> free_mbuf head s3; Some (False, room, s4) }
            else rx_loop K so d room (bump user_rx_mbufs (ucast segs) s3) } }"

definition user_data_available_cbk :: "'k kops \<Rightarrow> nat option \<Rightarrow> 'k glue \<Rightarrow> 'k glue option" where
  "user_data_available_cbk K osock s0 =
     (let s = bump user_on_rx_opportunity_called 1 s0 in
      case osock of None \<Rightarrow> Some s
      | Some so \<Rightarrow>
        do { od \<leftarrow> get_user_data so s;
             case od of None \<Rightarrow> Some s
             | Some d \<Rightarrow>
               do { sk \<leftarrow> sock_sk (sockets s so);
                    if sk_state (socks s sk) = TCP_LISTEN then None
                    else do { let room = ipaugenblick_rx_buf_free_count d s;
                              let s1 = bump user_rx_ring_full (if room = 0 then 1 else 0) s;
                              (exhausted, left, s2) \<leftarrow> rx_loop K so d (nat room) s1;
                              let s3 = bump user_on_rx_opportunity_called_exhausted (if exhausted then 1 else 0) s2;
                              if \<not> exhausted \<and> left = 0 then ipaugenblick_mark_readable d s3 else Some s3 } } })"

section \<open>Flushing and closing\<close>

partial_function (option) flush_tx_loop :: "nat \<Rightarrow> 'k glue \<Rightarrow> 'k glue option" where
  "flush_tx_loop d s =
     (case ipaugenblick_dequeue_tx_buf d s of
        (None, s1) \<Rightarrow> Some s1
      | (Some b, s1) \<Rightarrow>
          do { s2 \<leftarrow> free_mbuf b (bump user_flush_tx_cnt (ucast (nb_segs (mbufs (mem s1) b))) s1);
               flush_tx_loop d s2 })"

definition user_flush_tx :: "nat \<Rightarrow> 'k glue \<Rightarrow> 'k glue option" where
  "user_flush_tx so s =
     do { od \<leftarrow> get_user_data so s; case od of None \<Rightarrow> Some s | Some d \<Rightarrow> flush_tx_loop d s }"

text \<open>
  Everything on the receive ring is taken for a packet buffer. On a listening socket the ring
  holds command buffers; using one as a packet buffer is undefined.
\<close>

partial_function (option) flush_rx_loop :: "nat \<Rightarrow> 'k glue \<Rightarrow> 'k glue option" where
  "flush_rx_loop d s =
     do { (rc, ps, r) \<leftarrow> rte_ring_dequeue (rx_rings (mem s) d);
          let s1 = s\<lparr>mem := (mem s)\<lparr>rx_rings := (rx_rings (mem s))(d := r)\<rparr>\<rparr>;
          if rc \<noteq> 0 then Some s1
          else (case hd ps of CmdPtr _ \<Rightarrow> None
                | MbufPtr b \<Rightarrow>
                    do { s2 \<leftarrow> free_mbuf b (bump user_flush_rx_cnt (ucast (nb_segs (mbufs (mem s1) b))) s1);
                         flush_rx_loop d s2 }) }"

definition user_flush_rx :: "nat \<Rightarrow> 'k glue \<Rightarrow> 'k glue option" where
  "user_flush_rx so s =
     do { od \<leftarrow> get_user_data so s; case od of None \<Rightarrow> Some s | Some d \<Rightarrow> flush_rx_loop d s }"

definition user_flush_rx_tx :: "nat \<Rightarrow> 'k glue \<Rightarrow> 'k glue option" where
  "user_flush_rx_tx so s = do { s1 \<leftarrow> user_flush_rx so s; user_flush_tx so s1 }"

definition user_on_closure :: "nat \<Rightarrow> 'k glue \<Rightarrow> 'k glue option" where
  "user_on_closure so s =
     do { od \<leftarrow> get_user_data so s;
          case od of None \<Rightarrow> Some s
          | Some d \<Rightarrow> do { (_, s1) \<leftarrow> ipaugenblick_mark_closed d s; Some s1 } }"

definition user_on_socket_fatal :: "nat \<Rightarrow> 'k glue \<Rightarrow> 'k glue option" where
  "user_on_socket_fatal so s = do { s1 \<leftarrow> user_flush_rx_tx so s; user_on_closure so s1 }"

section \<open>Accepting\<close>

text \<open>Announce one accepted socket to the application that owns the listening one.\<close>

definition accept_one :: "nat \<Rightarrow> nat \<Rightarrow> 'k glue \<Rightarrow> 'k glue option" where
  "accept_one so newsock s =
     do { nsk \<leftarrow> sock_sk (sockets s newsock);
          (oc, m) \<leftarrow> ipaugenblick_get_free_command_buf (mem s);
          let s1 = s\<lparr>mem := m\<rparr>;
          s2 \<leftarrow> (case oc of None \<Rightarrow> Some s1
                 | Some c \<Rightarrow>
                   do { od \<leftarrow> get_user_data so s1;
                        let s2 = s1\<lparr>mem := upd_cmd c (\<lambda>k. k\<lparr>cmd := IPAUGENBLICK_SOCKET_ACCEPTED_COMMAND,
                               u := U_accepted_socket newsock (sk_daddr (socks s1 nsk)) (sk_dport (socks s1 nsk))\<rparr>) (mem s1)\<rparr>;
                        s3 \<leftarrow> app_glue_set_user_data newsock None s2;
                        d \<leftarrow> od;
                        ipaugenblick_post_accepted c d s3 });
          Some (install_handlers nsk s2) }"

partial_function (option) user_on_accept :: "'k kops \<Rightarrow> nat \<Rightarrow> 'k glue \<Rightarrow> 'k glue option" where
  "user_on_accept K so s =
     do { (r, s1) \<leftarrow> k_accept K so s;
          case r of None \<Rightarrow> Some s1
          | Some newsock \<Rightarrow> do { s2 \<leftarrow> accept_one so newsock s1; user_on_accept K so s2 } }"

section \<open>What the callbacks keep\<close>

text \<open>
  The calls of the server side do not touch the queues, so the callbacks keep every property
  the stack keeps.
\<close>

lemma kick_app_view [simp]: "full_view (kick_app d s) = full_view s"
  by (simp add: kick_app_def Let_def)

lemma enqueue_ready_view: "enqueue_ready d ev s = Some (rc, s') \<Longrightarrow> full_view s' = full_view s"
  by (auto simp: enqueue_ready_def Let_def split: Option.bind_splits)

lemma mark_readable_view: "ipaugenblick_mark_readable d s = Some s' \<Longrightarrow> full_view s' = full_view s"
  by (auto simp: ipaugenblick_mark_readable_def Let_def split: if_splits Option.bind_splits
      dest!: enqueue_ready_view)

lemma mark_writable_view: "ipaugenblick_mark_writable rv d s = Some (x, s') \<Longrightarrow> full_view s' = full_view s"
  by (auto simp: ipaugenblick_mark_writable_def Let_def split: if_splits Option.bind_splits
      dest!: enqueue_ready_view)

lemma mark_closed_view: "ipaugenblick_mark_closed d s = Some (x, s') \<Longrightarrow> full_view s' = full_view s"
  by (auto simp: ipaugenblick_mark_closed_def Let_def split: if_splits Option.bind_splits
      dest!: enqueue_ready_view)

lemma post_accepted_view: "ipaugenblick_post_accepted c d s = Some s' \<Longrightarrow> glue_view s' = glue_view s"
  by (auto simp: ipaugenblick_post_accepted_def Let_def split: if_splits Option.bind_splits
      dest!: mark_readable_view full_viewD)

lemma pktmbuf_free_rings:
  assumes "rte_pktmbuf_free b m = Some m'"
  shows "command_ring m' = command_ring m \<and> free_command_pool m' = free_command_pool m"
  using assms
  by (induction rule: rte_pktmbuf_free.raw_induct [rotated, consumes 1])
    (auto split: option.splits Option.bind_splits dest: free_seg_rings)

lemma submit_rx_view: "ipaugenblick_submit_rx_buf b d s = Some (x, s') \<Longrightarrow> full_view s' = full_view s"
  by (auto simp: ipaugenblick_submit_rx_buf_def Let_def split: if_splits Option.bind_splits prod.splits
      dest!: mark_readable_view)

lemma tx_buf_count_view: "ipaugenblick_tx_buf_count d s = Some (x, s') \<Longrightarrow> full_view s' = full_view s"
  by (auto simp: ipaugenblick_tx_buf_count_def split: Option.bind_splits)

lemma tx_burst_view: "ipaugenblick_dequeue_tx_buf_burst d n s = (x, s') \<Longrightarrow> full_view s' = full_view s"
  by (auto simp: ipaugenblick_dequeue_tx_buf_burst_def split: prod.splits)

lemma free_mbuf_view: "free_mbuf b s = Some s' \<Longrightarrow> full_view s' = full_view s"
  by (auto simp: free_mbuf_def split: Option.bind_splits dest!: pktmbuf_free_rings)

lemma dequeue_tx_view: "ipaugenblick_dequeue_tx_buf d s = (x, s') \<Longrightarrow> full_view s' = full_view s"
  using full_view_dequeue_tx [of d s] by simp

lemma fold_free_view: "fold_opt free_mbuf bs s = Some s' \<Longrightarrow> full_view s' = full_view s"
  by (induction bs arbitrary: s) (auto split: Option.bind_splits dest: free_mbuf_view)

lemmas view_rules = mark_readable_view mark_writable_view mark_closed_view submit_rx_view
  tx_buf_count_view tx_burst_view free_mbuf_view dequeue_tx_view fold_free_view

lemma flush_tx_loop_view:
  assumes "flush_tx_loop d s = Some s'"
  shows "full_view s' = full_view s"
  using assms
  by (induction rule: flush_tx_loop.raw_induct [rotated, consumes 1])
    (auto split: prod.splits option.splits Option.bind_splits dest!: free_mbuf_view dequeue_tx_view)

lemma flush_rx_loop_view:
  assumes "flush_rx_loop d s = Some s'"
  shows "full_view s' = full_view s"
  using assms
  by (induction rule: flush_rx_loop.raw_induct [rotated, consumes 1])
    (auto simp: Let_def split: if_splits void_ptr.splits Option.bind_splits dest!: free_mbuf_view)

lemma flush_view: "user_flush_rx_tx so s = Some s' \<Longrightarrow> full_view s' = full_view s"
  by (auto simp: user_flush_rx_tx_def user_flush_rx_def user_flush_tx_def
      split: option.splits Option.bind_splits dest!: flush_tx_loop_view flush_rx_loop_view)

lemma set_user_data_view: "app_glue_set_user_data so d s = Some s' \<Longrightarrow> full_view s' = full_view s"
  by (auto simp: app_glue_set_user_data_def full_view_def glue_view_def split: Option.bind_splits)

lemma install_handlers_view [simp]: "full_view (install_handlers k s) = full_view s"
  by (auto simp: full_view_def glue_view_def install_handlers_def)

lemma accept_one_view: "accept_one so newsock s = Some s' \<Longrightarrow> glue_view s' = glue_view s"
  by (auto simp: accept_one_def Let_def split: Option.bind_splits option.splits
      dest!: post_accepted_view full_viewD [OF set_user_data_view] simp: full_viewD [OF install_handlers_view])

context glue_property
begin

lemma server_ops_keep:
  assumes "I s"
  shows "keeps (\<lambda>x. x) (ipaugenblick_mark_readable d s)" "keeps snd (ipaugenblick_mark_writable rv d s)"
    "keeps snd (ipaugenblick_mark_closed d s)"
    "keeps snd (ipaugenblick_submit_rx_buf b d s)" "keeps snd (ipaugenblick_tx_buf_count d s)"
    "keeps (\<lambda>x. x) (free_mbuf b s)" "keeps (\<lambda>x. x) (fold_opt free_mbuf bs s)"
  using assms by (auto intro!: keeps_view dest: view_rules)

lemmas keep_ops = server_ops_keep stack_ops_keep

lemmas keep_seq = keep_ops [THEN keeps_bind]
  keeps_pure_bind [where m = "get_user_data so s" for so s] keeps_pure_bind [where m = "sock_sk k" for k]
  keeps_pure_bind [where m = "map_option f m" for f m] keeps_pure_bind [where m = "rte_ring_dequeue r" for r]

lemma sendpage_loop_keeps:
  assumes "stack_ok K" "I s"
  shows "keeps (\<lambda>x. x) (sendpage_loop K so sk s)"
proof -
  have "I s'" if "sendpage_loop K so sk s = Some s'" for s'
    using that assms
  proof (induction rule: sendpage_loop.raw_induct [rotated, consumes 1])
    case (1 loop K so sk s y)
    then have "keeps (\<lambda>x. x) (loop K so sk s')" if "I s'" for s' using that by (auto simp: keeps_def)
    then show ?case by (intro keepsD [OF _ 1(2), where g = "\<lambda>x. x"]) (use 1(3,4) in \<open>auto intro!: keep_seq\<close>)
  qed
  then show ?thesis by (simp add: keeps_def)
qed

lemma udp_send_bufs_keeps:
  assumes "stack_ok K" "I s"
  shows "keeps snd (udp_send_bufs K sk n bufs s)"
  using assms
  by (induction bufs arbitrary: s)
    (auto simp: Let_def simp del: fold_opt.simps intro!: keep_seq)

lemma tx_burst_keeps: "ipaugenblick_dequeue_tx_buf_burst d n s = (x, s') \<Longrightarrow> I s \<Longrightarrow> I s'"
  using tx_burst_view I_view by blast

lemma udp_tx_loop_keeps:
  assumes "stack_ok K" "I s"
  shows "keeps snd (udp_tx_loop K sk d s)"
proof -
  have "I (snd y)" if "udp_tx_loop K sk d s = Some y" for y
    using that assms
  proof (induction rule: udp_tx_loop.raw_induct [rotated, consumes 1])
    case (1 loop K sk d s y)
    then have "keeps snd (loop K sk d s')" if "I s'" for s' using that by (auto simp: keeps_def)
    then show ?case
      by (intro keepsD [OF _ 1(2)])
        (use 1(3,4) in \<open>auto simp: Let_def intro!: keep_seq udp_send_bufs_keeps [THEN keeps_bind]
           dest: tx_burst_keeps split: prod.split\<close>)
  qed
  then show ?thesis by (simp add: keeps_def)
qed

lemma transmission_keeps:
  assumes "stack_ok K" "I s"
  shows "keeps (\<lambda>x. x) (user_on_transmission_opportunity K osock s)"
  using assms
  by (auto simp: user_on_transmission_opportunity_def Let_def split: option.split
      intro!: keep_seq sendpage_loop_keeps [THEN keeps_bind] udp_tx_loop_keeps [THEN keeps_bind])

lemma rx_loop_keeps:
  assumes "stack_ok K" "I s"
  shows "keeps (\<lambda>y. snd (snd y)) (rx_loop K so d n s)"
  using assms
  by (induction n arbitrary: s)
    (auto simp: Let_def intro!: keep_seq, rule keeps_pure_bind, auto intro!: keep_seq)

lemma data_available_keeps:
  assumes "stack_ok K" "I s"
  shows "keeps (\<lambda>x. x) (user_data_available_cbk K osock s)"
  using assms
  by (auto simp: user_data_available_cbk_def Let_def split: option.split
      intro!: keep_ops keep_seq rx_loop_keeps [THEN keeps_bind])

lemma flush_rx_tx_keeps: "I s \<Longrightarrow> keeps (\<lambda>x. x) (user_flush_rx_tx so s)"
  by (auto intro!: keeps_view dest: flush_view)

lemma closure_keeps: "I s \<Longrightarrow> keeps (\<lambda>x. x) (user_on_closure so s)"
  by (auto simp: user_on_closure_def intro!: keep_seq split: option.split)

lemma fatal_keeps: "I s \<Longrightarrow> keeps (\<lambda>x. x) (user_on_socket_fatal so s)"
  by (auto simp: user_on_socket_fatal_def intro!: flush_rx_tx_keeps [THEN keeps_bind] closure_keeps)

end

context queue_property
begin

lemma on_accept_keeps:
  assumes "stack_ok K" "I s"
  shows "keeps (\<lambda>x. x) (user_on_accept K so s)"
proof -
  have "I s'" if "user_on_accept K so s = Some s'" for s'
    using that assms
  proof (induction rule: user_on_accept.raw_induct [rotated, consumes 1])
    case (1 loop K so s y)
    then have "keeps (\<lambda>x. x) (loop K so s')" if "I s'" for s' using that by (auto simp: keeps_def)
    moreover have "keeps (\<lambda>x. x) (accept_one so a s')" if "I s'" for a s'
      unfolding keeps_def using that I_queues [OF accept_one_view] by blast
    ultimately show ?case
      by (intro keepsD [OF _ 1(2), where g = "\<lambda>x. x"])
        (use 1(3,4) in \<open>auto intro!: keep_seq keeps_bind [where g = "\<lambda>x. x"] split: option.split\<close>)
  qed
  then show ?thesis by (simp add: keeps_def)
qed

end

end
