(* ===== verification/Glue_Loop.thy ===== *)
theory Glue_Loop
  imports User_Callbacks
begin

text \<open>
  The periodic part of \<open>porting/app_glue.c\<close>: the passes over the queues of closed,
  acceptable, readable and writable sockets, and \<open>app_glue_periodic\<close>, which polls the driver,
  runs the timers and makes these passes, each at its own interval.
\<close>

section \<open>The passes\<close>

definition serve_closed :: "'k kops \<Rightarrow> nat \<Rightarrow> 'k glue \<Rightarrow> 'k glue option" where
  "serve_closed K so s =
     do { s1 \<leftarrow> user_on_socket_fatal so s;
          let s2 = closed_queue_del so s1;
          sk \<leftarrow> sock_sk (sockets s2 so);
          s3 \<leftarrow> sock_put K sk s2;
          (_, s4) \<leftarrow> k_close K so s3;
          Some s4 }"

definition serve_listener :: "'k kops \<Rightarrow> nat \<Rightarrow> 'k glue \<Rightarrow> 'k glue option" where
  "serve_listener K so s =
     do { s1 \<leftarrow> user_on_accept K so s;
          let s2 = accept_queue_del so s1;
          sk \<leftarrow> sock_sk (sockets s2 so);
          sock_put K sk s2 }"

definition serve_reader :: "'k kops \<Rightarrow> nat \<Rightarrow> 'k glue \<Rightarrow> 'k glue option" where
  "serve_reader K so s =
     do { s1 \<leftarrow> user_data_available_cbk K (Some so) (read_queue_del so s);
          sk \<leftarrow> sock_sk (sockets s1 so);
          s2 \<leftarrow> sock_put K sk s1;
          Some (s2\<lparr>read_sockets_queue_len := read_sockets_queue_len s2 - 1\<rparr>) }"

definition serve_writer :: "'k kops \<Rightarrow> nat \<Rightarrow> 'k glue \<Rightarrow> 'k glue option" where
  "serve_writer K so s =
     do { s1 \<leftarrow> user_on_transmission_opportunity K (Some so) (write_queue_del so s);
          let s2 = upd_socket so (\<lambda>k. k\<lparr>SOCK_NOSPACE := True\<rparr>) s1;
          sk \<leftarrow> sock_sk (sockets s2 so);
          s3 \<leftarrow> sock_put K sk s2;
          Some (s3\<lparr>write_sockets_queue_len := write_sockets_queue_len s3 - 1\<rparr>) }"

partial_function (option) closed_loop :: "'k kops \<Rightarrow> 'k glue \<Rightarrow> 'k glue option" where
  "closed_loop K s =
     (case closed_socket_list s of [] \<Rightarrow> Some s
      | so # _ \<Rightarrow> do { s1 \<leftarrow> serve_closed K so s; closed_loop K s1 })"

partial_function (option) accept_loop :: "'k kops \<Rightarrow> 'k glue \<Rightarrow> 'k glue option" where
  "accept_loop K s =
     (case accept_ready_socket_list s of [] \<Rightarrow> Some s
      | so # _ \<Rightarrow> do { s1 \<leftarrow> serve_listener K so s; accept_loop K s1 })"

text \<open>At most as many sockets as were queued when the pass began.\<close>

fun read_loop :: "'k kops \<Rightarrow> nat \<Rightarrow> 'k glue \<Rightarrow> 'k glue option" where
  "read_loop K 0 s = Some s"
| "read_loop K (Suc n) s =
     (case read_ready_socket_list s of [] \<Rightarrow> Some s
      | so # _ \<Rightarrow> do { s1 \<leftarrow> serve_reader K so s; read_loop K n s1 })"

fun write_loop :: "'k kops \<Rightarrow> nat \<Rightarrow> 'k glue \<Rightarrow> 'k glue option" where
  "write_loop K 0 s = Some s"
| "write_loop K (Suc n) s =
     (case write_ready_socket_list s of [] \<Rightarrow> Some s
      | so # _ \<Rightarrow> do { s1 \<leftarrow> serve_writer K so s; write_loop K n s1 })"

definition process_rx_ready_sockets :: "'k kops \<Rightarrow> 'k glue \<Rightarrow> 'k glue option" where
  "process_rx_ready_sockets K s =
     do { s1 \<leftarrow> closed_loop K s;
          s2 \<leftarrow> accept_loop K s1;
          read_loop K (unat (read_sockets_queue_len s2)) s2 }"

definition process_tx_ready_sockets :: "'k kops \<Rightarrow> 'k glue \<Rightarrow> 'k glue option" where
  "process_tx_ready_sockets K s = write_loop K (unat (write_sockets_queue_len s)) s"

section \<open>The periodic call\<close>

definition app_glue_poll :: "'k kops \<Rightarrow> nat \<Rightarrow> 'k glue \<Rightarrow> 'k glue option" where
  "app_glue_poll K port_num s =
     (if \<not> k_dpdk_dev_by_port_num K port_num then Some s
      else do { (_, s1) \<leftarrow> k_poll K port_num s; Some s1 })"

record poll_state =
  app_glue_drv_poll_interval :: u64
  app_glue_timer_poll_interval :: u64
  app_glue_tx_ready_sockets_poll_interval :: u64
  app_glue_rx_ready_sockets_poll_interval :: u64
  app_glue_drv_last_poll_ts :: u64
  app_glue_timer_last_poll_ts :: u64
  app_glue_tx_ready_sockets_last_poll_ts :: u64
  app_glue_rx_ready_sockets_last_poll_ts :: u64

text \<open>
  \<open>tsc n\<close> is what the \<open>n\<close>th \<open>rte_rdtsc()\<close> in the text of the function returns. The four parts, in
  the order of the code.
\<close>

definition periodic_drv :: "'k kops \<Rightarrow> (nat \<Rightarrow> u64) \<Rightarrow> nat list \<Rightarrow> poll_state \<times> 'k glue \<Rightarrow> (poll_state \<times> 'k glue) option" where
  "periodic_drv K tsc ports = (\<lambda>(p, s).
     if tsc 0 - app_glue_drv_last_poll_ts p \<ge> app_glue_drv_poll_interval p
     then do { s1 \<leftarrow> fold_opt (app_glue_poll K) ports s;
               Some (p\<lparr>app_glue_drv_last_poll_ts := tsc 0\<rparr>, bump working_cycles_stat (tsc 2 - tsc 1) s1) }
     else Some (p, s))"

definition periodic_timer :: "'k kops \<Rightarrow> (nat \<Rightarrow> u64) \<Rightarrow> poll_state \<times> 'k glue \<Rightarrow> (poll_state \<times> 'k glue) option" where
  "periodic_timer K tsc = (\<lambda>(p, s).
     if tsc 0 - app_glue_timer_last_poll_ts p \<ge> app_glue_timer_poll_interval p
     then do { (_, s1) \<leftarrow> k_timer_manage K s;
               Some (p\<lparr>app_glue_timer_last_poll_ts := tsc 0\<rparr>, bump working_cycles_stat (tsc 4 - tsc 3) s1) }
     else Some (p, s))"

definition periodic_tx :: "'k kops \<Rightarrow> (nat \<Rightarrow> u64) \<Rightarrow> poll_state \<times> 'k glue \<Rightarrow> (poll_state \<times> 'k glue) option" where
  "periodic_tx K tsc = (\<lambda>(p, s).
     if tsc 0 - app_glue_tx_ready_sockets_last_poll_ts p \<ge> app_glue_tx_ready_sockets_poll_interval p
     then do { s1 \<leftarrow> process_tx_ready_sockets K (bump app_glue_tx_queues_process 1 s);
               Some (p\<lparr>app_glue_tx_ready_sockets_last_poll_ts := tsc 0\<rparr>, bump working_cycles_stat (tsc 6 - tsc 5) s1) }
     else Some (p, s))"

definition periodic_rx :: "'k kops \<Rightarrow> (nat \<Rightarrow> u64) \<Rightarrow> poll_state \<times> 'k glue \<Rightarrow> (poll_state \<times> 'k glue) option" where
  "periodic_rx K tsc = (\<lambda>(p, s).
     if tsc 0 - app_glue_rx_ready_sockets_last_poll_ts p \<ge> app_glue_rx_ready_sockets_poll_interval p
     then do { s1 \<leftarrow> process_rx_ready_sockets K (bump app_glue_rx_queues_process 1 s);
               Some (p\<lparr>app_glue_rx_ready_sockets_last_poll_ts := tsc 0\<rparr>, bump working_cycles_stat (tsc 8 - tsc 7) s1) }
     else Some (p, s))"

definition app_glue_periodic ::
  "'k kops \<Rightarrow> (nat \<Rightarrow> u64) \<Rightarrow> bool \<Rightarrow> nat list \<Rightarrow> poll_state \<times> 'k glue \<Rightarrow> (poll_state \<times> 'k glue) option" where
  "app_glue_periodic K tsc call_flush_queues ports ps =
     do { ps1 \<leftarrow> periodic_drv K tsc ports (fst ps, bump app_glue_periodic_called 1 (snd ps));
          ps2 \<leftarrow> periodic_timer K tsc ps1;
          (p, s) \<leftarrow> (if call_flush_queues
                    then do { ps3 \<leftarrow> periodic_tx K tsc ps2; periodic_rx K tsc ps3 }
                    else Some ((fst ps2)\<lparr>app_glue_tx_ready_sockets_last_poll_ts := tsc 0,
                                        app_glue_rx_ready_sockets_last_poll_ts := tsc 0\<rparr>, snd ps2));
          Some (p, bump total_cycles_stat (tsc 9 - tsc 0) s) }"

section \<open>The passes keep the invariant\<close>

context glue_property
begin

lemma sock_put_keeps: "stack_ok K \<Longrightarrow> I s \<Longrightarrow> keeps (\<lambda>x. x) (sock_put K sk s)"
proof -
  assume a: "stack_ok K" "I s"
  have "I (upd_sk sk (\<lambda>k. k\<lparr>sk_refcnt := sk_refcnt k - 1\<rparr>) s)"
    using a(2) by (subst I_view [of _ s]) (auto simp: full_view_def glue_view_def)
  then show ?thesis
    using a(1) by (auto simp: sock_put_def Let_def intro!: keep_seq)
qed

end

lemma inv_count_down:
  "glue_inv r 1 s \<Longrightarrow> glue_inv r 0 (s\<lparr>write_sockets_queue_len := write_sockets_queue_len s - 1\<rparr>)"
  "glue_inv 1 w s \<Longrightarrow> glue_inv 0 w (s\<lparr>read_sockets_queue_len := read_sockets_queue_len s - 1\<rparr>)"
  by (auto simp: glue_inv_defs unat_minus_one dest: unat_minus_one [rotated])
    (metis Suc_eq_plus1 diff_Suc_1 nat.distinct(1) unat_0 unat_minus_one)+

lemma serve_writer_inv:
  assumes ok: "stack_ok K" and inv: "glue_inv r 0 s" and q: "write_queue_present (sockets s so)"
    and run: "serve_writer K so s = Some s'"
  shows "glue_inv r 0 s'"
proof -
  obtain s1 sk s2 where s1: "user_on_transmission_opportunity K (Some so) (write_queue_del so s) = Some s1"
    and s2: "sock_put K sk (upd_socket so (\<lambda>k. k\<lparr>SOCK_NOSPACE := True\<rparr>) s1) = Some s2"
    and s': "s' = s2\<lparr>write_sockets_queue_len := write_sockets_queue_len s2 - 1\<rparr>"
    using run by (auto simp: serve_writer_def Let_def split: Option.bind_splits)
  have "glue_inv r 1 (write_queue_del so s)"
    using inv_write_del(1) [OF inv q] by simp
  then have "glue_inv r 1 s1"
    using inv.keepsD [OF inv.transmission_keeps [OF ok] s1] by simp
  then have "glue_inv r 1 (upd_socket so (\<lambda>k. k\<lparr>SOCK_NOSPACE := True\<rparr>) s1)"
    by (subst glue_inv_view [of _ s1]) auto
  then have "glue_inv r 1 s2"
    using inv.keepsD [OF inv.sock_put_keeps [OF ok] s2] by simp
  then show ?thesis
    unfolding s' by (rule inv_count_down)
qed

lemma serve_reader_inv:
  assumes ok: "stack_ok K" and inv: "glue_inv 0 w s" and q: "read_queue_present (sockets s so)"
    and run: "serve_reader K so s = Some s'"
  shows "glue_inv 0 w s'"
proof -
  obtain s1 sk s2 where s1: "user_data_available_cbk K (Some so) (read_queue_del so s) = Some s1"
    and s2: "sock_put K sk s1 = Some s2"
    and s': "s' = s2\<lparr>read_sockets_queue_len := read_sockets_queue_len s2 - 1\<rparr>"
    using run by (auto simp: serve_reader_def Let_def split: Option.bind_splits)
  have "glue_inv 1 w (read_queue_del so s)"
    using inv_read_del(1) [OF inv q] by simp
  then have "glue_inv 1 w s1"
    using inv.keepsD [OF inv.data_available_keeps [OF ok] s1] by simp
  then have "glue_inv 1 w s2"
    using inv.keepsD [OF inv.sock_put_keeps [OF ok] s2] by simp
  then show ?thesis
    unfolding s' by (rule inv_count_down)
qed

lemma write_loop_inv:
  "stack_ok K \<Longrightarrow> glue_inv r 0 s \<Longrightarrow> write_loop K n s = Some s' \<Longrightarrow> glue_inv r 0 s'"
proof (induction n arbitrary: s)
  case (Suc n)
  show ?case
  proof (cases "write_ready_socket_list s")
    case (Cons so q)
    then have "write_queue_present (sockets s so)" using Suc.prems(2) by (force simp: glue_inv_defs)
    then show ?thesis
      using Suc serve_writer_inv [of K r s so] Cons by (auto split: Option.bind_splits)
  qed (use Suc.prems in simp)
qed simp

lemma read_loop_inv:
  "stack_ok K \<Longrightarrow> glue_inv 0 w s \<Longrightarrow> read_loop K n s = Some s' \<Longrightarrow> glue_inv 0 w s'"
proof (induction n arbitrary: s)
  case (Suc n)
  show ?case
  proof (cases "read_ready_socket_list s")
    case (Cons so q)
    then have "read_queue_present (sockets s so)" using Suc.prems(2) by (force simp: glue_inv_defs)
    then show ?thesis
      using Suc serve_reader_inv [of K w s so] Cons by (auto split: Option.bind_splits)
  qed (use Suc.prems in simp)
qed simp

lemma serve_listener_inv:
  assumes "stack_ok K" "glue_inv r w s" "serve_listener K so s = Some s'"
  shows "glue_inv r w s'"
proof -
  obtain s1 sk where s1: "user_on_accept K so s = Some s1" and s': "sock_put K sk (accept_queue_del so s1) = Some s'"
    using assms(3) by (auto simp: serve_listener_def Let_def split: Option.bind_splits)
  have "glue_inv r w s1"
    using inv.keepsD [OF inv.on_accept_keeps [OF assms(1,2)] s1] by simp
  then show ?thesis
    using inv.keepsD [OF inv.sock_put_keeps [OF assms(1) inv_accept_del] s'] by simp
qed

lemma accept_loop_inv:
  assumes "accept_loop K s = Some s'" "stack_ok K" "glue_inv r w s"
  shows "glue_inv r w s'"
  using assms
  by (induction rule: accept_loop.raw_induct [rotated, consumes 1])
    (auto split: list.splits Option.bind_splits dest: serve_listener_inv)

section \<open>A pass serves what was queued\<close>

lemma serve_writer_queue:
  assumes ok: "stack_ok K" and q: "write_ready_socket_list s = so # qs" and run: "serve_writer K so s = Some s'"
  shows "\<exists>x. write_ready_socket_list s' = qs @ x"
proof -
  let ?I = "queues_extend [] qs [] []"
  obtain s1 sk s2 where s1: "user_on_transmission_opportunity K (Some so) (write_queue_del so s) = Some s1"
    and s2: "sock_put K sk (upd_socket so (\<lambda>k. k\<lparr>SOCK_NOSPACE := True\<rparr>) s1) = Some s2"
    and s': "s' = s2\<lparr>write_sockets_queue_len := write_sockets_queue_len s2 - 1\<rparr>"
    using run by (auto simp: serve_writer_def Let_def split: Option.bind_splits)
  have "?I (write_queue_del so s)"
    using q by (simp add: queues_extend_def write_queue_del_def)
  then have "?I s1"
    using ext.keepsD [OF ext.transmission_keeps [OF ok] s1] by simp
  then have "?I (upd_socket so (\<lambda>k. k\<lparr>SOCK_NOSPACE := True\<rparr>) s1)"
    by (simp add: queues_extend_def)
  then have "?I s2"
    using ext.keepsD [OF ext.sock_put_keeps [OF ok] s2] by simp
  then show ?thesis by (simp add: s' queues_extend_def)
qed

lemma serve_reader_queue:
  assumes ok: "stack_ok K" and q: "read_ready_socket_list s = so # qs" and run: "serve_reader K so s = Some s'"
  shows "\<exists>x. read_ready_socket_list s' = qs @ x"
proof -
  let ?I = "queues_extend qs [] [] []"
  obtain s1 sk s2 where s1: "user_data_available_cbk K (Some so) (read_queue_del so s) = Some s1"
    and s2: "sock_put K sk s1 = Some s2"
    and s': "s' = s2\<lparr>read_sockets_queue_len := read_sockets_queue_len s2 - 1\<rparr>"
    using run by (auto simp: serve_reader_def Let_def split: Option.bind_splits)
  have "?I (read_queue_del so s)"
    using q by (simp add: queues_extend_def read_queue_del_def)
  then have "?I s1"
    using ext.keepsD [OF ext.data_available_keeps [OF ok] s1] by simp
  then have "?I s2"
    using ext.keepsD [OF ext.sock_put_keeps [OF ok] s2] by simp
  then show ?thesis by (simp add: s' queues_extend_def)
qed

lemma write_loop_fold:
  assumes "stack_ok K" "write_ready_socket_list s = qs @ x"
  shows "write_loop K (length qs) s = fold_opt (serve_writer K) qs s"
  using assms(2)
proof (induction qs arbitrary: s x)
  case (Cons so qs)
  then have s: "write_ready_socket_list s = so # (qs @ x)" by simp
  have "write_loop K (length qs) s1 = fold_opt (serve_writer K) qs s1" if "serve_writer K so s = Some s1" for s1
    using Cons.IH serve_writer_queue [OF assms(1) s that] by auto
  then show ?case using s by (auto intro!: Option.bind_cong)
qed simp

lemma read_loop_fold:
  assumes "stack_ok K" "read_ready_socket_list s = qs @ x"
  shows "read_loop K (length qs) s = fold_opt (serve_reader K) qs s"
  using assms(2)
proof (induction qs arbitrary: s x)
  case (Cons so qs)
  then have s: "read_ready_socket_list s = so # (qs @ x)" by simp
  have "read_loop K (length qs) s1 = fold_opt (serve_reader K) qs s1" if "serve_reader K so s = Some s1" for s1
    using Cons.IH serve_reader_queue [OF assms(1) s that] by auto
  then show ?case using s by (auto intro!: Option.bind_cong)
qed simp

section \<open>Properties\<close>

lemma count_list_distinct: "x \<in> set xs \<Longrightarrow> distinct xs \<Longrightarrow> count_list xs x = 1"
  by (induction xs) auto







text \<open>
  C9. A failed socket that also waits in the read queue is closed, and thereby freed, while it
  stays in that queue: the next readable socket the same pass serves is freed memory.
\<close>

definition failed_glue :: "unit glue" where
  "failed_glue =
     (upd_sk 300 (\<lambda>k. k\<lparr>sk_user_data := None\<rparr>)
       (read_queue_put 30 (closed_queue_put 30 (write_queue_del 30 small_glue))))
     \<lparr>read_sockets_queue_len := 1, write_sockets_queue_len := 0\<rparr>"


end
