(* ===== verification/Iface_Records.thy ===== *)
theory Iface_Records
  imports Prelude
begin

text \<open>
  The description of interfaces and addresses that the service sends to a client when it
  connects: \<open>encode_16\<close>, \<open>encode_32\<close>, \<open>encode_64\<close>, \<open>get_all_addresses\<close> and \<open>get_all_devices\<close> of
  \<open>porting/libinit.c\<close>. Writing at \<open>&buf[offset]\<close> and advancing is appending to the bytes
  written so far.
\<close>

section \<open>Integers\<close>

text \<open>Assigning to a \<open>uint8_t\<close> keeps the low eight bits, here of the shifted value.\<close>

definition encode_16 :: "u16 \<Rightarrow> u8 list" where
  "encode_16 val = [ucast (push_bit 8 val), ucast (and val 0xFF)]"

definition encode_32 :: "u32 \<Rightarrow> u8 list" where
  "encode_32 val = [ucast (push_bit 24 val), ucast (push_bit 16 val), ucast (push_bit 8 val), ucast val]"

definition encode_64 :: "u64 \<Rightarrow> u8 list" where
  "encode_64 val =
     [ucast (push_bit 56 val), ucast (push_bit 48 val), ucast (push_bit 40 val), ucast (push_bit 32 val),
      ucast (push_bit 24 val), ucast (push_bit 16 val), ucast (push_bit 8 val), ucast val]"

text \<open>A little-endian copy of a word in memory, and \<open>htonl\<close> on such a machine.\<close>

definition memcpy_32 :: "u32 \<Rightarrow> u8 list" where
  "memcpy_32 v = [ucast v, ucast (drop_bit 8 v), ucast (drop_bit 16 v), ucast (drop_bit 24 v)]"

definition htonl :: "u32 \<Rightarrow> u32" where
  "htonl v = or (push_bit 24 (and v 0xFF)) (or (push_bit 8 (and v 0xFF00))
     (or (and (drop_bit 8 v) 0xFF00) (drop_bit 24 v)))"

section \<open>Records\<close>

abbreviation (input) RTE_MAX_ETHPORTS :: nat where "RTE_MAX_ETHPORTS \<equiv> 32"
abbreviation (input) IFACE_NAME_SIZE :: nat where "IFACE_NAME_SIZE \<equiv> 20"

text \<open>
  \<open>dev_name\<close> is the memory at the name of a present device; \<open>port_number\<close> and \<open>ip_addr\<close>, the
  latter what \<open>inet_addr\<close> makes of the configured string, come from the configuration file.
\<close>

record dev_table =
  dev_name :: "nat \<Rightarrow> u8 list option"
  port_number :: "nat \<Rightarrow> int"
  ip_addr :: "nat \<Rightarrow> u32"

definition address_record :: "dev_table \<Rightarrow> nat \<Rightarrow> u8 list" where
  "address_record T dev_idx =
     encode_32 (of_nat dev_idx) @ [67, 2] @ memcpy_32 (ip_addr T dev_idx) @ [32] @ memcpy_32 0 @ [32]"

definition get_all_addresses :: "dev_table \<Rightarrow> u8 list" where
  "get_all_addresses T =
     fold (\<lambda>dev_idx buf. if dev_name T dev_idx \<noteq> None \<and> port_number T dev_idx \<noteq> -1
                         then buf @ address_record T dev_idx else buf) [0..<RTE_MAX_ETHPORTS] []"

text \<open>\<open>sockaddr_dl\<close> is written without having been set: \<open>junk\<close>.\<close>

definition device_record :: "u8 list \<Rightarrow> u8 list \<Rightarrow> nat \<Rightarrow> u32 \<Rightarrow> u8 list" where
  "device_record junk name dev_idx hw_addr_len =
     take IFACE_NAME_SIZE name @ encode_32 (of_nat dev_idx) @ [0] @ encode_64 67 @ encode_32 1 @
     encode_32 1500 @ encode_32 1500 @ encode_32 0 @ memcpy_32 hw_addr_len @ take 6 junk"

definition get_all_devices :: "u8 list \<Rightarrow> dev_table \<Rightarrow> u8 list" where
  "get_all_devices junk T =
     snd (fold (\<lambda>dev_idx (hw_addr_len, buf).
                  case dev_name T dev_idx of
                    None \<Rightarrow> (hw_addr_len, buf)
                  | Some name \<Rightarrow> let hl = htonl hw_addr_len in
                                 (hl, buf @ device_record junk name dev_idx hl))
               [0..<RTE_MAX_ETHPORTS] (6, []))"

section \<open>What the encoders write\<close>

lemma ucast_push_bit_zero:
  "LENGTH('b) \<le> n \<Longrightarrow> (ucast (push_bit n (w :: 'a::len word)) :: 'b::len word) = 0"
  by (rule bit_word_eqI) (auto simp: bit_ucast_iff bit_push_bit_iff)

lemma encode_simps:
  "encode_16 v = [0, ucast v]" "encode_32 w = [0, 0, 0, ucast w]" "encode_64 x = [0, 0, 0, 0, 0, 0, 0, ucast x]"
proof -
  have "(ucast (and v 0xFF) :: u8) = ucast v"
    by (rule bit_word_eqI) (auto simp: bit_ucast_iff bit_and_iff bit_numeral_rec bit_simps less_Suc_eq numeral_eq_Suc)
  then show "encode_16 v = [0, ucast v]"
    by (simp add: encode_16_def ucast_push_bit_zero)
qed (simp_all add: encode_32_def encode_64_def ucast_push_bit_zero)

text \<open>The big-endian value of a byte string.\<close>

definition be_val :: "u8 list \<Rightarrow> nat" where
  "be_val bs = fold (\<lambda>b n. n * 256 + unat b) bs 0"

lemma length_records [simp]:
  "length (address_record T i) = 16"
  "length name \<ge> 20 \<Longrightarrow> length junk \<ge> 6 \<Longrightarrow> length (device_record junk name i h) = 59"
  by (simp_all add: address_record_def device_record_def encode_simps memcpy_32_def)

lemma address_fold:
  "fold (\<lambda>i buf. if P i then buf @ address_record T i else buf) is buf =
   buf @ concat (map (address_record T) (filter P is))"
  by (induction "is" arbitrary: buf) simp_all

lemma length_address_records: "length (concat (map (address_record T) is)) = 16 * length is"
  by (induction "is") simp_all

section \<open>Properties\<close>

text \<open>
  The integers in the records survive only when they fit a byte: shifting left instead of
  right leaves nothing but the low byte, so that the MTU of 1500 is announced as 220.
\<close>

theorem encode_32_roundtrip_iff:
  "(be_val (encode_32 v) = unat v \<longleftrightarrow> unat v < 256) \<and> be_val (encode_32 1500) = 220"
proof -
  have "be_val (encode_32 v) = unat v mod 256" for v
    by (simp add: encode_simps be_val_def unsigned_ucast_eq take_bit_eq_mod)
  moreover have "unat v mod 256 = unat v \<longleftrightarrow> unat v < 256" by (metis mod_less mod_less_divisor zero_less_numeral)
  ultimately show ?thesis by simp
qed

text \<open>
  The address list has one record of 16 bytes for each device that is present and
  configured, in the order of the ports.
\<close>

theorem get_all_addresses_records:
  "get_all_addresses T =
     concat (map (address_record T) (filter (\<lambda>i. dev_name T i \<noteq> None \<and> port_number T i \<noteq> -1) [0..<32])) \<and>
   length (get_all_addresses T) =
     16 * length (filter (\<lambda>i. dev_name T i \<noteq> None \<and> port_number T i \<noteq> -1) [0..<32])"
  unfolding get_all_addresses_def address_fold by (simp add: length_address_records del: upt_rec_numeral)

end
