(* ===== verification/Service_Loop.thy ===== *)
theory Service_Loop
  imports Glue_Loop Iface_Records
begin

text \<open>
  \<open>service/ipaugenblick_service_loop.c\<close>: the commands that applications post to the service,
  one definition per command, their dispatch, and one round of the main loop. The parameters
  of a round are the stack \<open>K\<close>, the random ports, the table of network devices and the values
  of uninitialised variables.
\<close>

section \<open>A client connects\<close>

definition get_buffer :: "'k glue \<Rightarrow> (nat option \<times> 'k glue) option" where
  "get_buffer s = do { (b, m) \<leftarrow> rte_pktmbuf_alloc (mem s); Some (b, s\<lparr>mem := m\<rparr>) }"

definition get_buffer_count :: "'k glue \<Rightarrow> int" where
  "get_buffer_count s = sint (rte_mempool_count (mbuf_pool (mem s)))"

text \<open>Send one record; \<open>False\<close> when there was no buffer for it. A full ring loses the record.\<close>

definition send_record :: "nat \<Rightarrow> u8 list \<Rightarrow> u16 option \<Rightarrow> 'k glue \<Rightarrow> (bool \<times> 'k glue) option" where
  "send_record c bytes len s =
     do { (ob, s1) \<leftarrow> get_buffer s;
          case ob of None \<Rightarrow> Some (False, s1)
          | Some b \<Rightarrow>
            (let m = upd_mbuf b (\<lambda>k. k\<lparr>data := bytes,
                       data_len := (case len of None \<Rightarrow> data_len k | Some n \<Rightarrow> n)\<rparr>) (mem s1) in
             do { (_, r) \<leftarrow> rte_ring_enqueue (client_rings m c) b;
                  Some (True, s1\<lparr>mem := m\<lparr>client_rings := (client_rings m)(c := r)\<rparr>\<rparr>) }) }"

definition on_client_connect :: "u8 list \<Rightarrow> dev_table \<Rightarrow> nat \<Rightarrow> 'k glue \<Rightarrow> 'k glue option" where
  "on_client_connect junk T c s =
     (let devs = get_all_devices junk T; addrs = get_all_addresses T in
      do { (ok1, s1) \<leftarrow> send_record c (18 # devs) (Some (of_nat (length devs + 1))) s;
           if \<not> ok1 then Some s1
           else do { (ok2, s2) \<leftarrow> send_record c (19 # addrs) (Some (of_nat (length addrs + 1))) s1;
                     if \<not> ok2 then Some s2
                     else do { (_, s3) \<leftarrow> send_record c [20] None s2; Some s3 } } })"

section \<open>The commands\<close>

definition cmd_conn :: "ipaugenblick_cmd \<Rightarrow> nat option" where
  "cmd_conn c = (if ringset_idx c < IPAUGENBLICK_CONNECTION_POOL_SIZE then Some (ringset_idx c) else None)"

definition sock_type_of :: "int \<Rightarrow> sock_type option" where
  "sock_type_of t = (if t = 1 then Some SOCK_STREAM else if t = 2 then Some SOCK_DGRAM
                     else if t = 3 then Some SOCK_RAW else None)"

definition set_tx_space :: "nat \<Rightarrow> nat \<Rightarrow> 'k glue \<Rightarrow> 'k glue option" where
  "set_tx_space d so s =
     do { i \<leftarrow> conn_idx (sd_ringset_idx (socket_satelite_data s d));
          sk \<leftarrow> sock_sk (sockets s so);
          Some (user_set_socket_tx_space i (sk_stream_wspace (socks s sk)) s) }"

definition open_socket_command :: "'k kops \<Rightarrow> ipaugenblick_cmd \<Rightarrow> 'k glue \<Rightarrow> 'k glue option" where
  "open_socket_command K c s =
     (case u c of
        U_open_sock family type pid \<Rightarrow>
          do { (r, s1) \<leftarrow> (case sock_type_of type of None \<Rightarrow> Some (None, s)
                           | Some ty \<Rightarrow> app_glue_create_socket K family ty s);
               case r of None \<Rightarrow> Some s1
               | Some so \<Rightarrow>
                 do { i \<leftarrow> cmd_conn c;
                      let s2 = upd_satelite i (\<lambda>d. d\<lparr>sd_ringset_idx := int i, sd_parent_idx := parent_idx c,
                                                    sd_apppid := pid\<rparr>) s1;
                      s3 \<leftarrow> app_glue_set_user_data so (Some i) s2;
                      set_tx_space i so (upd_satelite i (\<lambda>d. d\<lparr>sd_socket := Some so\<rparr>) s3) } }
      | _ \<Rightarrow> None)"

definition connect_bind_command :: "'k kops \<Rightarrow> u16 list \<Rightarrow> ipaugenblick_cmd \<Rightarrow> 'k glue \<Rightarrow> 'k glue option" where
  "connect_bind_command K ports c s =
     do { i \<leftarrow> cmd_conn c;
          case sd_socket (socket_satelite_data s i) of None \<Rightarrow> Some s
          | Some so \<Rightarrow>
            (case u c of
               U_socket_connect_bind ip port is_connect \<Rightarrow>
                 if is_connect
                 then do { (rc, s1) \<leftarrow> app_glue_v4_connect K ports so ip port s;
                           if rc \<noteq> 0 then Some s1
                           else do { (addr, s2) \<leftarrow> k_inet_getname K so s1;
                                     Some (s2\<lparr>mem := upd_g_socket i
                                       (\<lambda>k. k\<lparr>local_ipaddr := sin_addr addr, local_port := sin_port addr\<rparr>) (mem s2)\<rparr>) } }
                 else do { (_, s1) \<leftarrow> app_glue_v4_bind K so ip port s; Some s1 }
             | _ \<Rightarrow> None) }"

definition listen_command :: "'k kops \<Rightarrow> ipaugenblick_cmd \<Rightarrow> 'k glue \<Rightarrow> 'k glue option" where
  "listen_command K c s =
     do { i \<leftarrow> cmd_conn c;
          so \<leftarrow> sd_socket (socket_satelite_data s i);
          (_, s1) \<leftarrow> app_glue_v4_listen K so s;
          Some s1 }"

definition close_command :: "'k kops \<Rightarrow> ipaugenblick_cmd \<Rightarrow> 'k glue \<Rightarrow> 'k glue option" where
  "close_command K c s =
     do { i \<leftarrow> cmd_conn c;
          case sd_socket (socket_satelite_data s i) of None \<Rightarrow> Some s
          | Some so \<Rightarrow>
            do { s1 \<leftarrow> user_flush_rx_tx so s;
                 s2 \<leftarrow> app_glue_close_socket K so s1;
                 s3 \<leftarrow> ipaugenblick_free_socket i
                        (upd_satelite i (\<lambda>d. d\<lparr>sd_socket := None, sd_ringset_idx := -1, sd_parent_idx := -1\<rparr>) s2);
                 Some (bump user_sockets_closed 1 s3) } }"

definition tx_kick_command :: "'k kops \<Rightarrow> ipaugenblick_cmd \<Rightarrow> 'k glue \<Rightarrow> 'k glue option" where
  "tx_kick_command K c s =
     do { i \<leftarrow> cmd_conn c;
          case sd_socket (socket_satelite_data s i) of None \<Rightarrow> Some s
          | Some so \<Rightarrow> user_on_transmission_opportunity K (Some so) (bump user_kick_tx 1 s) }"

definition rx_kick_command :: "'k kops \<Rightarrow> ipaugenblick_cmd \<Rightarrow> 'k glue \<Rightarrow> 'k glue option" where
  "rx_kick_command K c s =
     do { i \<leftarrow> cmd_conn c;
          case sd_socket (socket_satelite_data s i) of None \<Rightarrow> Some s
          | Some so \<Rightarrow> user_data_available_cbk K (Some so) (bump user_kick_rx 1 s) }"

text \<open>What setting a ring and setting a selector have in common.\<close>

definition announce :: "'k kops \<Rightarrow> nat option \<Rightarrow> nat \<Rightarrow> 'k glue \<Rightarrow> 'k glue option" where
  "announce K oso i s =
     do { s1 \<leftarrow> user_data_available_cbk K oso s;
          (_, s2) \<leftarrow> ipaugenblick_mark_writable 0 i s1;
          ipaugenblick_mark_readable i s2 }"

definition set_ring_command :: "'k kops \<Rightarrow> ipaugenblick_cmd \<Rightarrow> 'k glue \<Rightarrow> 'k glue option" where
  "set_ring_command K c s =
     (case u c of
        U_set_socket_ring so pid \<Rightarrow>
          do { i \<leftarrow> cmd_conn c;
               let s1 = upd_satelite i (\<lambda>d. d\<lparr>sd_ringset_idx := int i,
                   sd_parent_idx := (if parent_idx c \<noteq> -1 then parent_idx c else sd_parent_idx d),
                   sd_apppid := pid\<rparr>) s;
               s2 \<leftarrow> app_glue_set_user_data so (Some i) s1;
               s3 \<leftarrow> set_tx_space i so (upd_satelite i (\<lambda>d. d\<lparr>sd_socket := Some so\<rparr>) s2);
               s4 \<leftarrow> announce K (Some so) i s3;
               Some (bump user_client_app_accepted 1 s4) }
      | _ \<Rightarrow> None)"

definition set_select_command :: "'k kops \<Rightarrow> ipaugenblick_cmd \<Rightarrow> 'k glue \<Rightarrow> 'k glue option" where
  "set_select_command K c s =
     (case u c of
        U_set_socket_select sel pid \<Rightarrow>
          do { i \<leftarrow> cmd_conn c;
               let s1 = upd_satelite i (\<lambda>d. d\<lparr>sd_parent_idx := sel, sd_apppid := pid\<rparr>) s;
               announce K (sd_socket (socket_satelite_data s1 i)) i s1 }
      | _ \<Rightarrow> None)"

definition tx_pool_empty_command :: "ipaugenblick_cmd \<Rightarrow> 'k glue \<Rightarrow> 'k glue option" where
  "tx_pool_empty_command c s =
     do { i \<leftarrow> cmd_conn c;
          case sd_socket (socket_satelite_data s i) of None \<Rightarrow> Some s
          | Some so \<Rightarrow>
            if buffers_available_notification_queue_present (sockets s so) then Some s
            else (let s1 = buffers_available_queue_put so s in
                  if sock_type (sockets s1 so) = SOCK_DGRAM then set_tx_space i so s1 else Some s1) }"

definition connect_client_command :: "u8 list \<Rightarrow> dev_table \<Rightarrow> ipaugenblick_cmd \<Rightarrow> 'k glue \<Rightarrow> 'k glue option" where
  "connect_client_command junk T c s =
     (let i = ringset_idx c in
      if i \<ge> IPAUGENBLICK_CLIENTS_POOL_SIZE then Some s
      else if client_is_busy s i then Some s
      else on_client_connect junk T i
             (s\<lparr>clients_list := clients_list s @ [i], client_is_busy := (client_is_busy s)(i := True)\<rparr>))"

definition disconnect_client_command :: "ipaugenblick_cmd \<Rightarrow> 'k glue \<Rightarrow> 'k glue" where
  "disconnect_client_command c s =
     (let i = ringset_idx c in
      if i \<ge> IPAUGENBLICK_CLIENTS_POOL_SIZE then s
      else if client_is_busy s i
           then s\<lparr>clients_list := remove1 i (clients_list s), client_is_busy := (client_is_busy s)(i := False)\<rparr>
      else s)"

definition setsockopt_command :: "'k kops \<Rightarrow> ipaugenblick_cmd \<Rightarrow> 'k glue \<Rightarrow> 'k glue option" where
  "setsockopt_command K c s =
     do { i \<leftarrow> cmd_conn c;
          case sd_socket (socket_satelite_data s i) of None \<Rightarrow> Some s
          | Some so \<Rightarrow>
            (case u c of U_setsockopt level optname optlen optval \<Rightarrow>
               do { (_, s1) \<leftarrow> k_sock_setsockopt K so level optname optval optlen s; Some s1 }
             | _ \<Rightarrow> None) }"

definition shutdown_command :: "'k kops \<Rightarrow> ipaugenblick_cmd \<Rightarrow> 'k glue \<Rightarrow> 'k glue option" where
  "shutdown_command K c s =
     do { i \<leftarrow> cmd_conn c;
          case sd_socket (socket_satelite_data s i) of None \<Rightarrow> Some s
          | Some so \<Rightarrow>
            (case u c of U_socket_shutdown how \<Rightarrow>
               do { (_, s1) \<leftarrow> k_inet_shutdown K so how s; Some (bump user_sockets_shutdown 1 s1) }
             | _ \<Rightarrow> None) }"

definition decline_command :: "'k kops \<Rightarrow> ipaugenblick_cmd \<Rightarrow> 'k glue \<Rightarrow> 'k glue option" where
  "decline_command K c s =
     (case u c of U_socket_decline so \<Rightarrow>
        do { s1 \<leftarrow> user_flush_rx_tx so s;
             s2 \<leftarrow> app_glue_close_socket K so s1;
             Some (bump user_sockets_closed 1 s2) }
      | _ \<Rightarrow> None)"

text \<open>The entry given to \<open>ip_rt_ioctl\<close> is made of the fields of the command.\<close>

definition route_command :: "'k kops \<Rightarrow> bool \<Rightarrow> ipaugenblick_cmd \<Rightarrow> 'k glue \<Rightarrow> 'k glue option" where
  "route_command K add c s = do { (_, s1) \<leftarrow> k_ip_rt_ioctl K add (u c) s; Some s1 }"

definition run_command :: "'k kops \<Rightarrow> u16 list \<Rightarrow> u8 list \<Rightarrow> dev_table \<Rightarrow> ipaugenblick_cmd \<Rightarrow> 'k glue \<Rightarrow> 'k glue option" where
  "run_command K ports junk T c s =
     (case cmd c of
        IPAUGENBLICK_OPEN_SOCKET_COMMAND \<Rightarrow> open_socket_command K c s
      | IPAUGENBLICK_SOCKET_CONNECT_BIND_COMMAND \<Rightarrow> connect_bind_command K ports c s
      | IPAUGENBLICK_LISTEN_SOCKET_COMMAND \<Rightarrow> listen_command K c s
      | IPAUGENBLICK_SOCKET_CLOSE_COMMAND \<Rightarrow> close_command K c s
      | IPAUGENBLICK_SOCKET_TX_KICK_COMMAND \<Rightarrow> tx_kick_command K c s
      | IPAUGENBLICK_SOCKET_RX_KICK_COMMAND \<Rightarrow> rx_kick_command K c s
      | IPAUGENBLICK_SET_SOCKET_RING_COMMAND \<Rightarrow> set_ring_command K c s
      | IPAUGENBLICK_SET_SOCKET_SELECT_COMMAND \<Rightarrow> set_select_command K c s
      | IPAUGENBLICK_SOCKET_TX_POOL_EMPTY_COMMAND \<Rightarrow> tx_pool_empty_command c s
      | IPAUGENBLICK_ROUTE_ADD_COMMAND \<Rightarrow> route_command K True c s
      | IPAUGENBLICK_ROUTE_DEL_COMMAND \<Rightarrow> route_command K False c s
      | IPAUGENBLICK_CONNECT_CLIENT \<Rightarrow> connect_client_command junk T c s
      | IPAUGENBLICK_DISCONNECT_CLIENT \<Rightarrow> Some (disconnect_client_command c s)
      | IPAUGENBLICK_SETSOCKOPT_COMMAND \<Rightarrow> setsockopt_command K c s
      | IPAUGENBLICK_SOCKET_SHUTDOWN_COMMAND \<Rightarrow> shutdown_command K c s
      | IPAUGENBLICK_SOCKET_DECLINE_COMMAND \<Rightarrow> decline_command K c s
      | _ \<Rightarrow> Some s)"

definition process_commands :: "'k kops \<Rightarrow> u16 list \<Rightarrow> u8 list \<Rightarrow> dev_table \<Rightarrow> 'k glue \<Rightarrow> 'k glue option" where
  "process_commands K ports junk T s =
     (case ipaugenblick_dequeue_command_buf (mem s) of
        (None, m) \<Rightarrow> Some (s\<lparr>mem := m\<rparr>)
      | (Some p, m) \<Rightarrow>
          do { s1 \<leftarrow> run_command K ports junk T (cmds m p) (s\<lparr>mem := m\<rparr>);
               m' \<leftarrow> ipaugenblick_free_command_buf p (mem s1);
               Some (s1\<lparr>mem := m'\<rparr>) })"

section \<open>The main loop\<close>

text \<open>
  Tell the applications that ran out of buffers that there are some again. \<open>rv\<close> is the value of
  \<open>ipaugenblick_mark_writable\<close> where it returns none.
\<close>

partial_function (option) notify_loop :: "int \<Rightarrow> 'k glue \<Rightarrow> 'k glue option" where
  "notify_loop rv s =
     (case buffers_available_list s of [] \<Rightarrow> Some s
      | so # _ \<Rightarrow>
        if get_buffer_count s > 0
        then do { od \<leftarrow> get_user_data so s;
                  d \<leftarrow> od;
                  dso \<leftarrow> sd_socket (socket_satelite_data s d);
                  s1 \<leftarrow> (if sock_type (sockets s dso) = SOCK_DGRAM then set_tx_space d dso s else Some s);
                  (r, s2) \<leftarrow> ipaugenblick_mark_writable rv d s1;
                  if r = 0 then notify_loop rv (buffers_available_queue_del so s2) else Some s2 }
        else Some s)"

definition main_loop_round ::
  "'k kops \<Rightarrow> u16 list \<Rightarrow> u8 list \<Rightarrow> dev_table \<Rightarrow> int \<Rightarrow> (nat \<Rightarrow> u64) \<Rightarrow> poll_state \<times> 'k glue \<Rightarrow> (poll_state \<times> 'k glue) option" where
  "main_loop_round K ports junk T rv tsc ps =
     do { s1 \<leftarrow> process_commands K ports junk T (snd ps);
          (p, s2) \<leftarrow> app_glue_periodic K tsc True [0] (fst ps, s1);
          s3 \<leftarrow> notify_loop rv s2;
          Some (p, s3) }"

section \<open>What the commands keep\<close>

lemma alloc_rings:
  "rte_pktmbuf_alloc m = Some (b, m') \<Longrightarrow> command_ring m' = command_ring m \<and> free_command_pool m' = free_command_pool m"
  by (auto simp: rte_pktmbuf_alloc_def split: Option.bind_splits list.splits)

lemma send_record_view: "send_record c bytes len s = Some (x, s') \<Longrightarrow> full_view s' = full_view s"
  by (auto simp: send_record_def get_buffer_def Let_def split: Option.bind_splits option.splits dest!: alloc_rings)

lemma set_tx_space_view: "set_tx_space d so s = Some s' \<Longrightarrow> full_view s' = full_view s"
  by (auto simp: set_tx_space_def user_set_socket_tx_space_def split: Option.bind_splits)

context glue_property
begin

lemma I_upd_sk:
  assumes "sk_socket k = sk_socket (socks s j)"
  shows "I (s\<lparr>socks := (socks s)(j := k)\<rparr>) = I s"
  by (rule I_view) (use assms in \<open>auto simp: full_view_def glue_view_def\<close>)

lemma I_satelite [simp]: "I (s\<lparr>socket_satelite_data := d\<rparr>) = I s"
  by (rule I_view) simp

lemma service_ops_keep:
  assumes "I s"
  shows "keeps snd (send_record c bytes len s)" "keeps (\<lambda>x. x) (set_tx_space d so s)"
    "keeps (\<lambda>x. x) (app_glue_set_user_data so ud s)"
  using assms by (auto intro!: keeps_view dest: send_record_view set_tx_space_view set_user_data_view)

lemmas service_seq = keep_seq service_ops_keep [THEN keeps_bind] keeps_pure_bind [where m = "cmd_conn c" for c]

lemma on_client_connect_keeps: "I s \<Longrightarrow> keeps (\<lambda>x. x) (on_client_connect junk T c s)"
  by (auto simp: on_client_connect_def Let_def intro!: service_seq)

lemma bind_random_keeps:
  "stack_ok K \<Longrightarrow> I s \<Longrightarrow> keeps (\<lambda>x. x) (bind_random K ports so sk s)"
  by (induction ports arbitrary: s) (auto intro!: service_seq)

lemma connect_keeps: "stack_ok K \<Longrightarrow> I s \<Longrightarrow> keeps snd (app_glue_v4_connect K ports so ip port s)"
  by (auto simp: app_glue_v4_connect_def Let_def I_upd_sk
      intro!: bind_random_keeps [THEN keeps_bind] service_seq split: option.split)

lemma listen_keeps: "stack_ok K \<Longrightarrow> I s \<Longrightarrow> keeps snd (app_glue_v4_listen K so s)"
  by (auto simp: app_glue_v4_listen_def I_upd_sk intro!: service_seq)

lemma announce_keeps: "stack_ok K \<Longrightarrow> I s \<Longrightarrow> keeps (\<lambda>x. x) (announce K oso i s)"
  by (auto simp: announce_def intro!: data_available_keeps [THEN keeps_bind] service_seq keep_ops)

lemma write_space_keeps:
  fixes K :: "'k kops"
  assumes "stack_ok K" "I s" "sk_write_space (socks s sk) = App_glue_sock_write_space"
  shows "keeps (\<lambda>x. x) (app_glue_sock_write_space sk s)"
proof -
  have "handle_event K (Ev_write_space sk) s = app_glue_sock_write_space sk s"
    using assms(3) by (simp add: handle_event_def run_handler_def)
  then have "kstep K s s'" if "app_glue_sock_write_space sk s = Some s'" for s'
    using that by (intro kstep.event) simp
  then show ?thesis using I_kstep assms by (auto simp: keeps_def)
qed

lemma create_socket_keeps: "stack_ok K \<Longrightarrow> I s \<Longrightarrow> keeps snd (app_glue_create_socket K family ty s)"
  by (auto simp: app_glue_create_socket_def I_upd_sk intro!: service_seq write_space_keeps [THEN keeps_bind]
      split: option.split)

lemma open_keeps: "stack_ok K \<Longrightarrow> I s \<Longrightarrow> keeps (\<lambda>x. x) (open_socket_command K c s)"
  by (auto simp: open_socket_command_def intro!: create_socket_keeps [THEN keeps_bind] service_seq service_ops_keep
      split: cmd_union.split option.split)

lemma connect_bind_keeps: "stack_ok K \<Longrightarrow> I s \<Longrightarrow> keeps (\<lambda>x. x) (connect_bind_command K ports c s)"
  by (auto simp: connect_bind_command_def app_glue_v4_bind_def
      intro!: connect_keeps [THEN keeps_bind] service_seq split: cmd_union.split option.split)

lemma set_ring_keeps: "stack_ok K \<Longrightarrow> I s \<Longrightarrow> keeps (\<lambda>x. x) (set_ring_command K c s)"
  by (auto simp: set_ring_command_def intro!: announce_keeps [THEN keeps_bind] service_seq split: cmd_union.split)

lemma set_select_keeps: "stack_ok K \<Longrightarrow> I s \<Longrightarrow> keeps (\<lambda>x. x) (set_select_command K c s)"
  by (auto simp: set_select_command_def intro!: announce_keeps service_seq split: cmd_union.split)

lemma kick_keeps:
  assumes "stack_ok K" "I s"
  shows "keeps (\<lambda>x. x) (tx_kick_command K c s)" "keeps (\<lambda>x. x) (rx_kick_command K c s)"
  using assms by (auto simp: tx_kick_command_def rx_kick_command_def
      intro!: transmission_keeps data_available_keeps service_seq split: option.split)

lemma I_clients [simp]: "I (s\<lparr>clients_list := l, client_is_busy := b\<rparr>) = I s"
  by (rule I_view) (simp add: full_view_def glue_view_def)

lemma plain_command_keeps:
  assumes "stack_ok K" "I s" "cmd c \<noteq> IPAUGENBLICK_SOCKET_CLOSE_COMMAND"
    "cmd c \<noteq> IPAUGENBLICK_SOCKET_DECLINE_COMMAND" "cmd c \<noteq> IPAUGENBLICK_SOCKET_TX_POOL_EMPTY_COMMAND"
  shows "keeps (\<lambda>x. x) (run_command K ports junk T c s)"
  using assms
  by (cases "cmd c")
    (auto simp: run_command_def listen_command_def setsockopt_command_def shutdown_command_def route_command_def
      connect_client_command_def disconnect_client_command_def Let_def
      intro!: open_keeps connect_bind_keeps set_ring_keeps set_select_keeps kick_keeps on_client_connect_keeps
        listen_keeps [THEN keeps_bind] service_seq keeps_pure_bind [where m = "sd_socket d" for d]
      split: cmd_union.split option.split)

end

section \<open>Closing commands and the command buffers\<close>

abbreviation same_cmds :: "'k glue \<Rightarrow> 'k glue \<Rightarrow> bool" where
  "same_cmds s s' \<equiv> command_ring (mem s') = command_ring (mem s) \<and> free_command_pool (mem s') = free_command_pool (mem s)"

lemma stack_call_commands: "stack_call K f \<Longrightarrow> stack_ok K \<Longrightarrow> f s = Some (x, s') \<Longrightarrow> same_cmds s s'"
  using cmds.stack_keeps [where cr = "command_ring (mem s)" and fp = "free_command_pool (mem s)" and s = s]
  by (auto simp: cmds.keeps_def)

lemma k_close_commands:
  assumes ok: "stack_ok K" and run: "k_close K so s = Some (x, s')"
  shows "same_cmds s s'"
proof -
  obtain s1 s2 where s12: "(kstep K)\<^sup>*\<^sup>* s s1" "kernel_private {so} s1 s2" "(kstep K)\<^sup>*\<^sup>* s2 s'"
    using ok run unfolding stack_ok_def by meson
  have "same_cmds s s1" "same_cmds s2 s'"
    using cmds.ksteps_keep [OF s12(1) ok] cmds.ksteps_keep [OF s12(3) ok] by auto
  then show ?thesis using s12(2) by (auto simp: kernel_private_def)
qed

lemma close_pending_commands:
  assumes "close_pending K so s = Some s'" "stack_ok K"
  shows "same_cmds s s'"
  using assms
proof (induction rule: close_pending.raw_induct [rotated, consumes 1])
  case (1 loop K so s s')
  obtain r s1 where s1: "k_accept K so s = Some (r, s1)"
    and rest: "(case r of None \<Rightarrow> Some s1
      | Some newsock \<Rightarrow> do { (_, s2) \<leftarrow> k_close K newsock s1; loop K so s2 }) = Some s'"
    using 1(2) by (auto split: Option.bind_splits)
  have "same_cmds s s1" using stack_call_commands [OF stack_okD(6) [OF 1(3)] 1(3) s1] .
  then show ?case
    using rest 1(1,3) k_close_commands [OF 1(3)] by (fastforce split: option.splits Option.bind_splits)
qed

lemma queue_del_mem [simp]:
  "mem (read_queue_del a s) = mem s" "mem (write_queue_del a s) = mem s" "mem (accept_queue_del a s) = mem s"
  "mem (closed_queue_del a s) = mem s" "mem (buffers_available_queue_del a s) = mem s"
  "mem (buffers_available_queue_put a s) = mem s"
  by (simp_all add: read_queue_del_def write_queue_del_def accept_queue_del_def closed_queue_del_def
      buffers_available_queue_del_def buffers_available_queue_put_def)

lemma close_socket_commands:
  assumes "stack_ok K" "app_glue_close_socket K so s = Some s'"
  shows "same_cmds s s'"
  using assms(2)
  by (auto simp: app_glue_close_socket_def Let_def split: if_splits Option.bind_splits
      dest!: k_close_commands [OF assms(1)] close_pending_commands [OF _ assms(1)])

lemma flush_commands: "user_flush_rx_tx so s = Some s' \<Longrightarrow> same_cmds s s'"
  using cmds.flush_rx_tx_keeps [where cr = "command_ring (mem s)" and fp = "free_command_pool (mem s)" and s = s]
  by (auto simp: cmds.keeps_def)

lemma close_commands:
  assumes "stack_ok K"
  shows "close_command K c s = Some s' \<Longrightarrow> same_cmds s s'" "decline_command K c s = Some s' \<Longrightarrow> same_cmds s s'"
    "tx_pool_empty_command c s = Some s' \<Longrightarrow> same_cmds s s'"
  by (auto simp: close_command_def decline_command_def tx_pool_empty_command_def ipaugenblick_free_socket_def
      set_tx_space_def user_set_socket_tx_space_def Let_def bump_def
      split: Option.bind_splits option.splits cmd_union.splits if_splits
      dest!: flush_commands close_socket_commands [OF assms])

lemma run_command_commands:
  assumes "stack_ok K" "run_command K ports junk T c s = Some s'"
  shows "same_cmds s s'"
proof -
  consider "cmd c = IPAUGENBLICK_SOCKET_CLOSE_COMMAND" | "cmd c = IPAUGENBLICK_SOCKET_DECLINE_COMMAND" |
    "cmd c = IPAUGENBLICK_SOCKET_TX_POOL_EMPTY_COMMAND" |
    "cmd c \<noteq> IPAUGENBLICK_SOCKET_CLOSE_COMMAND" "cmd c \<noteq> IPAUGENBLICK_SOCKET_DECLINE_COMMAND"
    "cmd c \<noteq> IPAUGENBLICK_SOCKET_TX_POOL_EMPTY_COMMAND" by blast
  then show ?thesis
  proof cases
    case 4
    then show ?thesis
      using cmds.plain_command_keeps [where cr = "command_ring (mem s)" and fp = "free_command_pool (mem s)",
          OF assms(1) _ 4, of s ports junk T] assms(2) by (auto simp: cmds.keeps_def)
  qed (use assms close_commands [OF assms(1)] in \<open>auto simp: run_command_def\<close>)
qed

section \<open>Closing commands and the queues\<close>

text \<open>
  What the three commands that add a socket to the notification queue or free one rely on: the
  socket is allocated, or it is neither listening for connections nor waiting for buffers.
\<close>

definition closable :: "nat \<Rightarrow> 'k glue \<Rightarrow> bool" where
  "closable so s \<longleftrightarrow> \<not> accept_queue_present (sockets s so) \<and>
     \<not> buffers_available_notification_queue_present (sockets s so)"

definition command_safe :: "ipaugenblick_cmd \<Rightarrow> 'k glue \<Rightarrow> bool" where
  "command_safe c s \<longleftrightarrow>
     (case cmd c of
        IPAUGENBLICK_SOCKET_CLOSE_COMMAND \<Rightarrow>
          (case sd_socket (socket_satelite_data s (ringset_idx c)) of None \<Rightarrow> True | Some so \<Rightarrow> closable so s)
      | IPAUGENBLICK_SOCKET_DECLINE_COMMAND \<Rightarrow> (case u c of U_socket_decline so \<Rightarrow> closable so s | _ \<Rightarrow> True)
      | IPAUGENBLICK_SOCKET_TX_POOL_EMPTY_COMMAND \<Rightarrow>
          (case sd_socket (socket_satelite_data s (ringset_idx c)) of None \<Rightarrow> True | Some so \<Rightarrow> live s so)
      | _ \<Rightarrow> True)"

lemma command_safe_mem [simp]: "command_safe c (s\<lparr>mem := m\<rparr>) = command_safe c s"
  by (auto simp: command_safe_def closable_def split: cmd_code.split option.split cmd_union.split)

lemma flush_closable:
  assumes "user_flush_rx_tx so s = Some s'"
  shows "closable a s' = closable a s"
  using full_viewD [OF flush_view [OF assms]] by (simp add: closable_def glue_view_def fun_eq_iff)

lemma close_after_flush_inv:
  assumes ok: "stack_ok K" and inv: "glue_inv r w s" and "closable so s"
    and run: "user_flush_rx_tx so s = Some s1" "app_glue_close_socket K so s1 = Some s2"
  shows "glue_inv r w s2"
proof -
  have "glue_inv r w s1" "closable so s1"
    using inv.keepsD [OF inv.flush_rx_tx_keeps [OF inv] run(1)] flush_closable [OF run(1)] assms(3) by auto
  then show ?thesis
    using close_socket_inv [OF ok _ _ _ run(2)] by (auto simp: closable_def)
qed

lemma close_command_inv:
  assumes ok: "stack_ok K" and inv: "glue_inv r w s" and run: "close_command K c s = Some s'"
    and safe: "case sd_socket (socket_satelite_data s (ringset_idx c)) of None \<Rightarrow> True | Some so \<Rightarrow> closable so s"
  shows "glue_inv r w s'"
proof (cases "sd_socket (socket_satelite_data s (ringset_idx c))")
  case None
  then show ?thesis using run inv by (auto simp: close_command_def cmd_conn_def split: if_splits)
next
  case (Some so)
  then obtain s1 s2 s3 where s12: "user_flush_rx_tx so s = Some s1" "app_glue_close_socket K so s1 = Some s2"
    and s3: "ipaugenblick_free_socket (ringset_idx c) (upd_satelite (ringset_idx c)
      (\<lambda>d. d\<lparr>sd_socket := None, sd_ringset_idx := -1, sd_parent_idx := -1\<rparr>) s2) = Some s3"
    and s': "s' = bump user_sockets_closed 1 s3"
    using run by (auto simp: close_command_def cmd_conn_def split: if_splits Option.bind_splits)
  have "glue_inv r w s2" using close_after_flush_inv [OF ok inv _ s12] safe Some by simp
  then show ?thesis
    using s3 s' by (auto simp: ipaugenblick_free_socket_def split: Option.bind_splits)
qed

lemma decline_command_inv:
  assumes ok: "stack_ok K" and inv: "glue_inv r w s" and run: "decline_command K c s = Some s'"
    and safe: "case u c of U_socket_decline so \<Rightarrow> closable so s | _ \<Rightarrow> True"
  shows "glue_inv r w s'"
proof (cases "u c")
  case (U_socket_decline so)
  then obtain s1 s2 where s12: "user_flush_rx_tx so s = Some s1" "app_glue_close_socket K so s1 = Some s2"
    and s': "s' = bump user_sockets_closed 1 s2"
    using run by (auto simp: decline_command_def split: Option.bind_splits)
  then show ?thesis using close_after_flush_inv [OF ok inv _ s12] safe U_socket_decline by simp
qed (use run in \<open>auto simp: decline_command_def\<close>)

lemma pool_empty_command_inv:
  assumes inv: "glue_inv r w s" and run: "tx_pool_empty_command c s = Some s'"
    and safe: "case sd_socket (socket_satelite_data s (ringset_idx c)) of None \<Rightarrow> True | Some so \<Rightarrow> live s so"
  shows "glue_inv r w s'"
proof (cases "sd_socket (socket_satelite_data s (ringset_idx c))")
  case None
  then show ?thesis using run inv by (auto simp: tx_pool_empty_command_def cmd_conn_def split: if_splits)
next
  case (Some so)
  then show ?thesis
    using run inv inv_buffers_put [OF inv, of so] safe
      inv.keepsD [OF inv.service_ops_keep(2) [of r w "buffers_available_queue_put so s"]]
    by (auto simp: tx_pool_empty_command_def cmd_conn_def Let_def split: if_splits)
qed

lemma run_command_inv:
  assumes ok: "stack_ok K" and inv: "glue_inv 0 0 s" and safe: "command_safe c s"
    and run: "run_command K ports junk T c s = Some s'"
  shows "glue_inv 0 0 s'"
proof -
  have close: "glue_inv 0 0 s'" if c: "cmd c = IPAUGENBLICK_SOCKET_CLOSE_COMMAND"
    using run close_command_inv [OF ok inv] safe c by (auto simp: run_command_def command_safe_def)
  have decline: "glue_inv 0 0 s'" if c: "cmd c = IPAUGENBLICK_SOCKET_DECLINE_COMMAND"
    using run decline_command_inv [OF ok inv] safe c by (auto simp: run_command_def command_safe_def)
  have pool: "glue_inv 0 0 s'" if c: "cmd c = IPAUGENBLICK_SOCKET_TX_POOL_EMPTY_COMMAND"
    using run pool_empty_command_inv [OF inv] safe c by (auto simp: run_command_def command_safe_def)
  show ?thesis
    using close decline pool inv.keepsD [OF inv.plain_command_keeps [OF ok inv] run] by blast
qed

section \<open>Properties\<close>

text \<open>A command to shut down connection 3 is waiting in buffer 7.\<close>

definition shutdown_glue :: "unit glue" where
  "shutdown_glue = small_glue\<lparr>mem := upd_cmd 7 (\<lambda>_. \<lparr>cmd = IPAUGENBLICK_SOCKET_SHUTDOWN_COMMAND, ringset_idx = 3,
     parent_idx = -1, u = U_socket_shutdown 1\<rparr>) (small_shm\<lparr>command_ring := enq_step (rte_ring_init 0 8 2) [7] 1\<rparr>)\<rparr>"

lemma shutdown_ring: "ring_ok (enq_step (rte_ring_init 0 8 2) [7 :: nat] 1)"
    "ring_list (enq_step (rte_ring_init 0 8 2) [7 :: nat] 1) = [7]"
  using ring_init8_filled [of "[7 :: nat]" 0 2] by simp_all

lemma shutdown_runs: "\<exists>s'. process_commands idle_stack [] [] T shutdown_glue = Some s'"
  using shutdown_ring
  by (simp add: process_commands_def shutdown_glue_def dequeue_command_buf_ok run_command_def shutdown_command_def
      cmd_conn_def idle_stack_def free_command_buf_ok small_srv_def bump_def)

text \<open>
  C10. Every command the service takes from the command ring is executed once and its buffer is
  given back to the pool: the ring loses its first entry, the pool gains it, and nothing else
  happens to either, whatever the command and whatever the stack does meanwhile.
\<close>

theorem process_commands_recycles:
  assumes ok: "stack_ok K" and rings: "ring_ok (command_ring (mem s))" "ring_ok (free_command_pool (mem s))"
    and first: "ring_list (command_ring (mem s)) = p # q"
    and room: "length (ring_list (free_command_pool (mem s))) < ring_cap (free_command_pool (mem s))"
    and run: "process_commands K ports junk T s = Some s'"
  shows "ring_list (command_ring (mem s')) = q \<and>
    ring_list (free_command_pool (mem s')) = ring_list (free_command_pool (mem s)) @ [p]"
proof -
  let ?m = "(mem s)\<lparr>command_ring := deq_step (command_ring (mem s)) 1\<rparr>"
  obtain s1 m' where s1: "run_command K ports junk T (cmds ?m p) (s\<lparr>mem := ?m\<rparr>) = Some s1"
    and m': "ipaugenblick_free_command_buf p (mem s1) = Some m'" and s': "s' = s1\<lparr>mem := m'\<rparr>"
    using run rings first by (auto simp: process_commands_def dequeue_command_buf_ok split: Option.bind_splits)
  have same: "same_cmds (s\<lparr>mem := ?m\<rparr>) s1"
    using run_command_commands [OF ok s1] .
  then show ?thesis
    using m' s' rings room first ring_pop [of "command_ring (mem s)"] ring_push [of "free_command_pool (mem s)" p]
    by (auto simp: free_command_buf_ok)
qed

theorem process_commands_recycles_witness:
  "\<exists>s'. process_commands idle_stack [] [] \<lparr>dev_name = (\<lambda>_. None), port_number = (\<lambda>_. -1), ip_addr = (\<lambda>_. 0)\<rparr>
      shutdown_glue = Some s' \<and>
    ring_list (command_ring (mem s')) = [] \<and> ring_list (free_command_pool (mem s')) = [0, 1, 2, 7]"
proof -
  obtain s' where run: "process_commands idle_stack [] []
      \<lparr>dev_name = (\<lambda>_. None), port_number = (\<lambda>_. -1), ip_addr = (\<lambda>_. 0)\<rparr> shutdown_glue = Some s'"
    using shutdown_runs by blast
  then show ?thesis
    using process_commands_recycles [OF idle_stack_ok _ _ _ _ run, of 7 "[]"] shutdown_ring
    by (simp add: shutdown_glue_def)
qed



end
