(* ===== verification/Api_State.thy ===== *)
theory Api_State
  imports Ipaug_Server "HOL-Library.Multiset"
begin

unbundle bit_operations_syntax

text \<open>
  What an application linked with \<open>service/ipaugenblick_app_api\<close> keeps, and the operations its
  calls share: posting a command (\<open>ipaugenblick_api.c\<close>), the rings of a connection
  (\<open>ipaugenblick_ring_ops.h\<close>) and the cache of ready sockets. The rings and pools an application
  looks up by name are those of the shared memory; \<open>tx_ring\<close> and \<open>rx_ring\<close> of local descriptor
  \<open>i\<close> are the data rings of connection \<open>i\<close>. A socket is an index into
  \<open>local_socket_descriptors\<close>; using one out of range makes the result \<open>None\<close>, as does reading
  a command through a packet buffer pointer. What is only logged is left out.
\<close>

section \<open>State (ipaugenblick_ring_ops.h, ipaugenblick_api.c)\<close>

record local_socket_descriptor_t =
  ld_socket :: "nat option"
  ld_select :: int
  local_cache :: "void_ptr rte_ring"
  any_event_received :: bool
  shadow :: "nat option"
  shadow_next :: "nat option"
  shadow_len_remainder :: int
  shadow_len_delievered :: int
  ld_local_ipaddr :: u32
  ld_local_port :: u32
  ld_remote_ipaddr :: u32
  ld_remote_port :: u32
  present_in_ready_cache :: bool
  local_mask :: u32

record selector_t =
  local_ready_cache :: "nat list"
  queue_length :: int
  level_mode :: bool

datatype app_stat =
    stats_receive_called | stats_send_called | stats_rx_kicks_sent | stats_tx_kicks_sent
  | stats_rx_dequeued | stats_rx_dequeued_local | stats_select_called | stats_select_returned
  | stats_tx_buf_allocation_failure | stats_send_failure | stats_recv_failure
  | stats_buffers_sent | stats_buffers_allocated | stats_cannot_allocate_cmd
  | stats_rx_returned | stats_accepted | stats_flush_local | stats_flush

text \<open>
  \<open>updates\<close> are the calls of \<open>ipaugenblick_update_cbk\<close>, oldest first; \<open>getpid\<close> is the
  process id.
\<close>

record app =
  sm :: shm
  getpid :: nat
  local_socket_descriptors :: "nat \<Rightarrow> local_socket_descriptor_t"
  selectors :: "nat \<Rightarrow> selector_t"
  app_stats :: "app_stat \<Rightarrow> u64"
  client_ring :: "nat option"
  g_client_ringset_idx :: u32
  ipaugenblick_update_cbk :: bool
  updates :: "(u8 \<times> u8 list) list"

abbreviation upd_ld :: "nat \<Rightarrow> (local_socket_descriptor_t \<Rightarrow> local_socket_descriptor_t) \<Rightarrow> app \<Rightarrow> app" where
  "upd_ld i f s \<equiv> s\<lparr>local_socket_descriptors := (local_socket_descriptors s)(i := f (local_socket_descriptors s i))\<rparr>"

abbreviation upd_selector :: "nat \<Rightarrow> (selector_t \<Rightarrow> selector_t) \<Rightarrow> app \<Rightarrow> app" where
  "upd_selector p f s \<equiv> s\<lparr>selectors := (selectors s)(p := f (selectors s p))\<rparr>"

definition stat_add :: "app_stat \<Rightarrow> u64 \<Rightarrow> app \<Rightarrow> app" where
  "stat_add c n s = s\<lparr>app_stats := (app_stats s)(c := app_stats s c + n)\<rparr>"

text \<open>\<open>sock & SOCKET_READY_MASK\<close> as an index.\<close>

definition masked_idx :: "int \<Rightarrow> nat option" where
  "masked_idx sock = conn_idx (sock AND 0xFFFF)"

section \<open>Posting a command\<close>

definition get_command :: "app \<Rightarrow> (nat option \<times> app) option" where
  "get_command s = do { (c, m) \<leftarrow> ipaugenblick_get_free_command_buf (sm s); Some (c, s\<lparr>sm := m\<rparr>) }"

text \<open>The start of most calls: no command buffer is counted as a failure.\<close>

definition alloc_command :: "app \<Rightarrow> (nat option \<times> app) option" where
  "alloc_command s =
     do { (c, s1) \<leftarrow> get_command s;
          Some (c, if c = None then stat_add stats_cannot_allocate_cmd 1 s1 else s1) }"

text \<open>Fill in the command and enqueue it; on a full ring it is freed and the result is \<open>True\<close>.\<close>

definition post_command :: "nat \<Rightarrow> (ipaugenblick_cmd \<Rightarrow> ipaugenblick_cmd) \<Rightarrow> app \<Rightarrow> (bool \<times> app) option" where
  "post_command c f s =
     do { (full, m) \<leftarrow> ipaugenblick_enqueue_command_buf c (upd_cmd c f (sm s));
          if full then do { m' \<leftarrow> ipaugenblick_free_command_buf c m; Some (True, s\<lparr>sm := m'\<rparr>) }
          else Some (False, s\<lparr>sm := m\<rparr>) }"

text \<open>An \<open>int\<close> stored in an \<open>unsigned int\<close>.\<close>

definition unsigned_int :: "int \<Rightarrow> nat" where
  "unsigned_int i = nat (i mod 2 ^ 32)"

section \<open>The rings of a connection (ipaugenblick_ring_ops.h)\<close>

definition ipaugenblick_enqueue_tx_buf :: "nat \<Rightarrow> nat \<Rightarrow> app \<Rightarrow> bool \<times> app" where
  "ipaugenblick_enqueue_tx_buf i mbuf s =
     (case rte_ring_sp_enqueue_bulk (tx_rings (sm s) i) [mbuf] 1 of
        (ret, r) \<Rightarrow> (ret = - ENOBUFS, s\<lparr>sm := (sm s)\<lparr>tx_rings := (tx_rings (sm s))(i := r)\<rparr>\<rparr>))"

definition ipaugenblick_enqueue_tx_bufs_bulk :: "nat \<Rightarrow> nat list \<Rightarrow> app \<Rightarrow> bool \<times> app" where
  "ipaugenblick_enqueue_tx_bufs_bulk i bs s =
     (case rte_ring_sp_enqueue_bulk (tx_rings (sm s) i) bs (of_nat (length bs)) of
        (ret, r) \<Rightarrow> (ret = - ENOBUFS, s\<lparr>sm := (sm s)\<lparr>tx_rings := (tx_rings (sm s))(i := r)\<rparr>\<rparr>))"

definition ipaugenblick_socket_tx_space :: "nat \<Rightarrow> app \<Rightarrow> int" where
  "ipaugenblick_socket_tx_space i s = sint (rte_ring_free_count (tx_rings (sm s) i))"

definition mbuf_of :: "void_ptr \<Rightarrow> nat option" where
  "mbuf_of v = (case v of MbufPtr b \<Rightarrow> Some b | CmdPtr _ \<Rightarrow> None)"

text \<open>Take one entry off the local cache; \<open>None\<close> inside when it is empty.\<close>

definition cache_get :: "nat \<Rightarrow> app \<Rightarrow> void_ptr option \<times> app" where
  "cache_get i s =
     (case rte_ring_sc_dequeue_bulk (local_cache (local_socket_descriptors s i)) 1 of
        (ret, vs, r) \<Rightarrow>
          (if ret = 0 then Some (hd vs) else None, upd_ld i (\<lambda>d. d\<lparr>local_cache := r\<rparr>) s))"

text \<open>Move a burst from the ring of the connection to the local cache.\<close>

definition refill_size :: "'a rte_ring \<Rightarrow> u32" where
  "refill_size r =
     (if rte_ring_free_count r > of_nat MAX_PKT_BURST then of_nat MAX_PKT_BURST else rte_ring_free_count r)"

definition cache_refill :: "nat \<Rightarrow> app \<Rightarrow> app" where
  "cache_refill i s =
     (if rte_ring_count (rx_rings (sm s) i) > 0
      then let n = refill_size (local_cache (local_socket_descriptors s i)) in
           if sint n > 0
           then case rte_ring_sc_dequeue_burst (rx_rings (sm s) i) n of
                  (k, vs, r) \<Rightarrow>
                    let s1 = s\<lparr>sm := (sm s)\<lparr>rx_rings := (rx_rings (sm s))(i := r)\<rparr>\<rparr> in
                    if k > 0
                    then upd_ld i (\<lambda>d. d\<lparr>local_cache :=
                             snd (rte_ring_sp_enqueue_burst (local_cache d) vs (of_int k))\<rparr>)
                           (stat_add stats_rx_dequeued 1 s1)
                    else s1
           else s
      else s)"

text \<open>
  The kick that follows every read: the result of the enqueue is ignored, so a full command
  ring loses the command buffer.
\<close>

definition send_rx_kick :: "int \<Rightarrow> app \<Rightarrow> app option" where
  "send_rx_kick sock s =
     do { (oc, s1) \<leftarrow> get_command s;
          case oc of None \<Rightarrow> Some s1
          | Some c \<Rightarrow>
            do { (_, m) \<leftarrow> ipaugenblick_enqueue_command_buf c
                   (upd_cmd c (\<lambda>k. k\<lparr>cmd := IPAUGENBLICK_SOCKET_RX_KICK_COMMAND,
                                     ringset_idx := unsigned_int sock\<rparr>) (sm s1));
                 Some (stat_add stats_rx_kicks_sent 1 (s1\<lparr>sm := m\<rparr>)) } }"

text \<open>The entry to return: from the cache or, when that was empty, from the refilled cache.\<close>

definition next_rx :: "nat \<Rightarrow> nat \<Rightarrow> app \<Rightarrow> void_ptr option \<times> app" where
  "next_rx i g s =
     (let (v, s1) = cache_get i s;
          s2 = s1\<lparr>sm := upd_g_socket g (\<lambda>k. k\<lparr>read_ready_to_app := False\<rparr>) (sm s1)\<rparr>;
          s3 = cache_refill i s2 in
      case v of None \<Rightarrow> cache_get i s3 | Some _ \<Rightarrow> (v, s3))"

definition ipaugenblick_dequeue_rx_buf :: "int \<Rightarrow> app \<Rightarrow> (nat option \<times> app) option" where
  "ipaugenblick_dequeue_rx_buf sock s =
     do { i \<leftarrow> conn_idx sock;
          j \<leftarrow> masked_idx sock;
          g \<leftarrow> ld_socket (local_socket_descriptors s j);
          (case next_rx i g s of
             (None, s1) \<Rightarrow> do { s2 \<leftarrow> send_rx_kick sock s1; Some (None, s2) }
           | (Some p, s1) \<Rightarrow>
               do { b \<leftarrow> mbuf_of p;
                    s2 \<leftarrow> send_rx_kick sock
                            (stat_add stats_rx_dequeued_local (ucast (nb_segs (mbufs (sm s1) b))) s1);
                    Some (Some b, s2) }) }"

partial_function (option) flush_cache_loop :: "nat \<Rightarrow> app \<Rightarrow> app option" where
  "flush_cache_loop i s =
     do { (ret, vs, r) \<leftarrow> rte_ring_dequeue (local_cache (local_socket_descriptors s i));
          if ret \<noteq> 0 then Some s
          else do { b \<leftarrow> mbuf_of (hd vs);
                    m \<leftarrow> rte_pktmbuf_free (Some b) (sm s);
                    flush_cache_loop i
                      (stat_add stats_flush_local (ucast (nb_segs (mbufs (sm s) b)))
                        ((upd_ld i (\<lambda>d. d\<lparr>local_cache := r\<rparr>) s)\<lparr>sm := m\<rparr>)) } }"

partial_function (option) flush_ring_loop :: "nat \<Rightarrow> app \<Rightarrow> app option" where
  "flush_ring_loop i s =
     (case rte_ring_sc_dequeue_burst (rx_rings (sm s) i) 1 of
        (k, vs, r) \<Rightarrow>
          if k \<noteq> 1 then Some s
          else do { b \<leftarrow> mbuf_of (hd vs);
                    m \<leftarrow> rte_pktmbuf_free (Some b) ((sm s)\<lparr>rx_rings := (rx_rings (sm s))(i := r)\<rparr>);
                    flush_ring_loop i
                      (stat_add stats_flush (ucast (nb_segs (mbufs (sm s) b))) (s\<lparr>sm := m\<rparr>)) })"

definition flush_mbuf :: "nat option \<Rightarrow> app \<Rightarrow> app option" where
  "flush_mbuf ob s =
     (case ob of None \<Rightarrow> Some s
      | Some b \<Rightarrow> do { m \<leftarrow> rte_pktmbuf_free (Some b) (sm s);
                       Some (stat_add stats_flush (ucast (nb_segs (mbufs (sm s) b))) (s\<lparr>sm := m\<rparr>)) })"

definition ipaugenblick_flush_rx :: "nat \<Rightarrow> app \<Rightarrow> app option" where
  "ipaugenblick_flush_rx i s =
     do { s1 \<leftarrow> flush_cache_loop i s;
          s2 \<leftarrow> flush_ring_loop i s1;
          s3 \<leftarrow> flush_mbuf (shadow (local_socket_descriptors s2 i)) s2;
          s4 \<leftarrow> flush_mbuf (shadow_next (local_socket_descriptors s3 i)) s3;
          Some (upd_ld i (\<lambda>d. d\<lparr>shadow := None, shadow_next := None,
                               shadow_len_delievered := 0, shadow_len_remainder := 0\<rparr>) s4) }"

section \<open>The cache of ready sockets\<close>

definition ipaugenblick_remove_socket_from_cache :: "nat \<Rightarrow> app \<Rightarrow> app option" where
  "ipaugenblick_remove_socket_from_cache i s =
     (let d = local_socket_descriptors s i in
      if ld_select d \<noteq> -1 \<and> present_in_ready_cache d
      then do { p \<leftarrow> selector_idx (ld_select d);
                if level_mode (selectors s p)
                then Some (upd_selector p (\<lambda>k. k\<lparr>local_ready_cache := remove1 i (local_ready_cache k),
                                                 queue_length := queue_length k - 1\<rparr>)
                            (upd_ld i (\<lambda>d. d\<lparr>present_in_ready_cache := False\<rparr>) s))
                else Some s }
      else Some s)"

definition ipaugenblick_put_to_local_cache :: "nat \<Rightarrow> app \<Rightarrow> app option" where
  "ipaugenblick_put_to_local_cache i s =
     (let d = local_socket_descriptors s i in
      if local_mask d = 0 then Some s
      else if present_in_ready_cache d then Some s
      else do { p \<leftarrow> selector_idx (ld_select d);
                if level_mode (selectors s p)
                then Some (upd_selector p (\<lambda>k. k\<lparr>local_ready_cache := local_ready_cache k @ [i],
                                                 queue_length := queue_length k + 1\<rparr>)
                            (upd_ld i (\<lambda>d. d\<lparr>present_in_ready_cache := True\<rparr>) s))
                else Some s })"

definition ipaugenblick_update_local_ready_cache :: "nat \<Rightarrow> u32 \<Rightarrow> app \<Rightarrow> app option" where
  "ipaugenblick_update_local_ready_cache i bt s =
     (if ld_select (local_socket_descriptors s i) = -1 then Some s
      else let s1 = upd_ld i (\<lambda>d. d\<lparr>local_mask := local_mask d AND NOT bt\<rparr>) s in
           if local_mask (local_socket_descriptors s1 i) \<noteq> 0 then Some s1
           else ipaugenblick_remove_socket_from_cache i s1)"

definition ipaugenblick_reset_local_descriptor :: "nat \<Rightarrow> app \<Rightarrow> app" where
  "ipaugenblick_reset_local_descriptor i s =
     upd_ld i (\<lambda>d. d\<lparr>shadow_len_delievered := 0, shadow_len_remainder := 0, shadow := None,
                      shadow_next := None, present_in_ready_cache := False, local_mask := 0\<rparr>) s"

section \<open>Well-formed applications\<close>

definition app_ok :: "app \<Rightarrow> bool" where
  "app_ok s \<longleftrightarrow> shm_ok (sm s) \<and>
     (\<forall>i < IPAUGENBLICK_CONNECTION_POOL_SIZE.
        ring_ok (local_cache (local_socket_descriptors s i)) \<and> 0 < ring_cap (local_cache (local_socket_descriptors s i)))"

lemma app_okD:
  assumes "app_ok s"
  shows "shm_ok (sm s)" "i < 2048 \<Longrightarrow> ring_ok (local_cache (local_socket_descriptors s i))"
    "i < 2048 \<Longrightarrow> 0 < ring_cap (local_cache (local_socket_descriptors s i))"
  using assms by (simp_all add: app_ok_def)

lemma masked_idx_same [simp]:
  assumes "conn_idx sock = Some i"
  shows "masked_idx sock = Some i"
proof -
  have "0 \<le> sock" "sock < 2 ^ 16"
    using assms by (auto simp: conn_idx_def split: if_splits)
  then have "take_bit 16 sock = sock"
    by (simp add: take_bit_int_eq_self)
  then have "sock AND mask 16 = sock"
    by (simp add: take_bit_eq_mask)
  then show ?thesis
    using assms by (simp add: masked_idx_def mask_numeral)
qed

text \<open>The buffers a connection has received and the application has not seen, oldest first.\<close>

definition pending_rx :: "nat \<Rightarrow> app \<Rightarrow> void_ptr list" where
  "pending_rx i s = ring_list (local_cache (local_socket_descriptors s i)) @ ring_list (rx_rings (sm s) i)"

lemma stat_add_simps [simp]:
  "sm (stat_add c n s) = sm s" "local_socket_descriptors (stat_add c n s) = local_socket_descriptors s"
  "selectors (stat_add c n s) = selectors s" "app_ok (stat_add c n s) = app_ok s"
  "getpid (stat_add c n s) = getpid s" "client_ring (stat_add c n s) = client_ring s"
  "updates (stat_add c n s) = updates s" "pending_rx i (stat_add c n s) = pending_rx i s"
  by (simp_all add: stat_add_def app_ok_def pending_rx_def)

lemma cache_get_ok:
  assumes "ring_ok (local_cache (local_socket_descriptors s i))"
  shows "cache_get i s =
    (case ring_list (local_cache (local_socket_descriptors s i)) of
       [] \<Rightarrow> (None, s)
     | v # _ \<Rightarrow> (Some v, upd_ld i (\<lambda>d. d\<lparr>local_cache := deq_step (local_cache d) 1\<rparr>) s))"
  using assms
  by (auto simp: cache_get_def rte_ring_sc_dequeue_bulk_def sc_dequeue_fixed split: list.split)


lemma refill_size_ok:
  assumes "ring_ok r"
  shows "unat (refill_size r) = min 32 (ring_free r)" "sint (refill_size r) = int (min 32 (ring_free r))"
proof -
  show u: "unat (refill_size r) = min 32 (ring_free r)"
    using rte_ring_free_count_ok [OF assms] by (simp add: refill_size_def word_less_nat_alt min_def)
  then show "sint (refill_size r) = int (min 32 (ring_free r))"
    by (subst sint_small) simp_all
qed

lemma rx_burst_ok:
  assumes "ring_ok r" "m = min (unat n) (length (ring_list r))"
  shows "rte_ring_sc_dequeue_burst r n = (int m, take m (ring_list r), deq_step r (of_nat m))"
    "ring_ok (deq_step r (of_nat m))" "ring_list (deq_step r (of_nat m)) = drop m (ring_list r)"
    "unat (of_nat m :: u32) = m"
proof -
  show m: "unat (of_nat m :: u32) = m"
  proof -
    have "m < 2 ^ LENGTH(32)"
      using unsigned_less [of n, where ?'a = nat] by (simp add: assms(2) min.strict_coboundedI1)
    then show ?thesis by (simp add: unat_of_nat)
  qed
  show "rte_ring_sc_dequeue_burst r n = (int m, take m (ring_list r), deq_step r (of_nat m))"
    using sc_dequeue_variable [OF assms] by (simp add: rte_ring_sc_dequeue_burst_def)
  show "ring_ok (deq_step r (of_nat m))" "ring_list (deq_step r (of_nat m)) = drop m (ring_list r)"
    using deq_step [OF assms(1), of "of_nat m"] m assms(2) by auto
qed

text \<open>What a refill leaves alone.\<close>

definition same_but_rx :: "nat \<Rightarrow> app \<Rightarrow> app \<Rightarrow> bool" where
  "same_but_rx i s s' \<longleftrightarrow>
     (\<exists>r c st. s' = (upd_ld i (\<lambda>d. d\<lparr>local_cache := c\<rparr>) s)
                      \<lparr>sm := (sm s)\<lparr>rx_rings := (rx_rings (sm s))(i := r)\<rparr>, app_stats := st\<rparr>)"

lemma same_but_rxD:
  assumes "same_but_rx i s s'"
  shows "ld_socket (local_socket_descriptors s' j) = ld_socket (local_socket_descriptors s j)"
    "g_sockets (sm s') = g_sockets (sm s)" "command_ring (sm s') = command_ring (sm s)"
    "free_command_pool (sm s') = free_command_pool (sm s)" "mbufs (sm s') = mbufs (sm s)"
    "j \<noteq> i \<Longrightarrow> pending_rx j s' = pending_rx j s"
  using assms by (auto simp: same_but_rx_def pending_rx_def)

lemma cache_refill_ok:
  assumes "app_ok s" "i < 2048"
  shows "app_ok (cache_refill i s) \<and> pending_rx i (cache_refill i s) = pending_rx i s \<and>
    (pending_rx i s \<noteq> [] \<longrightarrow> ring_list (local_cache (local_socket_descriptors (cache_refill i s) i)) \<noteq> []) \<and>
    same_but_rx i s (cache_refill i s)"
proof -
  let ?c = "local_cache (local_socket_descriptors s i)"
  let ?rx = "rx_rings (sm s) i"
  note ok = app_okD [OF assms(1)] shm_okD [OF app_okD(1) [OF assms(1)]]
  note c_ok = ok(2) [OF assms(2)] and c_cap = ok(3) [OF assms(2)] and rx_ok = ok(13) [OF assms(2)]
  define k where "k = min (unat (refill_size ?c)) (length (ring_list ?rx))"
  note burst = rx_burst_ok [OF rx_ok k_def]
  show ?thesis
  proof (cases "k = 0")
    case True
    then have "cache_refill i s = s"
      using rte_ring_count_ok [OF rx_ok] refill_size_ok [OF c_ok]
      by (auto simp: cache_refill_def k_def word_less_nat_alt min_def split: if_splits)
    moreover have "same_but_rx i s s"
      unfolding same_but_rx_def by (rule exI [of _ ?rx], rule exI [of _ ?c], rule exI [of _ "app_stats s"]) simp
    ultimately show ?thesis
      using True refill_size_ok [OF c_ok] assms(1) c_cap
      by (auto simp: pending_rx_def k_def ring_free_def min_def split: if_splits)
  next
    case False
    define c' where "c' = snd (rte_ring_sp_enqueue_burst ?c (take k (ring_list ?rx)) (of_nat k))"
    have "unat (of_nat k :: u32) \<le> length (take k (ring_list ?rx))"
      unfolding burst(4) by (simp add: k_def)
    from sp_enqueue_variable [OF c_ok this c'_def [unfolded rte_ring_sp_enqueue_burst_def]]
    have c': "ring_ok c'" "ring_list c' = ring_list ?c @ take k (ring_list ?rx)" "ring_cap c' = ring_cap ?c"
      using refill_size_ok [OF c_ok] unfolding burst(4) by (simp_all add: k_def min_def split: if_splits)
    have eq: "cache_refill i s = upd_ld i (\<lambda>d. d\<lparr>local_cache := c'\<rparr>)
        (stat_add stats_rx_dequeued 1
          (s\<lparr>sm := (sm s)\<lparr>rx_rings := (rx_rings (sm s))(i := deq_step ?rx (of_nat k))\<rparr>\<rparr>))"
      using False rte_ring_count_ok [OF rx_ok] refill_size_ok [OF c_ok]
      by (auto simp: cache_refill_def burst(1) c'_def k_def word_less_nat_alt)
    have "same_but_rx i s (cache_refill i s)"
      unfolding same_but_rx_def eq stat_add_def
      by (rule exI [of _ "deq_step ?rx (of_nat k)"], rule exI [of _ c'],
          rule exI [of _ "(app_stats s)(stats_rx_dequeued := app_stats s stats_rx_dequeued + 1)"]) simp
    moreover have "shm_ok ((sm s)\<lparr>rx_rings := (rx_rings (sm s))(i := deq_step ?rx (of_nat k))\<rparr>)"
      using ok(1) burst(2) shm_okD(12) [OF ok(1) assms(2)] by simp
    ultimately show ?thesis
      using False assms(1) burst(2,3) c' by (auto simp: eq app_ok_def pending_rx_def k_def)
  qed
qed


section \<open>Command buffers are conserved\<close>

definition cmd_bufs :: "shm \<Rightarrow> nat multiset" where
  "cmd_bufs m = mset (ring_list (free_command_pool m)) + mset (ring_list (command_ring m))"

text \<open>A pool has room for every buffer that was taken from it.\<close>

definition pool_room :: "shm \<Rightarrow> bool" where
  "pool_room m \<longleftrightarrow> length (ring_list (free_command_pool m)) < ring_cap (free_command_pool m)"

lemma shm_ok_upd [simp]:
  "shm_ok m \<Longrightarrow> ring_ok r \<Longrightarrow> shm_ok (m\<lparr>command_ring := r\<rparr>)"
  "shm_ok m \<Longrightarrow> ring_ok r \<Longrightarrow> shm_ok (m\<lparr>free_command_pool := r\<rparr>)"
  "shm_ok m \<Longrightarrow> ring_ok r \<Longrightarrow> shm_ok (m\<lparr>free_connections_ring := r\<rparr>)"
  "shm_ok m \<Longrightarrow> shm_ok (m\<lparr>cmds := cs\<rparr>)" "shm_ok m \<Longrightarrow> shm_ok (m\<lparr>g_sockets := gs\<rparr>)"
  "shm_ok m \<Longrightarrow> shm_ok (m\<lparr>mbufs := bs\<rparr>)"
  by (simp_all add: shm_ok_def)

lemma app_ok_upd [simp]:
  "app_ok (s\<lparr>sm := m\<rparr>) \<longleftrightarrow> shm_ok m \<and> app_ok s" if "app_ok s"
  using that by (simp add: app_ok_def)

lemma alloc_command_cases:
  assumes "shm_ok (sm s)"
  obtains (none) "ring_list (free_command_pool (sm s)) = []"
      "alloc_command s = Some (None, stat_add stats_cannot_allocate_cmd 1 s)" "get_command s = Some (None, s)"
  | (some) c m where "ring_list (free_command_pool (sm s)) = c # ring_list (free_command_pool m)"
      "m = (sm s)\<lparr>free_command_pool := deq_step (free_command_pool (sm s)) 1\<rparr>" "shm_ok m" "pool_room m"
      "alloc_command s = Some (Some c, s\<lparr>sm := m\<rparr>)" "get_command s = Some (Some c, s\<lparr>sm := m\<rparr>)"
proof (cases "ring_list (free_command_pool (sm s))")
  case Nil
  then show thesis
    using none shm_okD(2) [OF assms] by (simp add: alloc_command_def get_command_def get_free_command_buf_ok)
next
  case (Cons c cs)
  let ?m = "(sm s)\<lparr>free_command_pool := deq_step (free_command_pool (sm s)) 1\<rparr>"
  have pop: "ring_ok (deq_step (free_command_pool (sm s)) 1)" "ring_list (deq_step (free_command_pool (sm s)) 1) = cs"
    using ring_pop [OF shm_okD(2) [OF assms]] Cons by simp_all
  have "pool_room ?m"
    using ring_list_le_cap [OF shm_okD(2) [OF assms]] Cons by (simp add: pool_room_def pop(2))
  then show thesis
    using some [of c ?m] Cons pop assms shm_okD(2) [OF assms]
    by (simp add: alloc_command_def get_command_def get_free_command_buf_ok)
qed

text \<open>What posting commands leaves alone.\<close>

definition same_but_cmds :: "app \<Rightarrow> app \<Rightarrow> bool" where
  "same_but_cmds s s' \<longleftrightarrow>
     local_socket_descriptors s' = local_socket_descriptors s \<and> selectors s' = selectors s \<and>
     g_sockets (sm s') = g_sockets (sm s) \<and> mbufs (sm s') = mbufs (sm s) \<and> mbuf_pool (sm s') = mbuf_pool (sm s) \<and>
     rx_rings (sm s') = rx_rings (sm s) \<and> tx_rings (sm s') = tx_rings (sm s) \<and>
     free_connections_ring (sm s') = free_connections_ring (sm s) \<and>
     ready_connections (sm s') = ready_connections (sm s) \<and> selectors_ring (sm s') = selectors_ring (sm s) \<and>
     free_clients_ring (sm s') = free_clients_ring (sm s) \<and> client_rings (sm s') = client_rings (sm s) \<and>
     getpid s' = getpid s \<and> client_ring s' = client_ring s \<and> updates s' = updates s"

lemma same_but_cmds_refl [simp]: "same_but_cmds s s" "same_but_cmds s (stat_add c n s)"
  by (simp_all add: same_but_cmds_def stat_add_def)

lemma same_but_cmds_trans: "same_but_cmds s s' \<Longrightarrow> same_but_cmds s' s'' \<Longrightarrow> same_but_cmds s s''"
  by (simp add: same_but_cmds_def)

lemma same_but_cmds_pending: "same_but_cmds s s' \<Longrightarrow> pending_rx i s' = pending_rx i s"
  by (simp add: same_but_cmds_def pending_rx_def)

lemma post_command_cases:
  assumes "shm_ok (sm s)" "pool_room (sm s)"
  obtains (posted) s2 where "post_command c f s = Some (False, s2)"
      "ring_list (command_ring (sm s2)) = ring_list (command_ring (sm s)) @ [c]"
      "cmds (sm s2) = (cmds (sm s))(c := f (cmds (sm s) c))" "free_command_pool (sm s2) = free_command_pool (sm s)"
      "length (ring_list (command_ring (sm s))) < ring_cap (command_ring (sm s))" "shm_ok (sm s2)" "same_but_cmds s s2"
  | (full) s2 where "post_command c f s = Some (True, s2)" "command_ring (sm s2) = command_ring (sm s)"
      "ring_list (free_command_pool (sm s2)) = ring_list (free_command_pool (sm s)) @ [c]"
      "ring_cap (command_ring (sm s)) \<le> length (ring_list (command_ring (sm s)))" "shm_ok (sm s2)" "same_but_cmds s s2"
proof (cases "length (ring_list (command_ring (sm s))) < ring_cap (command_ring (sm s))")
  case True
  let ?s2 = "s\<lparr>sm := (upd_cmd c f (sm s))\<lparr>command_ring := enq_step (command_ring (sm s)) [c] 1\<rparr>\<rparr>"
  show thesis
    using posted [of ?s2] True assms shm_okD(1) [OF assms(1)] ring_push [of "command_ring (sm s)" c]
    by (simp add: post_command_def enqueue_command_buf_ok same_but_cmds_def)
next
  case False
  let ?s2 = "s\<lparr>sm := (upd_cmd c f (sm s))\<lparr>free_command_pool := enq_step (free_command_pool (sm s)) [c] 1\<rparr>\<rparr>"
  show thesis
    using full [of ?s2] False assms shm_okD(1,2) [OF assms(1)] ring_push [of "free_command_pool (sm s)" c]
    by (simp add: post_command_def enqueue_command_buf_ok free_command_buf_ok pool_room_def same_but_cmds_def)
qed

lemma send_rx_kick_ok:
  assumes "app_ok s"
  shows "\<exists>s'. send_rx_kick sock s = Some s' \<and> app_ok s' \<and> same_but_cmds s s'"
  using app_okD(1) [OF assms]
proof (cases rule: alloc_command_cases)
  case none
  then show ?thesis using assms by (simp add: send_rx_kick_def)
next
  case (some c m)
  then show ?thesis
    using assms shm_okD(1) [OF some(3)] ring_push [of "command_ring m" c]
    by (auto simp: send_rx_kick_def enqueue_command_buf_ok same_but_cmds_def)
qed

text \<open>The two rings of a connection together are one queue.\<close>

lemma next_rx_ok:
  assumes "app_ok s" "i < 2048"
  shows "\<exists>s'. next_rx i g s = (case pending_rx i s of [] \<Rightarrow> None | v # _ \<Rightarrow> Some v, s') \<and>
    app_ok s' \<and> pending_rx i s' = tl (pending_rx i s) \<and> \<not> read_ready_to_app (g_sockets (sm s') g) \<and>
    (\<forall>j. j \<noteq> i \<longrightarrow> pending_rx j s' = pending_rx j s)"
proof -
  let ?unset = "\<lambda>s. s\<lparr>sm := upd_g_socket g (\<lambda>k. k\<lparr>read_ready_to_app := False\<rparr>) (sm s)\<rparr>"
  let ?pop = "upd_ld i (\<lambda>d. d\<lparr>local_cache := deq_step (local_cache d) 1\<rparr>)"
  have unset: "app_ok (?unset s)" "pending_rx j (?unset s) = pending_rx j s"
    "\<not> read_ready_to_app (g_sockets (sm (?unset s)) g)" if "app_ok s" for s j
    using that by (simp_all add: app_okD pending_rx_def)
  have pop: "app_ok (?pop s)" "pending_rx i (?pop s) = tl (pending_rx i s)"
    "j \<noteq> i \<Longrightarrow> pending_rx j (?pop s) = pending_rx j s"
    if "app_ok s" "ring_list (local_cache (local_socket_descriptors s i)) \<noteq> []" for s j
    using that assms(2) ring_pop [OF app_okD(2) [OF that(1) assms(2)] that(2)]
    by (auto simp: app_ok_def pending_rx_def)
  show ?thesis
  proof (cases "ring_list (local_cache (local_socket_descriptors s i))")
    case Nil
    let ?s3 = "cache_refill i (?unset s)"
    note refill = cache_refill_ok [OF unset(1) [OF assms(1)] assms(2)]
    have eq: "next_rx i g s = cache_get i ?s3"
      using Nil app_okD(2) [OF assms] by (simp add: next_rx_def cache_get_ok)
    have c: "ring_ok (local_cache (local_socket_descriptors ?s3 i))"
      using refill app_okD(2) assms(2) by blast
    show ?thesis
    proof (cases "pending_rx i s")
      case Nil
      then have "ring_list (local_cache (local_socket_descriptors ?s3 i)) = []"
        using refill unset(2) [OF assms(1), of i] by (auto simp: pending_rx_def)
      then show ?thesis
        using Nil c refill unset [OF assms(1)] same_but_rxD(2,6) [of i "?unset s" ?s3]
        by (simp add: eq cache_get_ok)
    next
      case (Cons v vs)
      then have ne: "ring_list (local_cache (local_socket_descriptors ?s3 i)) \<noteq> []" "pending_rx i ?s3 = v # vs"
        using refill unset(2) [OF assms(1), of i] by auto
      then obtain ws where "ring_list (local_cache (local_socket_descriptors ?s3 i)) = v # ws"
        by (cases "ring_list (local_cache (local_socket_descriptors ?s3 i))") (auto simp: pending_rx_def)
      then show ?thesis
        using Cons ne c refill unset [OF assms(1)] same_but_rxD(2,6) [of i "?unset s" ?s3] pop [of ?s3]
        by (simp add: eq cache_get_ok)
    qed
  next
    case (Cons v vs)
    let ?s2 = "?unset (?pop s)"
    have p: "app_ok (?pop s)" using pop(1) assms(1) Cons by simp
    note refill = cache_refill_ok [OF unset(1) [OF p] assms(2)]
    have "next_rx i g s = (Some v, cache_refill i ?s2)"
      using Cons app_okD(2) [OF assms] by (simp add: next_rx_def cache_get_ok)
    moreover have "pending_rx i s = v # vs @ ring_list (rx_rings (sm s) i)"
      using Cons by (simp add: pending_rx_def)
    ultimately show ?thesis
      using refill unset [OF p] pop [OF assms(1)] Cons same_but_rxD(2,6) [of i ?s2 "cache_refill i ?s2"]
      by simp
  qed
qed

section \<open>A small application\<close>

text \<open>
  Process 77 on the small shared memory; it owns connection 3, which selector 2 watches in level
  mode, and has two received buffers waiting.
\<close>

definition small_ld :: "nat option \<Rightarrow> int \<Rightarrow> local_socket_descriptor_t" where
  "small_ld g p =
     \<lparr>ld_socket = g, ld_select = p, local_cache = rte_ring_init (MbufPtr 0) 8 3, any_event_received = False,
      shadow = None, shadow_next = None, shadow_len_remainder = 0, shadow_len_delievered = 0,
      ld_local_ipaddr = 0, ld_local_port = 0, ld_remote_ipaddr = 0, ld_remote_port = 0,
      present_in_ready_cache = False, local_mask = 0\<rparr>"

definition small_app :: app where
  "small_app =
     \<lparr>sm = small_shm\<lparr>rx_rings := (rx_rings small_shm)(3 := enq_step (data_ring (MbufPtr 0)) [MbufPtr 20, MbufPtr 21] 2)\<rparr>,
      getpid = 77,
      local_socket_descriptors = (\<lambda>i. if i = 3 then small_ld (Some 3) 2 else small_ld None (-1)),
      selectors = (\<lambda>_. \<lparr>local_ready_cache = [], queue_length = 0, level_mode = True\<rparr>),
      app_stats = (\<lambda>_. 0), client_ring = None, g_client_ringset_idx = 2048,
      ipaugenblick_update_cbk = False, updates = []\<rparr>"

lemma small_app_rx [simp]:
  "ring_ok (enq_step (data_ring (MbufPtr 0)) [MbufPtr 20, MbufPtr 21] 2)"
  "ring_list (enq_step (data_ring (MbufPtr 0)) [MbufPtr 20, MbufPtr 21] 2) = [MbufPtr 20, MbufPtr 21]"
  using enq_step [of "data_ring (MbufPtr 0)" 2 "[MbufPtr 20, MbufPtr 21]"] by simp_all

lemma small_app_sel [simp]:
  "sm small_app = small_shm\<lparr>rx_rings := (rx_rings small_shm)(3 := enq_step (data_ring (MbufPtr 0)) [MbufPtr 20, MbufPtr 21] 2)\<rparr>"
  "local_socket_descriptors small_app i = (if i = 3 then small_ld (Some 3) 2 else small_ld None (-1))"
  "selectors small_app p = \<lparr>local_ready_cache = [], queue_length = 0, level_mode = True\<rparr>" "getpid small_app = 77"
  "local_cache (small_ld g p') = rte_ring_init (MbufPtr 0) 8 3" "ld_socket (small_ld g p') = g"
  "ld_select (small_ld g p') = p'" "shadow (small_ld g p') = None" "shadow_next (small_ld g p') = None"
  "\<not> present_in_ready_cache (small_ld g p')" "local_mask (small_ld g p') = 0"
  by (simp_all add: small_app_def small_ld_def)

lemma small_app_ok [simp]: "app_ok small_app"
  by (simp add: app_ok_def)

section \<open>Properties\<close>

text \<open>
  C12. Reading from a connection is first in, first out across its two rings, the ring the
  service fills and the application's own cache that is refilled from it in bursts: the call
  returns the oldest pending buffer and leaves the others in order, or finds nothing exactly
  when nothing is pending. It always clears the readable flag of the connection, so the next
  buffer is announced again.
\<close>

theorem dequeue_rx_buf_in_order:
  assumes "app_ok s" "conn_idx sock = Some i" "ld_socket (local_socket_descriptors s i) = Some g"
    and mb: "pending_rx i s = map MbufPtr bs"
  shows "\<exists>s'. ipaugenblick_dequeue_rx_buf sock s = Some (case bs of [] \<Rightarrow> None | b # _ \<Rightarrow> Some b, s') \<and>
    app_ok s' \<and> pending_rx i s' = map MbufPtr (tl bs) \<and> \<not> read_ready_to_app (g_sockets (sm s') g) \<and>
    (\<forall>j < 2048. j \<noteq> i \<longrightarrow> pending_rx j s' = pending_rx j s)"
proof -
  have i: "i < 2048" using assms(2) selector_idxD(2) by blast
  obtain s1 where s1: "next_rx i g s = (case bs of [] \<Rightarrow> None | b # _ \<Rightarrow> Some (MbufPtr b), s1)" "app_ok s1"
    "pending_rx i s1 = map MbufPtr (tl bs)" "\<not> read_ready_to_app (g_sockets (sm s1) g)"
    "\<forall>j. j \<noteq> i \<longrightarrow> pending_rx j s1 = pending_rx j s"
    using next_rx_ok [OF assms(1) i, of g] mb by (cases bs) auto
  have kick: "\<exists>s'. send_rx_kick sock s2 = Some s' \<and> app_ok s' \<and> (\<forall>j. pending_rx j s' = pending_rx j s2) \<and>
      g_sockets (sm s') = g_sockets (sm s2)" if ok2: "app_ok s2" for s2
  proof -
    obtain s' where "send_rx_kick sock s2 = Some s'" "app_ok s'" and same: "same_but_cmds s2 s'"
      using send_rx_kick_ok [OF ok2, of sock] by blast
    moreover have "g_sockets (sm s') = g_sockets (sm s2)"
      using same by (simp add: same_but_cmds_def)
    ultimately show ?thesis
      using same_but_cmds_pending [OF same] by blast
  qed
  show ?thesis
  proof (cases bs)
    case Nil
    then show ?thesis
      using s1 assms(2,3) kick [OF s1(2)] by (auto simp: ipaugenblick_dequeue_rx_buf_def)
  next
    case (Cons b bs')
    let ?s2 = "stat_add stats_rx_dequeued_local (ucast (nb_segs (mbufs (sm s1) b))) s1"
    from kick [of ?s2] s1(2) obtain s' where "send_rx_kick sock ?s2 = Some s'" "app_ok s'"
      "\<forall>j. pending_rx j s' = pending_rx j s1" "g_sockets (sm s') = g_sockets (sm s1)" by auto
    then show ?thesis
      using s1 assms(2,3) Cons by (simp add: ipaugenblick_dequeue_rx_buf_def mbuf_of_def)
  qed
qed

theorem dequeue_rx_buf_in_order_witness:
  "\<exists>s'. ipaugenblick_dequeue_rx_buf 3 small_app = Some (Some 20, s') \<and> pending_rx 3 s' = [MbufPtr 21]"
  using dequeue_rx_buf_in_order [of small_app 3 3 3 "[20, 21]"]
  by (auto simp: conn_idx_def pending_rx_def)

end
