(* ===== verification/Api_Control.thy ===== *)
theory Api_Control
  imports Api_State
begin

unbundle bit_operations_syntax

text \<open>
  The calls of \<open>ipaugenblick_api.c\<close> that post commands to the service: clients, selectors,
  opening, binding, connecting, listening, accepting, shutting down and closing sockets, routes
  and options, and the kick after writing. Each returns the value of the C function; where the
  C function returns nothing the value is left out.
\<close>

section \<open>Clients and selectors\<close>

text \<open>\<open>found\<close>: the ring of the client could be looked up.\<close>

definition ipaugenblick_create_client :: "(nat \<Rightarrow> bool) \<Rightarrow> bool \<Rightarrow> app \<Rightarrow> (int \<times> app) option" where
  "ipaugenblick_create_client found update_cbk s =
     do { (ret, is, r) \<leftarrow> rte_ring_dequeue (free_clients_ring (sm s));
          let s1 = s\<lparr>sm := (sm s)\<lparr>free_clients_ring := r\<rparr>\<rparr> in
          if ret \<noteq> 0 then Some (-1, s1)
          else let i = hd is in
            if \<not> found i then Some (-2, s1\<lparr>client_ring := None\<rparr>)
            else do { (oc, s2) \<leftarrow> alloc_command (s1\<lparr>client_ring := Some i\<rparr>);
                 case oc of None \<Rightarrow> Some (-3, s2)
                 | Some c \<Rightarrow>
                   do { (full, s3) \<leftarrow> post_command c (\<lambda>k. k\<lparr>cmd := IPAUGENBLICK_CONNECT_CLIENT, ringset_idx := i\<rparr>) s2;
                        if full then Some (-3, s3)
                        else Some (0, s3\<lparr>g_client_ringset_idx := of_nat i, ipaugenblick_update_cbk := update_cbk\<rparr>) } } }"

text \<open>The records the service sends to a client; the buffer that carried one is not given back.\<close>

definition ipaugenblick_read_updates :: "app \<Rightarrow> (int \<times> app) option" where
  "ipaugenblick_read_updates s =
     do { cl \<leftarrow> client_ring s;
          (ret, bs, r) \<leftarrow> rte_ring_dequeue (client_rings (sm s) cl);
          let s1 = s\<lparr>sm := (sm s)\<lparr>client_rings := (client_rings (sm s))(cl := r)\<rparr>\<rparr> in
          if ret \<noteq> 0 then Some (-1, s1)
          else let mb = mbufs (sm s) (hd bs);
                   call = (\<lambda>op rest. if ipaugenblick_update_cbk s
                             then s1\<lparr>updates := updates s1 @ [(op, take (unat (data_len mb) - 1) rest)]\<rparr> else s1) in
               case data mb of [] \<Rightarrow> None
               | p # rest \<Rightarrow>
                   if p = 18 then Some (-1, call 1 rest)
                   else if p = 19 then Some (-1, call 3 rest)
                   else if p = 20 then Some (0, s1)
                   else Some (-1, s1) }"

definition ipaugenblick_open_select :: "app \<Rightarrow> (int \<times> app) option" where
  "ipaugenblick_open_select s =
     do { (ret, is, r) \<leftarrow> rte_ring_dequeue (selectors_ring (sm s));
          let s1 = s\<lparr>sm := (sm s)\<lparr>selectors_ring := r\<rparr>\<rparr> in
          Some (if ret \<noteq> 0 then -1 else int (hd is), s1) }"

definition ipaugenblick_set_selector_mode :: "int \<Rightarrow> bool \<Rightarrow> app \<Rightarrow> app option" where
  "ipaugenblick_set_selector_mode select mode s =
     (if select \<ge> int IPAUGENBLICK_SELECTOR_POOL_SIZE then Some s
      else do { p \<leftarrow> selector_idx select; Some (upd_selector p (\<lambda>k. k\<lparr>level_mode := mode\<rparr>) s) })"

text \<open>On success the C function ends without \<open>return\<close>; \<open>rv\<close> is the value the caller then sees.\<close>

definition ipaugenblick_set_socket_select :: "int \<Rightarrow> int \<Rightarrow> int \<Rightarrow> app \<Rightarrow> (int \<times> app) option" where
  "ipaugenblick_set_socket_select rv sock select s =
     (if sock < 0 then Some (-1, s)
      else do { (oc, s1) \<leftarrow> alloc_command s;
           case oc of None \<Rightarrow> Some (-2, s1)
           | Some c \<Rightarrow>
             do { (full, s2) \<leftarrow> post_command c
                    (\<lambda>k. k\<lparr>cmd := IPAUGENBLICK_SET_SOCKET_SELECT_COMMAND, ringset_idx := unsigned_int sock,
                           u := U_set_socket_select select (getpid s1)\<rparr>) s1;
                  if full then Some (-3, s2)
                  else do { i \<leftarrow> conn_idx sock; Some (rv, upd_ld i (\<lambda>d. d\<lparr>ld_select := select\<rparr>) s2) } } })"

section \<open>Sockets\<close>

definition ipaugenblick_open_socket :: "int \<Rightarrow> int \<Rightarrow> int \<Rightarrow> app \<Rightarrow> (int \<times> app) option" where
  "ipaugenblick_open_socket family type parent s =
     do { (ret, gs, r) \<leftarrow> rte_ring_dequeue (free_connections_ring (sm s));
          let s1 = s\<lparr>sm := (sm s)\<lparr>free_connections_ring := r\<rparr>\<rparr> in
          if ret \<noteq> 0 then Some (-1, s1)
          else do { (oc, s2) \<leftarrow> alloc_command s1;
               case oc of None \<Rightarrow> Some (-2, s2)
               | Some c \<Rightarrow>
                 let g = hd gs; i = connection_idx (g_sockets (sm s) g) in
                 do { (full, s3) \<leftarrow> post_command c
                        (\<lambda>k. k\<lparr>cmd := IPAUGENBLICK_OPEN_SOCKET_COMMAND, ringset_idx := i, parent_idx := parent,
                               u := U_open_sock family type (getpid s)\<rparr>) s2;
                      if full then Some (-3, s3)
                      else do { j \<leftarrow> conn_idx (int i);
                                Some (int i, upd_ld j (\<lambda>d. d\<lparr>ld_socket := Some g, ld_select := parent\<rparr>)
                                              (ipaugenblick_reset_local_descriptor j s3)) } } } }"

text \<open>The body \<open>bind\<close> and \<open>connect\<close> share, with their different answer when no buffer is free.\<close>

definition connect_bind :: "bool \<Rightarrow> int \<Rightarrow> int \<Rightarrow> sockaddr_in \<Rightarrow> app \<Rightarrow> (bool \<times> int \<times> nat \<times> app) option" where
  "connect_bind is_connect nobuf sock addr s =
     do { (oc, s1) \<leftarrow> alloc_command s;
          case oc of None \<Rightarrow> Some (False, nobuf, 0, s1)
          | Some c \<Rightarrow>
            do { i \<leftarrow> conn_idx sock;
                 (full, s2) \<leftarrow> post_command c
                   (\<lambda>k. k\<lparr>cmd := IPAUGENBLICK_SOCKET_CONNECT_BIND_COMMAND, ringset_idx := i,
                          parent_idx := ld_select (local_socket_descriptors s1 i),
                          u := U_socket_connect_bind (sin_addr addr) (sin_port addr) is_connect\<rparr>) s1;
                 Some (if full then (False, -2, i, s2) else (True, 0, i, s2)) } }"

definition ipaugenblick_bind :: "int \<Rightarrow> sockaddr_in \<Rightarrow> app \<Rightarrow> (int \<times> app) option" where
  "ipaugenblick_bind sock addr s =
     (if sin_family addr \<noteq> AF_INET then Some (-1, s)
      else do { (ok, rc, i, s1) \<leftarrow> connect_bind False (-1) sock addr s;
                Some (rc, if ok then upd_ld i (\<lambda>d. d\<lparr>ld_local_ipaddr := sin_addr addr,
                                                   ld_local_port := ucast (sin_port addr)\<rparr>) s1 else s1) })"

definition ipaugenblick_connect :: "int \<Rightarrow> sockaddr_in \<Rightarrow> app \<Rightarrow> (int \<times> app) option" where
  "ipaugenblick_connect sock addr s =
     (if sin_family addr \<noteq> AF_INET then Some (-1, s)
      else do { (ok, rc, i, s1) \<leftarrow> connect_bind True (-2) sock addr s;
                Some (rc, if ok then upd_ld i (\<lambda>d. d\<lparr>ld_remote_ipaddr := sin_addr addr,
                                                   ld_remote_port := ucast (sin_port addr)\<rparr>) s1 else s1) })"

definition ipaugenblick_listen_socket :: "int \<Rightarrow> app \<Rightarrow> (int \<times> app) option" where
  "ipaugenblick_listen_socket sock s =
     do { (oc, s1) \<leftarrow> alloc_command s;
          case oc of None \<Rightarrow> Some (-1, s1)
          | Some c \<Rightarrow>
            do { i \<leftarrow> conn_idx sock;
                 (full, s2) \<leftarrow> post_command c
                   (\<lambda>k. k\<lparr>cmd := IPAUGENBLICK_LISTEN_SOCKET_COMMAND, ringset_idx := i,
                          parent_idx := ld_select (local_socket_descriptors s1 i)\<rparr>) s1;
                 Some (if full then -2 else 0, s2) } }"

definition ipaugenblick_close :: "int \<Rightarrow> app \<Rightarrow> app option" where
  "ipaugenblick_close sock s =
     do { (oc, s1) \<leftarrow> alloc_command s;
          case oc of None \<Rightarrow> Some s1
          | Some c \<Rightarrow>
            do { i \<leftarrow> conn_idx sock;
                 (_, s2) \<leftarrow> post_command c
                   (\<lambda>k. k\<lparr>cmd := IPAUGENBLICK_SOCKET_CLOSE_COMMAND, ringset_idx := i,
                          parent_idx := ld_select (local_socket_descriptors s1 i)\<rparr>) s1;
                 s3 \<leftarrow> ipaugenblick_flush_rx i s2;
                 s4 \<leftarrow> ipaugenblick_remove_socket_from_cache i s3;
                 Some (upd_ld i (\<lambda>d. d\<lparr>ld_select := -1\<rparr>) s4) } }"

definition ipaugenblick_shutdown :: "int \<Rightarrow> int \<Rightarrow> app \<Rightarrow> (int \<times> app) option" where
  "ipaugenblick_shutdown sock how s =
     do { (oc, s1) \<leftarrow> alloc_command s;
          case oc of None \<Rightarrow> Some (-1, s1)
          | Some c \<Rightarrow>
            do { i \<leftarrow> conn_idx sock;
                 (_, s2) \<leftarrow> post_command c
                   (\<lambda>k. k\<lparr>cmd := IPAUGENBLICK_SOCKET_SHUTDOWN_COMMAND, ringset_idx := i,
                          parent_idx := ld_select (local_socket_descriptors s1 i), u := U_socket_shutdown how\<rparr>) s1;
                 s3 \<leftarrow> ipaugenblick_remove_socket_from_cache i s2;
                 Some (0, s3) } }"

definition ipaugenblick_notify_empty_tx_buffers :: "int \<Rightarrow> app \<Rightarrow> app option" where
  "ipaugenblick_notify_empty_tx_buffers sock s =
     (if sock = -1 then Some s
      else do { (oc, s1) \<leftarrow> alloc_command s;
           case oc of None \<Rightarrow> Some s1
           | Some c \<Rightarrow>
             do { (_, s2) \<leftarrow> post_command c
                    (\<lambda>k. k\<lparr>cmd := IPAUGENBLICK_SOCKET_TX_POOL_EMPTY_COMMAND, ringset_idx := unsigned_int sock\<rparr>) s1;
                  Some s2 } })"

text \<open>\<open>write_done_from_app\<close> is set by the first kick and cleared by the service when it looks at the ring.\<close>

definition ipaugenblick_socket_kick :: "int \<Rightarrow> app \<Rightarrow> (int \<times> app) option" where
  "ipaugenblick_socket_kick sock s =
     do { i \<leftarrow> conn_idx sock;
          g \<leftarrow> ld_socket (local_socket_descriptors s i);
          if write_done_from_app (g_sockets (sm s) g) then Some (0, s)
          else do { (oc, s1) \<leftarrow> alloc_command
                      (s\<lparr>sm := upd_g_socket g (\<lambda>k. k\<lparr>write_done_from_app := True\<rparr>) (sm s)\<rparr>);
               case oc of None \<Rightarrow> Some (-1, s1)
               | Some c \<Rightarrow>
                 do { (full, s2) \<leftarrow> post_command c
                        (\<lambda>k. k\<lparr>cmd := IPAUGENBLICK_SOCKET_TX_KICK_COMMAND, ringset_idx := i\<rparr>) s1;
                      Some (0, if full then s2 else stat_add stats_tx_kicks_sent 1 s2) } } }"

text \<open>
  Accepting takes the announcement of the service off the ring of the listening socket and reuses
  its command buffer for the answer. The result carries the address stored through \<open>addr\<close>.
\<close>

definition accepted_of :: "ipaugenblick_cmd \<Rightarrow> (nat \<times> u32 \<times> u16) option" where
  "accepted_of c = (case u c of U_accepted_socket d ip p \<Rightarrow> Some (d, ip, p) | _ \<Rightarrow> None)"

definition answer_accepted :: "nat \<Rightarrow> nat \<Rightarrow> app \<Rightarrow> (int \<times> sockaddr_in option \<times> app) option" where
  "answer_accepted l c s =
     do { (descr, ip, port) \<leftarrow> accepted_of (cmds (sm s) c);
          (ret, gs, fr) \<leftarrow> rte_ring_dequeue (free_connections_ring (sm s));
          let s1 = s\<lparr>sm := (sm s)\<lparr>free_connections_ring := fr\<rparr>\<rparr> in
          if ret \<noteq> 0
          then do { (full, s2) \<leftarrow> post_command c
                      (\<lambda>k. k\<lparr>cmd := IPAUGENBLICK_SOCKET_DECLINE_COMMAND, u := U_socket_decline descr\<rparr>) s1;
                    Some (if full then -4 else -3, None, s2) }
          else let g = hd gs; i = connection_idx (g_sockets (sm s1) g) in
            do { j \<leftarrow> conn_idx (int i);
                 let s2 = upd_ld j (\<lambda>d. d\<lparr>ld_remote_ipaddr := ip, ld_remote_port := ucast port,
                            ld_local_ipaddr := ld_local_ipaddr (local_socket_descriptors s1 l),
                            ld_local_port := ld_local_port (local_socket_descriptors s1 l),
                            ld_socket := Some g\<rparr>)
                           (ipaugenblick_reset_local_descriptor j s1) in
                 do { (full, s3) \<leftarrow> post_command c
                        (\<lambda>k. k\<lparr>cmd := IPAUGENBLICK_SET_SOCKET_RING_COMMAND, ringset_idx := i,
                               parent_idx := -1, u := U_set_socket_ring descr (getpid s)\<rparr>) s2;
                      let addr = Some \<lparr>sin_family = AF_INET, sin_addr = ip, sin_port = port\<rparr> in
                      if full then Some (-2, addr, s3)
                      else Some (int i, addr, stat_add stats_accepted 1 s3) } } }"

definition ipaugenblick_accept :: "int \<Rightarrow> app \<Rightarrow> (int \<times> sockaddr_in option \<times> app) option" where
  "ipaugenblick_accept sock s =
     do { l \<leftarrow> conn_idx sock;
          lg \<leftarrow> ld_socket (local_socket_descriptors s l);
          let s1 = s\<lparr>sm := upd_g_socket lg (\<lambda>k. k\<lparr>read_ready_to_app := False\<rparr>) (sm s)\<rparr> in
          do { (ret, vs, r) \<leftarrow> rte_ring_dequeue (rx_rings (sm s1) l);
               let s2 = s1\<lparr>sm := (sm s1)\<lparr>rx_rings := (rx_rings (sm s1))(l := r)\<rparr>\<rparr> in
               if ret \<noteq> 0
               then do { s3 \<leftarrow> ipaugenblick_update_local_ready_cache l SOCKET_READABLE_BIT s2; Some (-1, None, s3) }
               else case hd vs of CmdPtr c \<Rightarrow> answer_accepted l c s2 | MbufPtr _ \<Rightarrow> None } }"

text \<open>The two calls that only read.\<close>

definition ipaugenblick_getsockname :: "int \<Rightarrow> bool \<Rightarrow> app \<Rightarrow> sockaddr_in option" where
  "ipaugenblick_getsockname sock is_local s =
     do { i \<leftarrow> conn_idx sock;
          let d = local_socket_descriptors s i in
          if is_local
          then do { g \<leftarrow> ld_socket d;
                    let k = g_sockets (sm s) g in
                    Some (if local_ipaddr k \<noteq> 0
                          then \<lparr>sin_family = AF_INET, sin_addr = local_ipaddr k, sin_port = local_port k\<rparr>
                          else \<lparr>sin_family = AF_INET, sin_addr = ld_local_ipaddr d, sin_port = ucast (ld_local_port d)\<rparr>) }
          else Some \<lparr>sin_family = AF_INET, sin_addr = ld_remote_ipaddr d, sin_port = ucast (ld_remote_port d)\<rparr> }"

definition ipaugenblick_is_connected :: "int \<Rightarrow> app \<Rightarrow> bool option" where
  "ipaugenblick_is_connected sock s =
     do { i \<leftarrow> conn_idx sock; Some (any_event_received (local_socket_descriptors s i)) }"

section \<open>Routes and options\<close>

definition ipaugenblick_route_command ::
  "cmd_code \<Rightarrow> u32 \<Rightarrow> u32 \<Rightarrow> u32 \<Rightarrow> int \<Rightarrow> app \<Rightarrow> (int \<times> app) option" where
  "ipaugenblick_route_command opcode ipaddr msk nexthop metric s =
     do { (oc, s1) \<leftarrow> alloc_command s;
          case oc of None \<Rightarrow> Some (-1, s1)
          | Some c \<Rightarrow>
            do { (full, s2) \<leftarrow> post_command c (\<lambda>k. k\<lparr>cmd := opcode, u := U_route ipaddr msk nexthop metric\<rparr>) s1;
                 Some (if full then -2 else 0, s2) } }"

definition ipaugenblick_add_v4_route :: "u32 \<Rightarrow> u32 \<Rightarrow> u32 \<Rightarrow> int \<Rightarrow> app \<Rightarrow> (int \<times> app) option" where
  "ipaugenblick_add_v4_route ipaddr msk nexthop metric =
     ipaugenblick_route_command IPAUGENBLICK_ROUTE_ADD_COMMAND ipaddr msk nexthop metric"

definition ipaugenblick_del_v4_route :: "u32 \<Rightarrow> u32 \<Rightarrow> u32 \<Rightarrow> app \<Rightarrow> (int \<times> app) option" where
  "ipaugenblick_del_v4_route ipaddr msk nexthop =
     ipaugenblick_route_command IPAUGENBLICK_ROUTE_DEL_COMMAND ipaddr msk nexthop 0"

text \<open>\<open>optval\<close> of a command has 128 bytes; copying more writes past the command.\<close>

definition ipaugenblick_setsockopt :: "int \<Rightarrow> int \<Rightarrow> int \<Rightarrow> u8 list \<Rightarrow> app \<Rightarrow> (int \<times> app) option" where
  "ipaugenblick_setsockopt sock level optname optval s =
     do { (oc, s1) \<leftarrow> alloc_command s;
          case oc of None \<Rightarrow> Some (-1, s1)
          | Some c \<Rightarrow>
            if length optval > 128 then None
            else do { i \<leftarrow> conn_idx sock;
                 (full, s2) \<leftarrow> post_command c
                   (\<lambda>k. k\<lparr>cmd := IPAUGENBLICK_SETSOCKOPT_COMMAND, ringset_idx := i,
                          parent_idx := ld_select (local_socket_descriptors s1 i),
                          u := U_setsockopt level optname (int (length optval)) optval\<rparr>) s1;
                 Some (if full then -2 else 0, s2) } }"

section \<open>Termination by a signal\<close>

text \<open>\<open>sig_handler\<close>, for a signal other than \<open>SIGUSR1\<close>, up to the final \<open>kill\<close>.\<close>

definition close_if_open :: "nat \<Rightarrow> app \<Rightarrow> app option" where
  "close_if_open i s =
     (case ld_socket (local_socket_descriptors s i) of None \<Rightarrow> Some s
      | Some g \<Rightarrow> ipaugenblick_close (int (connection_idx (g_sockets (sm s) g))) s)"

definition sig_handler :: "bool \<Rightarrow> app \<Rightarrow> app option" where
  "sig_handler sigusr1 s =
     (if sigusr1 then Some s
      else do { s1 \<leftarrow> fold_opt close_if_open [0..<IPAUGENBLICK_CONNECTION_POOL_SIZE] s;
                (oc, s2) \<leftarrow> get_command s1;
                case oc of None \<Rightarrow> Some s2
                | Some c \<Rightarrow>
                  do { (_, s3) \<leftarrow> post_command c
                         (\<lambda>k. k\<lparr>cmd := IPAUGENBLICK_DISCONNECT_CLIENT, ringset_idx := unat (g_client_ringset_idx s2)\<rparr>) s2;
                       Some s3 } })"

section \<open>The calls as one interface\<close>

datatype api_call =
    Create_client "nat \<Rightarrow> bool" bool | Read_updates | Open_select | Set_selector_mode int bool
  | Set_socket_select int int int | Open_socket int int int | Bind int sockaddr_in | Connect int sockaddr_in
  | Listen int | Accept int | Close int | Shutdown int int | Notify_empty int | Kick int
  | Add_route u32 u32 u32 int | Del_route u32 u32 u32 | Setsockopt int int int "u8 list" | Signal bool

fun run_call :: "api_call \<Rightarrow> app \<Rightarrow> app option" where
  "run_call (Create_client f b) s = map_option snd (ipaugenblick_create_client f b s)"
| "run_call Read_updates s = map_option snd (ipaugenblick_read_updates s)"
| "run_call Open_select s = map_option snd (ipaugenblick_open_select s)"
| "run_call (Set_selector_mode p b) s = ipaugenblick_set_selector_mode p b s"
| "run_call (Set_socket_select rv sock p) s = map_option snd (ipaugenblick_set_socket_select rv sock p s)"
| "run_call (Open_socket f t p) s = map_option snd (ipaugenblick_open_socket f t p s)"
| "run_call (Bind sock a) s = map_option snd (ipaugenblick_bind sock a s)"
| "run_call (Connect sock a) s = map_option snd (ipaugenblick_connect sock a s)"
| "run_call (Listen sock) s = map_option snd (ipaugenblick_listen_socket sock s)"
| "run_call (Accept sock) s = map_option (snd \<circ> snd) (ipaugenblick_accept sock s)"
| "run_call (Close sock) s = ipaugenblick_close sock s"
| "run_call (Shutdown sock h) s = map_option snd (ipaugenblick_shutdown sock h s)"
| "run_call (Notify_empty sock) s = ipaugenblick_notify_empty_tx_buffers sock s"
| "run_call (Kick sock) s = map_option snd (ipaugenblick_socket_kick sock s)"
| "run_call (Add_route a m n k) s = map_option snd (ipaugenblick_add_v4_route a m n k s)"
| "run_call (Del_route a m n) s = map_option snd (ipaugenblick_del_v4_route a m n s)"
| "run_call (Setsockopt sock l n v) s = map_option snd (ipaugenblick_setsockopt sock l n v s)"
| "run_call (Signal b) s = sig_handler b s"

definition run_calls :: "api_call list \<Rightarrow> app \<Rightarrow> app option" where
  "run_calls = fold_opt run_call"

section \<open>A discipline for command buffers\<close>

text \<open>
  \<open>Inv\<close> is a property that does not depend on who holds a buffer, \<open>Held c\<close> the same property
  while a call has buffer \<open>c\<close> in its hands. The calls get buffers from the pool or from the ring
  of a listening socket and let go of them only by posting.
\<close>

definition cmd_view :: "app \<Rightarrow> nat rte_ring \<times> nat rte_ring \<times> (nat \<Rightarrow> void_ptr rte_ring)" where
  "cmd_view s = (command_ring (sm s), free_command_pool (sm s), rx_rings (sm s))"

text \<open>\<open>ensures P m\<close>: whatever \<open>m\<close> returns, if it returns, satisfies \<open>P\<close>.\<close>

definition ensures :: "('y \<Rightarrow> bool) \<Rightarrow> 'y option \<Rightarrow> bool" where
  "ensures P m \<longleftrightarrow> (\<forall>y. m = Some y \<longrightarrow> P y)"

lemma ensures_simps [simp]:
  "ensures P (Some y) = P y" "ensures P None" "ensures P (map_option g m) = ensures (P \<circ> g) m"
  by (auto simp: ensures_def)

lemma ensures_bind: "ensures Q m \<Longrightarrow> (\<And>y. Q y \<Longrightarrow> ensures P (f y)) \<Longrightarrow> ensures P (m \<bind> f)"
  by (auto simp: ensures_def split: Option.bind_splits)

lemma ensures_pure: "(\<And>y. m = Some y \<Longrightarrow> ensures P (f y)) \<Longrightarrow> ensures P (m \<bind> f)"
  by (auto simp: ensures_def split: Option.bind_splits)

locale command_discipline =
  fixes Inv :: "app \<Rightarrow> bool" and Held :: "nat \<Rightarrow> app \<Rightarrow> bool"
  assumes Inv_view: "Inv s \<Longrightarrow> cmd_view s' = cmd_view s \<Longrightarrow> Inv s'"
    and Held_view: "Held c s \<Longrightarrow> cmd_view s' = cmd_view s \<Longrightarrow> Held c s'"
    and get: "Inv s \<Longrightarrow> get_command s = Some (oc, s') \<Longrightarrow> case oc of None \<Rightarrow> Inv s' | Some c \<Rightarrow> Held c s'"
    and post: "Held c s \<Longrightarrow> post_command c f s = Some (fl, s') \<Longrightarrow> Inv s'"
    and drop_mbuf: "Inv s \<Longrightarrow> i < 2048 \<Longrightarrow> rte_ring_sc_dequeue_burst (rx_rings (sm s) i) 1 = (1, vs, r) \<Longrightarrow>
      hd vs = MbufPtr b \<Longrightarrow> Inv (s\<lparr>sm := (sm s)\<lparr>rx_rings := (rx_rings (sm s))(i := r)\<rparr>\<rparr>)"
    and take_cmd: "Inv s \<Longrightarrow> i < 2048 \<Longrightarrow> rte_ring_dequeue (rx_rings (sm s) i) = Some (ret, vs, r) \<Longrightarrow>
      (ret \<noteq> 0 \<longrightarrow> Inv (s\<lparr>sm := (sm s)\<lparr>rx_rings := (rx_rings (sm s))(i := r)\<rparr>\<rparr>)) \<and>
      (ret = 0 \<and> hd vs = CmdPtr c \<longrightarrow> Held c (s\<lparr>sm := (sm s)\<lparr>rx_rings := (rx_rings (sm s))(i := r)\<rparr>\<rparr>))"

lemma cmd_view_simps [simp]:
  "cmd_view (stat_add c n s) = cmd_view s" "cmd_view (s\<lparr>local_socket_descriptors := l\<rparr>) = cmd_view s"
  "cmd_view (s\<lparr>selectors := p\<rparr>) = cmd_view s" "cmd_view (s\<lparr>app_stats := st\<rparr>) = cmd_view s"
  "cmd_view (s\<lparr>client_ring := cr\<rparr>) = cmd_view s" "cmd_view (s\<lparr>updates := us\<rparr>) = cmd_view s"
  "cmd_view (s\<lparr>g_client_ringset_idx := gi\<rparr>) = cmd_view s" "cmd_view (s\<lparr>ipaugenblick_update_cbk := cb\<rparr>) = cmd_view s"
  "cmd_view (ipaugenblick_reset_local_descriptor i s) = cmd_view s"
  by (simp_all add: cmd_view_def ipaugenblick_reset_local_descriptor_def)

lemma cmd_view_sm:
  "cmd_view (s\<lparr>sm := m\<rparr>) = (command_ring m, free_command_pool m, rx_rings m)"
  by (simp add: cmd_view_def)

lemma free_rings:
  assumes "rte_pktmbuf_free ob m = Some m'"
  shows "command_ring m' = command_ring m \<and> free_command_pool m' = free_command_pool m \<and> rx_rings m' = rx_rings m"
  using pktmbuf_free_frame [OF assms] by (cases m; cases m') simp

lemma free_view: "rte_pktmbuf_free ob (sm s) = Some m \<Longrightarrow> cmd_view (s\<lparr>sm := m\<rparr>) = cmd_view s"
  by (auto simp: cmd_view_def dest!: free_rings)

lemma flush_cache_view:
  assumes "flush_cache_loop i s = Some s'"
  shows "cmd_view s' = cmd_view s"
  using assms
  by (induction rule: flush_cache_loop.raw_induct [rotated, consumes 1])
    (auto simp: cmd_view_def dest!: free_rings split: Option.bind_splits if_splits)

lemma flush_mbuf_view: "flush_mbuf ob s = Some s' \<Longrightarrow> cmd_view s' = cmd_view s"
  by (auto simp: flush_mbuf_def cmd_view_def dest!: free_rings split: Option.bind_splits option.splits)

lemma remove_from_cache_view: "ipaugenblick_remove_socket_from_cache i s = Some s' \<Longrightarrow> cmd_view s' = cmd_view s"
  by (auto simp: ipaugenblick_remove_socket_from_cache_def Let_def split: Option.bind_splits if_splits)

lemma update_cache_view: "ipaugenblick_update_local_ready_cache i b s = Some s' \<Longrightarrow> cmd_view s' = cmd_view s"
  by (auto simp: ipaugenblick_update_local_ready_cache_def Let_def split: if_splits dest: remove_from_cache_view)

context command_discipline
begin

lemma Inv_cong: "cmd_view s' = cmd_view s \<Longrightarrow> Inv s' = Inv s"
  using Inv_view [of s s'] Inv_view [of s' s] by auto

lemma Held_cong: "cmd_view s' = cmd_view s \<Longrightarrow> Held c s' = Held c s"
  using Held_view [of c s s'] Held_view [of c s' s] by auto

lemma flush_ring_keeps:
  assumes "flush_ring_loop i s = Some s'"
  shows "i < 2048 \<longrightarrow> Inv s \<longrightarrow> Inv s'"
  using assms
proof (induction rule: flush_ring_loop.raw_induct [rotated, consumes 1])
  case (1 f i s s')
  obtain k vs r where deq: "rte_ring_sc_dequeue_burst (rx_rings (sm s) i) 1 = (k, vs, r)"
    by (cases "rte_ring_sc_dequeue_burst (rx_rings (sm s) i) 1") auto
  show ?case
  proof (cases "k = 1")
    case True
    let ?m = "(sm s)\<lparr>rx_rings := (rx_rings (sm s))(i := r)\<rparr>"
    obtain b m where b: "hd vs = MbufPtr b" "rte_pktmbuf_free (Some b) ?m = Some m"
      "f i (stat_add stats_flush (ucast (nb_segs (mbufs (sm s) b))) (s\<lparr>sm := m\<rparr>)) = Some s'"
      using 1(2) True by (auto simp: deq mbuf_of_def split: Option.bind_splits void_ptr.splits)
    have "Inv (stat_add stats_flush (ucast (nb_segs (mbufs (sm s) b))) (s\<lparr>sm := m\<rparr>)) = Inv (s\<lparr>sm := ?m\<rparr>)"
      using free_rings [OF b(2)] by (intro Inv_cong) (simp add: cmd_view_sm)
    moreover have "Inv (s\<lparr>sm := ?m\<rparr>)" if "Inv s" "i < 2048"
      using drop_mbuf [OF that] deq b(1) True by simp
    ultimately have "Inv (stat_add stats_flush (ucast (nb_segs (mbufs (sm s) b))) (s\<lparr>sm := m\<rparr>))"
      if "Inv s" "i < 2048" using that by simp
    then show ?thesis using 1(1) [OF b(3)] by blast
  qed (use 1(2) deq in simp)
qed

lemma alloc:
  assumes "Inv s" "alloc_command s = Some (oc, s')"
  shows "case oc of None \<Rightarrow> Inv s' | Some c \<Rightarrow> Held c s'"
proof -
  obtain s1 where s1: "get_command s = Some (oc, s1)" "s' = (if oc = None then stat_add stats_cannot_allocate_cmd 1 s1 else s1)"
    using assms(2) by (auto simp: alloc_command_def split: Option.bind_splits)
  show ?thesis
    using get [OF assms(1) s1(1)] s1(2) by (auto split: option.splits elim: Inv_view)
qed

lemmas alloc_none = alloc [where oc = None, simplified] and alloc_some = alloc [where oc = "Some c" for c, simplified]

lemma flush_keeps:
  assumes "Inv s" "i < 2048" "ipaugenblick_flush_rx i s = Some s'"
  shows "Inv s'"
proof -
  obtain s1 s2 s3 s4 where fl: "flush_cache_loop i s = Some s1" "flush_ring_loop i s1 = Some s2"
    "flush_mbuf (shadow (local_socket_descriptors s2 i)) s2 = Some s3"
    "flush_mbuf (shadow_next (local_socket_descriptors s3 i)) s3 = Some s4" "cmd_view s' = cmd_view s4"
    using assms(3) by (auto simp: ipaugenblick_flush_rx_def split: Option.bind_splits)
  have "Inv s1" by (rule Inv_view [OF assms(1) flush_cache_view [OF fl(1)]])
  then have "Inv s2" using flush_ring_keeps [OF fl(2)] assms(2) by blast
  then show ?thesis
    by (rule Inv_view) (simp add: fl(5) flush_mbuf_view [OF fl(3)] flush_mbuf_view [OF fl(4)])
qed

lemma Inv_simps [simp]:
  "Inv (stat_add c n s) = Inv s" "Inv (s\<lparr>local_socket_descriptors := l\<rparr>) = Inv s"
  "Inv (s\<lparr>selectors := p\<rparr>) = Inv s" "Inv (s\<lparr>client_ring := cr\<rparr>) = Inv s" "Inv (s\<lparr>updates := us\<rparr>) = Inv s"
  "Inv (s\<lparr>g_client_ringset_idx := gi\<rparr>) = Inv s" "Inv (s\<lparr>ipaugenblick_update_cbk := cb\<rparr>) = Inv s"
  "Inv (ipaugenblick_reset_local_descriptor i s) = Inv s"
  "Inv (s\<lparr>sm := (sm s)\<lparr>g_sockets := gs\<rparr>\<rparr>) = Inv s" "Inv (s\<lparr>sm := (sm s)\<lparr>free_clients_ring := fc\<rparr>\<rparr>) = Inv s"
  "Inv (s\<lparr>sm := (sm s)\<lparr>client_rings := crs\<rparr>\<rparr>) = Inv s" "Inv (s\<lparr>sm := (sm s)\<lparr>selectors_ring := sr\<rparr>\<rparr>) = Inv s"
  "Inv (s\<lparr>sm := (sm s)\<lparr>free_connections_ring := fr\<rparr>\<rparr>) = Inv s"
  by (rule Inv_cong, simp add: cmd_view_def ipaugenblick_reset_local_descriptor_def stat_add_def)+

lemma Held_simps [simp]:
  "Held c (s\<lparr>local_socket_descriptors := l\<rparr>) = Held c s" "Held c (ipaugenblick_reset_local_descriptor i s) = Held c s"
  "Held c (s\<lparr>sm := (sm s)\<lparr>free_connections_ring := fr\<rparr>\<rparr>) = Held c s"
  by (rule Held_cong, simp add: cmd_view_def ipaugenblick_reset_local_descriptor_def)+

lemma alloc_bind:
  assumes "Inv s" "\<And>s'. Inv s' \<Longrightarrow> ensures P (f (None, s'))" "\<And>c s'. Held c s' \<Longrightarrow> ensures P (f (Some c, s'))"
  shows "ensures P (alloc_command s \<bind> f)" "ensures P (get_command s \<bind> f)"
  using assms alloc [OF assms(1)] get [OF assms(1)]
  by (auto intro!: ensures_pure split: option.splits prod.splits)

lemma post_bind:
  assumes "Held c s" "\<And>fl s'. Inv s' \<Longrightarrow> ensures P (f (fl, s'))"
  shows "ensures P (post_command c g s \<bind> f)"
  using assms post [OF assms(1)] by (auto intro!: ensures_pure)

lemma cache_bind:
  assumes "Inv s" "\<And>s'. Inv s' \<Longrightarrow> ensures P (f s')"
  shows "ensures P (ipaugenblick_remove_socket_from_cache i s \<bind> f)"
    "ensures P (ipaugenblick_update_local_ready_cache i b s \<bind> f)"
    "i < 2048 \<Longrightarrow> ensures P (ipaugenblick_flush_rx i s \<bind> f)"
  using assms
  by (auto intro!: ensures_pure dest: flush_keeps intro: Inv_view [OF _ remove_from_cache_view] Inv_view [OF _ update_cache_view])

lemma conn_bind: "(\<And>i. i < 2048 \<Longrightarrow> ensures P (f i)) \<Longrightarrow> ensures P (conn_idx sock \<bind> f)"
  by (auto intro!: ensures_pure dest: selector_idxD(2))

lemmas call_rules = alloc_bind post_bind cache_bind conn_bind ensures_pure [where m = "rte_ring_dequeue r" for r]
  ensures_pure [where m = "ld_socket d" for d] ensures_pure [where m = "client_ring s" for s]
  ensures_pure [where m = "selector_idx p" for p]

lemma client_calls:
  assumes "Inv s"
  shows "ensures (Inv \<circ> snd) (ipaugenblick_create_client fnd cb s)"
    "ensures (Inv \<circ> snd) (ipaugenblick_read_updates s)" "ensures (Inv \<circ> snd) (ipaugenblick_open_select s)"
    "ensures Inv (ipaugenblick_set_selector_mode p b s)" "ensures (Inv \<circ> snd) (ipaugenblick_set_socket_select rv sock p s)"
  using assms
  by (auto simp: ipaugenblick_create_client_def ipaugenblick_read_updates_def ipaugenblick_open_select_def
      ipaugenblick_set_selector_mode_def ipaugenblick_set_socket_select_def Let_def intro!: call_rules split: list.split)

lemma socket_calls:
  assumes "Inv s"
  shows "ensures (Inv \<circ> snd) (ipaugenblick_open_socket fm ty p s)"
    "ensures (Inv \<circ> snd) (ipaugenblick_bind sock a s)" "ensures (Inv \<circ> snd) (ipaugenblick_connect sock a s)"
    "ensures (Inv \<circ> snd) (ipaugenblick_listen_socket sock s)" "ensures Inv (ipaugenblick_close sock s)"
    "ensures (Inv \<circ> snd) (ipaugenblick_shutdown sock h s)" "ensures Inv (ipaugenblick_notify_empty_tx_buffers sock s)"
    "ensures (Inv \<circ> snd) (ipaugenblick_socket_kick sock s)"
    "ensures (Inv \<circ> snd) (ipaugenblick_route_command op ip m nh mt s)"
    "ensures (Inv \<circ> snd) (ipaugenblick_setsockopt sock l n v s)"
  using assms
  by (auto simp: ipaugenblick_open_socket_def ipaugenblick_bind_def ipaugenblick_connect_def connect_bind_def
      ipaugenblick_listen_socket_def ipaugenblick_close_def ipaugenblick_shutdown_def
      ipaugenblick_notify_empty_tx_buffers_def ipaugenblick_socket_kick_def ipaugenblick_route_command_def
      ipaugenblick_setsockopt_def Let_def intro!: call_rules)

lemma take_cmd_bind:
  assumes "Inv s" "i < 2048"
    "\<And>ret vs r. ret \<noteq> 0 \<Longrightarrow> Inv (s\<lparr>sm := (sm s)\<lparr>rx_rings := (rx_rings (sm s))(i := r)\<rparr>\<rparr>) \<Longrightarrow> ensures P (f (ret, vs, r))"
    "\<And>vs r. (\<And>c. hd vs = CmdPtr c \<Longrightarrow> Held c (s\<lparr>sm := (sm s)\<lparr>rx_rings := (rx_rings (sm s))(i := r)\<rparr>\<rparr>)) \<Longrightarrow>
      ensures P (f (0, vs, r))"
  shows "ensures P (rte_ring_dequeue (rx_rings (sm s) i) \<bind> f)"
proof (rule ensures_pure)
  fix y assume y: "rte_ring_dequeue (rx_rings (sm s) i) = Some y"
  obtain ret vs r where "y = (ret, vs, r)" by (cases y) auto
  then show "ensures P (f y)"
    using take_cmd [OF assms(1,2)] assms(3,4) y by (cases "ret = 0") auto
qed

lemma answer_keeps: "Held c s \<Longrightarrow> ensures (Inv \<circ> (snd \<circ> snd)) (answer_accepted l c s)"
  by (auto simp: answer_accepted_def Let_def intro!: ensures_pure [where m = "accepted_of k" for k] call_rules)

lemma accept_call:
  assumes "Inv s"
  shows "ensures (Inv \<circ> (snd \<circ> snd)) (ipaugenblick_accept sock s)"
  unfolding ipaugenblick_accept_def Let_def
proof (intro conn_bind ensures_pure [where m = "ld_socket d" for d], goal_cases)
  case (1 l lg)
  let ?s1 = "s\<lparr>sm := upd_g_socket lg (\<lambda>k. k\<lparr>read_ready_to_app := False\<rparr>) (sm s)\<rparr>"
  show ?case
    by (rule take_cmd_bind [where s = ?s1 and i = l])
      (use assms 1 in \<open>auto intro!: cache_bind answer_keeps split: void_ptr.splits\<close>)
qed

lemma signal_call:
  assumes "Inv s"
  shows "ensures Inv (sig_handler b s)"
proof -
  have "ensures Inv (close_if_open i s)" if "Inv s" for i s
    using that socket_calls(5) by (auto simp: close_if_open_def split: option.split)
  then have "ensures Inv (fold_opt close_if_open is s)" if "Inv s" for "is" s
    using that by (induction "is" arbitrary: s) (auto intro!: ensures_bind [where Q = Inv])
  then show ?thesis
    using assms by (auto simp: sig_handler_def intro!: ensures_bind [where Q = Inv] call_rules)
qed

lemma run_call_keeps: "Inv s \<Longrightarrow> ensures Inv (run_call c s)"
  by (cases c) (simp_all add: client_calls socket_calls accept_call signal_call
      ipaugenblick_add_v4_route_def ipaugenblick_del_v4_route_def)

lemma run_calls_keep: "Inv s \<Longrightarrow> ensures Inv (run_calls cs s)"
  unfolding run_calls_def
  by (induction cs arbitrary: s) (auto intro!: ensures_bind [where Q = Inv] run_call_keeps)

end

section \<open>No call loses a command buffer\<close>

fun cmd_of :: "void_ptr \<Rightarrow> nat multiset" where
  "cmd_of (CmdPtr c) = {#c#}"
| "cmd_of (MbufPtr b) = {#}"

text \<open>Every command buffer that is in the pool, in the command ring or on the ring of a connection.\<close>

definition all_cmd_bufs :: "shm \<Rightarrow> nat multiset" where
  "all_cmd_bufs m = cmd_bufs m +
     (\<Sum>i < IPAUGENBLICK_CONNECTION_POOL_SIZE. sum_list (map cmd_of (ring_list (rx_rings m i))))"

definition cmds_held :: "nat multiset \<Rightarrow> nat multiset \<Rightarrow> app \<Rightarrow> bool" where
  "cmds_held M H s \<longleftrightarrow>
     ring_ok (command_ring (sm s)) \<and> ring_ok (free_command_pool (sm s)) \<and> (\<forall>i < 2048. ring_ok (rx_rings (sm s) i)) \<and>
     all_cmd_bufs (sm s) + H = M \<and> size M \<le> ring_cap (free_command_pool (sm s))"

lemma all_cmd_bufs_rx:
  assumes "i < 2048" "ring_list (rx_rings m i) = v # ring_list r"
  shows "all_cmd_bufs m = all_cmd_bufs (m\<lparr>rx_rings := (rx_rings m)(i := r)\<rparr>) + cmd_of v"
proof -
  have i: "i \<in> {..<2048}" using assms(1) by simp
  show ?thesis
    unfolding all_cmd_bufs_def
    by (subst (1 2) sum.remove [OF _ i]) (simp_all add: assms(2) cmd_bufs_def)
qed

lemma cmds_held_room: "cmds_held M {#c#} s \<Longrightarrow>
  length (ring_list (free_command_pool (sm s))) < ring_cap (free_command_pool (sm s))"
  by (auto simp: cmds_held_def all_cmd_bufs_def cmd_bufs_def)

lemma rx_pop:
  assumes "cmds_held M {#} s" "i < 2048" "ring_list (rx_rings (sm s) i) = v # vs"
  shows "cmds_held M (cmd_of v) (s\<lparr>sm := (sm s)\<lparr>rx_rings := (rx_rings (sm s))(i := deq_step (rx_rings (sm s) i) 1)\<rparr>\<rparr>)"
  using assms ring_pop [of "rx_rings (sm s) i"]
    all_cmd_bufs_rx [of i "sm s" v "deq_step (rx_rings (sm s) i) 1"]
  by (auto simp: cmds_held_def)

interpretation cb: command_discipline "cmds_held M {#}" "\<lambda>c. cmds_held M {#c#}" for M
proof
  show "cmds_held M {#} s \<Longrightarrow> cmd_view s' = cmd_view s \<Longrightarrow> cmds_held M {#} s'" for s s'
    by (auto simp: cmds_held_def cmd_view_def all_cmd_bufs_def cmd_bufs_def)
  show "cmds_held M {#c#} s \<Longrightarrow> cmd_view s' = cmd_view s \<Longrightarrow> cmds_held M {#c#} s'" for c s s'
    by (auto simp: cmds_held_def cmd_view_def all_cmd_bufs_def cmd_bufs_def)
next
  fix s s' oc
  assume inv: "cmds_held M {#} s" and g: "get_command s = Some (oc, s')"
  then show "case oc of None \<Rightarrow> cmds_held M {#} s' | Some c \<Rightarrow> cmds_held M {#c#} s'"
    using ring_pop [of "free_command_pool (sm s)"]
    by (auto simp: get_command_def get_free_command_buf_ok cmds_held_def all_cmd_bufs_def cmd_bufs_def
        split: list.splits)
next
  fix c s f fl s'
  assume h: "cmds_held M {#c#} s" and p: "post_command c f s = Some (fl, s')"
  then show "cmds_held M {#} s'"
    using ring_push [of "command_ring (sm s)" c] ring_push [of "free_command_pool (sm s)" c] cmds_held_room [OF h]
    by (auto simp: post_command_def enqueue_command_buf_ok free_command_buf_ok cmds_held_def all_cmd_bufs_def
        cmd_bufs_def split: if_splits)
next
  fix s i vs r b
  assume inv: "cmds_held M {#} s" and i: "i < 2048"
    and d: "rte_ring_sc_dequeue_burst (rx_rings (sm s) i) 1 = (1, vs, r)" "hd vs = MbufPtr b"
  have ok: "ring_ok (rx_rings (sm s) i)" using inv i by (simp add: cmds_held_def)
  from d(1) rx_burst_ok(1) [OF ok refl, of 1] obtain v us where "ring_list (rx_rings (sm s) i) = v # us"
    by (cases "ring_list (rx_rings (sm s) i)") auto
  then show "cmds_held M {#} (s\<lparr>sm := (sm s)\<lparr>rx_rings := (rx_rings (sm s))(i := r)\<rparr>\<rparr>)"
    using rx_pop [OF inv i] d rx_burst_ok(1) [OF ok refl, of 1] by auto
next
  fix s i ret vs r c
  assume inv: "cmds_held M {#} s" and i: "i < 2048"
    and d: "rte_ring_dequeue (rx_rings (sm s) i) = Some (ret, vs, r)"
  have "ring_ok (rx_rings (sm s) i)" using inv i by (simp add: cmds_held_def)
  then show "(ret \<noteq> 0 \<longrightarrow> cmds_held M {#} (s\<lparr>sm := (sm s)\<lparr>rx_rings := (rx_rings (sm s))(i := r)\<rparr>\<rparr>)) \<and>
      (ret = 0 \<and> hd vs = CmdPtr c \<longrightarrow> cmds_held M {#c#} (s\<lparr>sm := (sm s)\<lparr>rx_rings := (rx_rings (sm s))(i := r)\<rparr>\<rparr>))"
    using d inv rx_pop [OF inv i] by (auto simp: rte_ring_dequeue_ok split: list.splits)
qed

lemma app_okI:
  "app_ok s \<Longrightarrow> shm_ok (sm s') \<Longrightarrow> (\<And>j. local_cache (local_socket_descriptors s' j) = local_cache (local_socket_descriptors s j)) \<Longrightarrow>
   app_ok s'"
  by (simp add: app_ok_def)

text \<open>The three ends of every control call: no buffer, command posted, command ring full.\<close>

lemma command_cases:
  fixes f :: "ipaugenblick_cmd \<Rightarrow> ipaugenblick_cmd"
  assumes "shm_ok (sm s)"
  obtains (none) "ring_list (free_command_pool (sm s)) = []"
      "alloc_command s = Some (None, stat_add stats_cannot_allocate_cmd 1 s)"
  | (posted) c m s2 where "alloc_command s = Some (Some c, s\<lparr>sm := m\<rparr>)"
      "post_command c f (s\<lparr>sm := m\<rparr>) = Some (False, s2)"
      "ring_list (free_command_pool (sm s)) = c # ring_list (free_command_pool (sm s2))"
      "ring_list (command_ring (sm s2)) = ring_list (command_ring (sm s)) @ [c]"
      "cmds (sm s2) = (cmds (sm s))(c := f (cmds (sm s) c))"
      "length (ring_list (command_ring (sm s))) < ring_cap (command_ring (sm s))"
      "shm_ok (sm s2)" "same_but_cmds s s2" "pool_room (sm s2)"
  | (full) c m s2 where "alloc_command s = Some (Some c, s\<lparr>sm := m\<rparr>)"
      "post_command c f (s\<lparr>sm := m\<rparr>) = Some (True, s2)"
      "ring_list (free_command_pool (sm s)) \<noteq> []" "command_ring (sm s2) = command_ring (sm s)"
      "cmd_bufs (sm s2) = cmd_bufs (sm s)" "ring_cap (command_ring (sm s)) \<le> length (ring_list (command_ring (sm s)))"
      "shm_ok (sm s2)" "same_but_cmds s s2"
  using assms
proof (cases rule: alloc_command_cases)
  case (some c m)
  note alloc = some
  have "shm_ok (sm (s\<lparr>sm := m\<rparr>))" "pool_room (sm (s\<lparr>sm := m\<rparr>))"
    using alloc by simp_all
  then show thesis
  proof (cases rule: post_command_cases [where c = c and f = f])
    case (posted s2)
    then show thesis using that(2) [of c m s2] alloc by (simp add: same_but_cmds_def pool_room_def)
  next
    case (full s2)
    then show thesis using that(3) [of c m s2] alloc by (simp add: same_but_cmds_def cmd_bufs_def)
  qed
qed (rule none)

section \<open>Properties\<close>


lemma small_app_cmds: "all_cmd_bufs (sm small_app) = {#0, 1, 2#}"
proof -
  have "(\<Sum>i < 2048. sum_list (map cmd_of (ring_list (rx_rings (sm small_app) i)))) = {#}"
    by (rule sum.neutral) simp
  then show ?thesis
    unfolding all_cmd_bufs_def cmd_bufs_def by simp
qed

lemma small_app_listen: "\<exists>s'. run_calls [Listen 3, Read_updates] (small_app\<lparr>client_ring := Some 1\<rparr>) = Some s'"
proof -
  have "shm_ok (sm (small_app\<lparr>client_ring := Some 1\<rparr>))"
    using app_okD(1) [OF small_app_ok] by simp
  then show ?thesis
    by (cases rule: command_cases [where f = "\<lambda>k. k\<lparr>cmd := IPAUGENBLICK_LISTEN_SOCKET_COMMAND, ringset_idx := 3, parent_idx := 2\<rparr>"])
      (auto simp: run_calls_def ipaugenblick_listen_socket_def conn_idx_def same_but_cmds_def
        ipaugenblick_read_updates_def rte_ring_dequeue_ok)
qed


text \<open>
  Connecting a socket: with a free command buffer and room in the command ring the call
  returns 0, appends exactly one command that names the socket and the peer, and remembers the
  peer; otherwise it returns \<open>-2\<close> and neither posts nor loses a command buffer.
\<close>

theorem connect_posts_command:
  assumes "app_ok s" "conn_idx sock = Some i" "sin_family addr = AF_INET"
  shows "\<exists>rc s'. ipaugenblick_connect sock addr s = Some (rc, s') \<and> app_ok s' \<and>
    (if ring_list (free_command_pool (sm s)) = [] \<or>
        ring_cap (command_ring (sm s)) \<le> length (ring_list (command_ring (sm s)))
     then rc = -2 \<and> command_ring (sm s') = command_ring (sm s) \<and> cmd_bufs (sm s') = cmd_bufs (sm s) \<and>
          local_socket_descriptors s' = local_socket_descriptors s
     else rc = 0 \<and> (\<exists>c. ring_list (free_command_pool (sm s)) = c # ring_list (free_command_pool (sm s')) \<and>
          ring_list (command_ring (sm s')) = ring_list (command_ring (sm s)) @ [c] \<and>
          cmds (sm s') = (cmds (sm s))(c := \<lparr>cmd = IPAUGENBLICK_SOCKET_CONNECT_BIND_COMMAND, ringset_idx = i,
            parent_idx = ld_select (local_socket_descriptors s i),
            u = U_socket_connect_bind (sin_addr addr) (sin_port addr) True\<rparr>) \<and>
          ld_remote_ipaddr (local_socket_descriptors s' i) = sin_addr addr \<and>
          ld_remote_port (local_socket_descriptors s' i) = ucast (sin_port addr)))"
  using app_okD(1) [OF assms(1)]
proof (cases rule: command_cases [where f = "\<lambda>k. k\<lparr>cmd := IPAUGENBLICK_SOCKET_CONNECT_BIND_COMMAND, ringset_idx := i,
      parent_idx := ld_select (local_socket_descriptors s i),
      u := U_socket_connect_bind (sin_addr addr) (sin_port addr) True\<rparr>"])
  case none
  then show ?thesis using assms by (simp add: ipaugenblick_connect_def connect_bind_def)
next
  case (posted c m s2)
  then show ?thesis
    using assms by (auto simp: ipaugenblick_connect_def connect_bind_def same_but_cmds_def intro: app_okI [OF assms(1)])
next
  case (full c m s2)
  then show ?thesis
    using assms by (auto simp: ipaugenblick_connect_def connect_bind_def same_but_cmds_def intro: app_okI [OF assms(1)])
qed

theorem connect_posts_command_witness:
  "\<exists>s'. ipaugenblick_connect 3 \<lparr>sin_family = AF_INET, sin_addr = 0x0A000001, sin_port = 80\<rparr> small_app = Some (0, s') \<and>
    ring_list (command_ring (sm s')) = [0] \<and>
    u (cmds (sm s') 0) = U_socket_connect_bind 0x0A000001 80 True"
  using connect_posts_command [of small_app 3 3 "\<lparr>sin_family = AF_INET, sin_addr = 0x0A000001, sin_port = 80\<rparr>"]
  by (auto simp: conn_idx_def)

lemma small_shm_idx: "connection_idx (g_sockets small_shm i) = i"
  by (simp add: small_shm_def)

text \<open>
  C14. Opening a socket takes the oldest free connection. When its command could be posted, the
  connection's index is returned and its local descriptor is reset and bound to the connection and
  the requested selector; when no command buffer is free (\<open>-2\<close>) or the command ring is full
  (\<open>-3\<close>) the connection has nevertheless left the free list and no one holds it: it is leaked.
\<close>

theorem open_socket_outcome:
  assumes "app_ok s" "ring_list (free_connections_ring (sm s)) = g # gs"
    "connection_idx (g_sockets (sm s) g) = i" "i < 2048"
  shows "\<exists>rc s'. ipaugenblick_open_socket family type parent s = Some (rc, s') \<and> app_ok s' \<and>
    ring_list (free_connections_ring (sm s')) = gs \<and>
    (if ring_list (free_command_pool (sm s)) = []
     then rc = -2 \<and> local_socket_descriptors s' = local_socket_descriptors s
     else if ring_cap (command_ring (sm s)) \<le> length (ring_list (command_ring (sm s)))
     then rc = -3 \<and> local_socket_descriptors s' = local_socket_descriptors s
     else rc = int i \<and> ring_list (command_ring (sm s')) =
            ring_list (command_ring (sm s)) @ [hd (ring_list (free_command_pool (sm s)))] \<and>
          cmds (sm s') (hd (ring_list (free_command_pool (sm s)))) =
            \<lparr>cmd = IPAUGENBLICK_OPEN_SOCKET_COMMAND, ringset_idx = i, parent_idx = parent,
             u = U_open_sock family type (getpid s)\<rparr> \<and>
          ld_socket (local_socket_descriptors s' i) = Some g \<and> ld_select (local_socket_descriptors s' i) = parent \<and>
          shadow (local_socket_descriptors s' i) = None \<and> \<not> present_in_ready_cache (local_socket_descriptors s' i))"
proof -
  let ?s1 = "s\<lparr>sm := (sm s)\<lparr>free_connections_ring := deq_step (free_connections_ring (sm s)) 1\<rparr>\<rparr>"
  let ?f = "\<lambda>k. k\<lparr>cmd := IPAUGENBLICK_OPEN_SOCKET_COMMAND, ringset_idx := i, parent_idx := parent,
      u := U_open_sock family type (getpid s)\<rparr>"
  note fr = shm_okD(3) [OF app_okD(1) [OF assms(1)]]
  have deq: "rte_ring_dequeue (free_connections_ring (sm s)) = Some (0, [g], deq_step (free_connections_ring (sm s)) 1)"
    "ring_ok (deq_step (free_connections_ring (sm s)) 1)" "ring_list (deq_step (free_connections_ring (sm s)) 1) = gs"
    using ring_pop [OF fr] assms(2) rte_ring_dequeue_ok [OF fr] by simp_all
  have ok1: "shm_ok (sm ?s1)"
    using deq(2) app_okD(1) [OF assms(1)] by simp
  then show ?thesis
  proof (cases rule: command_cases [where f = ?f])
    case none
    then show ?thesis
      using assms deq ok1 by (auto simp: ipaugenblick_open_socket_def intro: app_okI [OF assms(1)])
  next
    case (posted c m s2)
    then show ?thesis
      using assms deq
      by (auto simp: ipaugenblick_open_socket_def same_but_cmds_def conn_idx_def ipaugenblick_reset_local_descriptor_def
          intro: app_okI [OF assms(1)])
  next
    case (full c m s2)
    then show ?thesis
      using assms deq
      by (auto simp: ipaugenblick_open_socket_def same_but_cmds_def intro: app_okI [OF assms(1)])
  qed
qed

theorem open_socket_outcome_witness:
  "\<exists>s'. ipaugenblick_open_socket 2 1 2 small_app = Some (4, s') \<and> ring_list (free_connections_ring (sm s')) = [5] \<and>
    ld_socket (local_socket_descriptors s' 4) = Some 4"
  using open_socket_outcome [of small_app 4 "[5]" 4 2 1 2]
  by (auto simp: small_shm_idx)


definition listening_app :: app where
  "listening_app = small_app\<lparr>sm := small_shm\<lparr>
     rx_rings := (rx_rings small_shm)(3 := enq_step (data_ring (MbufPtr 0)) [CmdPtr 6] 1),
     cmds := (cmds small_shm)(6 := \<lparr>cmd = IPAUGENBLICK_SOCKET_ACCEPTED_COMMAND, ringset_idx = 0, parent_idx = -1,
       u = U_accepted_socket 30 0x0A000001 5000\<rparr>)\<rparr>\<rparr>"

lemma listening_app_rx:
  "ring_ok (enq_step (data_ring (MbufPtr 0)) [CmdPtr 6] 1)"
  "ring_list (enq_step (data_ring (MbufPtr 0)) [CmdPtr 6] 1) = [CmdPtr 6]"
  using ring_push [of "data_ring (MbufPtr 0)" "CmdPtr 6"] by simp_all


end
