(* ===== verification/Api_Data.thy ===== *)
theory Api_Data
  imports Api_Control "HOL-Library.Signed_Division"
begin

unbundle bit_operations_syntax

text \<open>
  The data path of \<open>ipaugenblick_api.c\<close>: transmit credit, sending, receiving with a byte limit,
  and the allocation and release of buffers. A buffer descriptor (\<open>pdesc\<close>) is the number of the
  packet buffer; the data pointer the C functions also hand out is a function of it. When a call
  moves the start of the data of a buffer, the list \<open>data\<close> of its bytes starts later.
\<close>

section \<open>Transmit credit\<close>

definition clear_write_ready :: "nat \<Rightarrow> app \<Rightarrow> app" where
  "clear_write_ready g s = s\<lparr>sm := upd_g_socket g (\<lambda>k. k\<lparr>write_ready_to_app := False\<rparr>) (sm s)\<rparr>"

definition ipaugenblick_get_socket_tx_space :: "int \<Rightarrow> app \<Rightarrow> (int \<times> app) option" where
  "ipaugenblick_get_socket_tx_space sock s =
     do { i \<leftarrow> conn_idx sock;
          j \<leftarrow> masked_idx sock;
          g \<leftarrow> ld_socket (local_socket_descriptors s j);
          let ring_space = ipaugenblick_socket_tx_space i s;
              free_bufs_count = sint (rte_mempool_count (mbuf_pool (sm s)));
              rc = (if ring_space > free_bufs_count then (if free_bufs_count > 0 then free_bufs_count else 0)
                    else ring_space);
              tx = sint (tx_space (g_sockets (sm s) g)) sdiv 1448;
              rc = (if rc > tx then tx else rc) in
          if rc < 10
          then do { s1 \<leftarrow> ipaugenblick_notify_empty_tx_buffers sock (clear_write_ready g s); Some (rc, s1) }
          else Some (rc, s) }"

definition ipaugenblick_get_socket_tx_space_own_buffer :: "int \<Rightarrow> app \<Rightarrow> (int \<times> app) option" where
  "ipaugenblick_get_socket_tx_space_own_buffer sock s =
     do { i \<leftarrow> conn_idx sock;
          j \<leftarrow> masked_idx sock;
          g \<leftarrow> ld_socket (local_socket_descriptors s j);
          let ring_space = ipaugenblick_socket_tx_space i s;
              tx = sint (tx_space (g_sockets (sm s) g)) sdiv 1448;
              rc = (if ring_space > tx then tx else ring_space) in
          if rc = 0
          then do { s1 \<leftarrow> ipaugenblick_notify_empty_tx_buffers sock (clear_write_ready g s); Some (rc, s1) }
          else Some (rc, s) }"

section \<open>Sending\<close>

text \<open>The end of every send: charge the credit, or take the socket out of the writable cache.\<close>

definition finish_send :: "nat \<Rightarrow> nat \<Rightarrow> int \<Rightarrow> bool \<Rightarrow> app \<Rightarrow> (int \<times> app) option" where
  "finish_send i g len full s =
     (if full
      then do { s1 \<leftarrow> ipaugenblick_update_local_ready_cache i SOCKET_WRITABLE_BIT s;
                Some (1, stat_add stats_send_failure 1 s1) }
      else Some (0, s\<lparr>sm := upd_g_socket g (\<lambda>k. k\<lparr>tx_space := tx_space k - of_int len\<rparr>) (sm s)\<rparr>))"

definition ipaugenblick_send :: "int \<Rightarrow> nat \<Rightarrow> int \<Rightarrow> app \<Rightarrow> (int \<times> app) option" where
  "ipaugenblick_send sock pdesc len s =
     do { i \<leftarrow> conn_idx sock;
          j \<leftarrow> masked_idx sock;
          g \<leftarrow> ld_socket (local_socket_descriptors s j);
          let s1 = stat_add stats_send_called 1 s;
              s2 = clear_write_ready g
                     (s1\<lparr>sm := upd_mbuf pdesc (\<lambda>b. b\<lparr>data_len := of_int len, nxt := None\<rparr>) (sm s1)\<rparr>);
              (full, s3) = ipaugenblick_enqueue_tx_buf i pdesc s2 in
          finish_send i g len full s3 }"

definition set_lens :: "(nat \<times> int) list \<Rightarrow> shm \<Rightarrow> shm" where
  "set_lens bs m = fold (\<lambda>(b, n). upd_mbuf b (\<lambda>k. k\<lparr>data_len := of_int n\<rparr>)) bs m"

definition ipaugenblick_send_bulk :: "int \<Rightarrow> (nat \<times> int) list \<Rightarrow> app \<Rightarrow> (int \<times> app) option" where
  "ipaugenblick_send_bulk sock bufs s =
     do { i \<leftarrow> conn_idx sock;
          g \<leftarrow> ld_socket (local_socket_descriptors s i);
          let s1 = stat_add stats_buffers_sent (of_nat (length bufs)) (stat_add stats_send_called 1 s);
              s2 = clear_write_ready g (s1\<lparr>sm := set_lens bufs (sm s1)\<rparr>);
              (full, s3) = ipaugenblick_enqueue_tx_bufs_bulk i (map fst bufs) s2 in
          finish_send i g (sum_list (map snd bufs)) full s3 }"

text \<open>The peer of a datagram is written right before its data.\<close>

definition put_addr :: "nat \<Rightarrow> sockaddr_in \<Rightarrow> shm \<Rightarrow> shm" where
  "put_addr b addr = upd_mbuf b (\<lambda>k. k\<lparr>headroom := (headroom k)(data_off k := Some addr)\<rparr>)"

definition ipaugenblick_sendto :: "int \<Rightarrow> nat \<Rightarrow> int \<Rightarrow> sockaddr_in \<Rightarrow> app \<Rightarrow> (int \<times> app) option" where
  "ipaugenblick_sendto sock pdesc len addr s =
     do { i \<leftarrow> conn_idx sock;
          j \<leftarrow> masked_idx sock;
          g \<leftarrow> ld_socket (local_socket_descriptors s j);
          let s1 = stat_add stats_send_called 1 s;
              s2 = clear_write_ready g
                     (s1\<lparr>sm := put_addr pdesc addr (upd_mbuf pdesc (\<lambda>b. b\<lparr>data_len := of_int len\<rparr>) (sm s1))\<rparr>);
              (full, s3) = ipaugenblick_enqueue_tx_buf i pdesc s2 in
          finish_send i g len full s3 }"

definition set_lens_addrs :: "(nat \<times> int \<times> sockaddr_in) list \<Rightarrow> shm \<Rightarrow> shm" where
  "set_lens_addrs bs m =
     fold (\<lambda>(b, n, a) m. put_addr b a (upd_mbuf b (\<lambda>k. k\<lparr>data_len := of_int n\<rparr>) m)) bs m"

definition ipaugenblick_sendto_bulk :: "int \<Rightarrow> (nat \<times> int \<times> sockaddr_in) list \<Rightarrow> app \<Rightarrow> (int \<times> app) option" where
  "ipaugenblick_sendto_bulk sock bufs s =
     do { i \<leftarrow> conn_idx sock;
          j \<leftarrow> masked_idx sock;
          g \<leftarrow> ld_socket (local_socket_descriptors s j);
          let s1 = stat_add stats_buffers_sent (of_nat (length bufs)) (stat_add stats_send_called 1 s);
              s2 = clear_write_ready g (s1\<lparr>sm := set_lens_addrs bufs (sm s1)\<rparr>);
              (full, s3) = ipaugenblick_enqueue_tx_bufs_bulk i (map fst bufs) s2 in
          finish_send i g (sum_list (map (fst \<circ> snd) bufs)) full s3 }"

section \<open>Receiving\<close>

text \<open>
  A partly read chain waits in \<open>shadow\<close>: its first buffer, of which \<open>shadow_len_delievered\<close> bytes
  were handed out, and the rest of the chain in \<open>shadow_next\<close>.
\<close>

definition ipaugenblick_get_from_shadow :: "nat \<Rightarrow> app \<Rightarrow> nat option \<times> app" where
  "ipaugenblick_get_from_shadow i s =
     (let d = local_socket_descriptors s i in
      case shadow d of None \<Rightarrow> (None, s)
      | Some b \<Rightarrow>
        let m = upd_mbuf b (\<lambda>k. k\<lparr>data_len := of_int (shadow_len_remainder d),
                   data_off := data_off k + of_int (shadow_len_delievered d),
                   data := drop (nat (shadow_len_delievered d)) (data k)\<rparr>) (sm s);
            m = upd_mbuf b (\<lambda>k. k\<lparr>pkt_len := ucast (data_len k) +
                   (case nxt k of None \<Rightarrow> 0 | Some n \<Rightarrow> pkt_len (mbufs m n))\<rparr>) m;
            m = upd_mbuf b (\<lambda>k. k\<lparr>nxt := shadow_next d\<rparr>) m in
        (Some b, upd_ld i (\<lambda>d. d\<lparr>shadow := None, shadow_next := None\<rparr>) (s\<lparr>sm := m\<rparr>)))"

partial_function (option) scan_chain ::
  "(nat \<Rightarrow> rte_mbuf) \<Rightarrow> int \<Rightarrow> nat option \<Rightarrow> nat option \<Rightarrow> int \<Rightarrow> (nat option \<times> nat option \<times> int) option" where
  "scan_chain mb total_len tmp prev curr_len =
     (case tmp of None \<Rightarrow> Some (None, prev, curr_len)
      | Some p \<Rightarrow>
          if uint (data_len (mb p)) + curr_len < total_len
          then scan_chain mb total_len (nxt (mb p)) (Some p) (curr_len + uint (data_len (mb p)))
          else Some (Some p, prev, curr_len))"

text \<open>The results are the new values of \<open>*total_len\<close> and \<open>*first_segment_len\<close>.\<close>

definition ipaugenblick_try_read_exact_amount :: "nat \<Rightarrow> nat \<Rightarrow> int \<Rightarrow> app \<Rightarrow> ((int \<times> int) \<times> app) option" where
  "ipaugenblick_try_read_exact_amount mbuf i total_len s =
     (let mb = mbufs (sm s) in
      do { (tmp, prev, curr_len) \<leftarrow> scan_chain mb total_len (Some mbuf) None 0;
           case tmp of None \<Rightarrow> Some ((curr_len, uint (data_len (mb mbuf))), s)
           | Some p \<Rightarrow>
             let len = uint (data_len (mb p));
                 (first, s1) =
                   (if curr_len + len > total_len
                    then let rmd = (curr_len + len) - total_len; del = len - rmd in
                         (del, upd_ld i (\<lambda>d. d\<lparr>shadow := Some p, shadow_next := nxt (mb p),
                                               shadow_len_remainder := rmd, shadow_len_delievered := del\<rparr>)
                                 (s\<lparr>sm := upd_mbuf p (\<lambda>b. b\<lparr>data_len := of_int del\<rparr>) (sm s)\<rparr>))
                    else (uint (data_len (mb mbuf)),
                          case nxt (mb p) of None \<Rightarrow> s
                          | Some q \<Rightarrow>
                            upd_ld i (\<lambda>d. case nxt (mb q) of
                                None \<Rightarrow> d\<lparr>shadow := Some q, shadow_next := None\<rparr>
                              | Some r \<Rightarrow> d\<lparr>shadow := Some q, shadow_next := Some r,
                                            shadow_len_remainder := uint (data_len (mb r)),
                                            shadow_len_delievered := 0\<rparr>) s));
                 m2 = upd_mbuf p (\<lambda>b. b\<lparr>nxt := None\<rparr>) (sm s1);
                 m3 = (if curr_len = total_len
                       then case prev of None \<Rightarrow> m2 | Some q \<Rightarrow> upd_mbuf q (\<lambda>b. b\<lparr>nxt := None\<rparr>) m2
                       else m2) in
             Some ((total_len, first), s1\<lparr>sm := m3\<rparr>) })"

text \<open>Data is left in \<open>shadow\<close>: post a readable event to one's own selector.\<close>

definition requeue_readable :: "nat \<Rightarrow> app \<Rightarrow> app option" where
  "requeue_readable i s =
     (let d = local_socket_descriptors s i in
      if shadow d \<noteq> None \<and> ld_select d \<noteq> -1
      then do { p \<leftarrow> selector_idx (ld_select d);
                (_, r) \<leftarrow> rte_ring_enqueue (ready_connections (sm s) p) (ready_mask i SOCKET_READABLE_BIT);
                Some (s\<lparr>sm := (sm s)\<lparr>ready_connections := (ready_connections (sm s))(p := r)\<rparr>\<rparr>) }
      else Some s)"

definition set_next :: "nat \<Rightarrow> nat option \<Rightarrow> app \<Rightarrow> app" where
  "set_next b n s = s\<lparr>sm := upd_mbuf b (\<lambda>k. k\<lparr>nxt := n\<rparr>) (sm s)\<rparr>"

text \<open>A limited read that starts with the buffer left in \<open>shadow\<close>.\<close>

definition receive_shadow_limited :: "int \<Rightarrow> nat \<Rightarrow> nat \<Rightarrow> int \<Rightarrow> app \<Rightarrow> ((int \<times> (nat \<times> int \<times> int) option) \<times> app) option" where
  "receive_shadow_limited sock i mbuf total_len s =
     do { ((total2, first), s1) \<leftarrow> ipaugenblick_try_read_exact_amount mbuf i total_len s;
          (total_len', s2) \<leftarrow>
            (if 0 < total2 \<and> total2 < total_len
             then do { (om, s2) \<leftarrow> ipaugenblick_dequeue_rx_buf sock s1;
                  case om of None \<Rightarrow> Some (total2, s2)
                  | Some mbuf2 \<Rightarrow>
                    do { ((total3, _), s3) \<leftarrow> ipaugenblick_try_read_exact_amount mbuf2 i (total_len - total2) s2;
                         last_mbuf \<leftarrow> rte_pktmbuf_lastseg (mbufs (sm s3)) mbuf;
                         Some (total2 + total3, set_next last_mbuf (Some mbuf2) s3) } }
             else Some (total_len, s1));
          s3 \<leftarrow> requeue_readable i s2;
          Some ((0, Some (mbuf, total_len', first)), s3) }"

text \<open>A read of everything that starts with the buffer left in \<open>shadow\<close>.\<close>

definition receive_shadow_all :: "int \<Rightarrow> nat \<Rightarrow> app \<Rightarrow> ((int \<times> (nat \<times> int \<times> int) option) \<times> app) option" where
  "receive_shadow_all sock mbuf s =
     do { (om, s1) \<leftarrow> ipaugenblick_dequeue_rx_buf sock s;
          last_mbuf \<leftarrow> rte_pktmbuf_lastseg (mbufs (sm s1)) mbuf;
          let s2 = set_next last_mbuf om s1;
              s3 = (case om of None \<Rightarrow> s2
                    | Some m2 \<Rightarrow> s2\<lparr>sm := upd_mbuf mbuf (\<lambda>k. k\<lparr>pkt_len := pkt_len k + pkt_len (mbufs (sm s2) m2)\<rparr>) (sm s2)\<rparr>);
              k = mbufs (sm s3) mbuf in
          Some ((0, Some (mbuf, sint (pkt_len k), uint (data_len k))), s3) }"

definition receive_ring :: "int \<Rightarrow> nat \<Rightarrow> int \<Rightarrow> app \<Rightarrow> ((int \<times> (nat \<times> int \<times> int) option) \<times> app) option" where
  "receive_ring sock i total_len s =
     do { (om, s1) \<leftarrow> ipaugenblick_dequeue_rx_buf sock s;
          case om of
            None \<Rightarrow> do { j \<leftarrow> masked_idx sock;
                         s2 \<leftarrow> ipaugenblick_update_local_ready_cache j SOCKET_READABLE_BIT s1;
                         Some ((-1, None), stat_add stats_recv_failure 1 s2) }
          | Some mbuf \<Rightarrow>
              if total_len > 0
              then do { ((total2, first), s2) \<leftarrow> ipaugenblick_try_read_exact_amount mbuf i total_len s1;
                        s3 \<leftarrow> requeue_readable i s2;
                        Some ((0, Some (mbuf, total2, first)), s3) }
              else let k = mbufs (sm s1) mbuf in
                   Some ((0, Some (mbuf, sint (pkt_len k), uint (data_len k))),
                         stat_add stats_rx_returned (ucast (nb_segs k)) s1) }"

definition ipaugenblick_receive :: "int \<Rightarrow> int \<Rightarrow> app \<Rightarrow> ((int \<times> (nat \<times> int \<times> int) option) \<times> app) option" where
  "ipaugenblick_receive sock total_len s =
     do { i \<leftarrow> conn_idx sock;
          case ipaugenblick_get_from_shadow i (stat_add stats_receive_called 1 s) of
            (Some mbuf, s1) \<Rightarrow>
              if total_len > 0 then receive_shadow_limited sock i mbuf total_len s1 else receive_shadow_all sock mbuf s1
          | (None, s1) \<Rightarrow> receive_ring sock i total_len s1 }"

definition ipaugenblick_receivefrom :: "int \<Rightarrow> app \<Rightarrow> ((int \<times> (nat \<times> int \<times> sockaddr_in option) option) \<times> app) option" where
  "ipaugenblick_receivefrom sock s =
     do { (om, s1) \<leftarrow> ipaugenblick_dequeue_rx_buf sock s;
          let s2 = stat_add stats_receive_called 1 s1 in
          case om of
            None \<Rightarrow> do { i \<leftarrow> conn_idx sock;
                         s3 \<leftarrow> ipaugenblick_update_local_ready_cache i SOCKET_READABLE_BIT s2;
                         Some ((-1, None), stat_add stats_recv_failure 1 s3) }
          | Some b \<Rightarrow> let k = mbufs (sm s2) b in
                      Some ((0, Some (b, sint (pkt_len k), headroom k (data_off k))), s2) }"

section \<open>Buffers\<close>

definition ipaugenblick_get_buffer :: "int \<Rightarrow> app \<Rightarrow> (nat option \<times> app) option" where
  "ipaugenblick_get_buffer owner_sock s =
     do { (ob, m) \<leftarrow> rte_pktmbuf_alloc (sm s);
          case ob of
            None \<Rightarrow> do { s1 \<leftarrow> ipaugenblick_notify_empty_tx_buffers owner_sock (s\<lparr>sm := m\<rparr>);
                         Some (None, stat_add stats_tx_buf_allocation_failure 1 s1) }
          | Some b \<Rightarrow> Some (Some b, stat_add stats_buffers_allocated 1 (s\<lparr>sm := m\<rparr>)) }"

definition prepare_buf :: "nat \<Rightarrow> shm \<Rightarrow> shm" where
  "prepare_buf b = upd_mbuf b (\<lambda>k. (rte_pktmbuf_reset k)\<lparr>refcnt := refcnt k + 1\<rparr>)"

definition ipaugenblick_get_buffers_bulk :: "int \<Rightarrow> nat \<Rightarrow> app \<Rightarrow> ((int \<times> nat list) \<times> app) option" where
  "ipaugenblick_get_buffers_bulk owner_sock cnt s =
     do { (ret, bs, mp) \<leftarrow> rte_ring_mc_dequeue_bulk (mbuf_pool (sm s)) (of_nat cnt);
          if ret \<noteq> 0
          then do { s1 \<leftarrow> ipaugenblick_notify_empty_tx_buffers owner_sock s;
                    Some ((1, []), stat_add stats_tx_buf_allocation_failure 1 s1) }
          else Some ((0, bs), stat_add stats_buffers_allocated (of_nat cnt)
                        (s\<lparr>sm := fold prepare_buf bs ((sm s)\<lparr>mbuf_pool := mp\<rparr>)\<rparr>)) }"

definition ipaugenblick_release_tx_buffer :: "nat \<Rightarrow> app \<Rightarrow> app option" where
  "ipaugenblick_release_tx_buffer pdesc s =
     do { m \<leftarrow> rte_pktmbuf_free_seg pdesc (sm s); Some (s\<lparr>sm := m\<rparr>) }"

text \<open>
  Releasing a received chain: collect up to \<open>MAX_PKT_BURST\<close> buffers whose last reference this was,
  stop at the buffer kept in \<open>shadow\<close>, and return them to the pool together.
\<close>

partial_function (option) collect_segs ::
  "nat option \<Rightarrow> nat list \<Rightarrow> nat option \<Rightarrow> shm \<Rightarrow> (nat list \<times> nat option \<times> shm) option" where
  "collect_segs sh acc mbuf m =
     (case mbuf of None \<Rightarrow> Some (acc, None, m)
      | Some b \<Rightarrow>
          if length acc \<ge> MAX_PKT_BURST then Some (acc, Some b, m)
          else if Some b = sh then Some (acc, None, m)
          else let nx = nxt (mbufs m b) in
               case rte_pktmbuf_prefree_seg b m of
                 (is_last, m1) \<Rightarrow>
                   if is_last then collect_segs sh (acc @ [b]) nx (upd_mbuf b (\<lambda>k. k\<lparr>nxt := None\<rparr>) m1)
                   else collect_segs sh acc nx m1)"

definition rte_mempool_put_bulk :: "'a rte_ring \<Rightarrow> 'a list \<Rightarrow> 'a rte_ring option" where
  "rte_mempool_put_bulk mp bs =
     do { (_, mp') \<leftarrow> rte_ring_mp_enqueue_bulk mp bs (of_nat (length bs)); Some mp' }"

partial_function (option) release_loop :: "nat option \<Rightarrow> nat option \<Rightarrow> shm \<Rightarrow> shm option" where
  "release_loop sh mbuf m =
     (case mbuf of None \<Rightarrow> Some m
      | Some b \<Rightarrow>
        do { (bs, rest, m1) \<leftarrow> collect_segs sh [] (Some b) m;
             if bs \<noteq> []
             then do { mp \<leftarrow> rte_mempool_put_bulk (mbuf_pool m1) bs;
                       release_loop sh rest (m1\<lparr>mbuf_pool := mp\<rparr>) }
             else release_loop sh rest m1 })"

definition ipaugenblick_release_rx_buffer :: "nat option \<Rightarrow> int \<Rightarrow> app \<Rightarrow> app option" where
  "ipaugenblick_release_rx_buffer pdesc sock s =
     do { i \<leftarrow> conn_idx sock;
          m \<leftarrow> release_loop (shadow (local_socket_descriptors s i)) pdesc (sm s);
          Some (s\<lparr>sm := m\<rparr>) }"

text \<open>Walking a received chain. The second function clears \<open>next\<close> of the segment it moves to.\<close>

definition ipaugenblick_get_next_buffer_segment :: "nat \<Rightarrow> app \<Rightarrow> (nat \<times> u16) option" where
  "ipaugenblick_get_next_buffer_segment pdesc s =
     (case nxt (mbufs (sm s) pdesc) of None \<Rightarrow> None | Some b \<Rightarrow> Some (b, data_len (mbufs (sm s) b)))"

definition ipaugenblick_get_next_buffer_segment_and_detach_first :: "nat \<Rightarrow> app \<Rightarrow> (nat \<times> u16) option \<times> app" where
  "ipaugenblick_get_next_buffer_segment_and_detach_first pdesc s =
     (case nxt (mbufs (sm s) pdesc) of None \<Rightarrow> (None, s)
      | Some b \<Rightarrow> (Some (b, data_len (mbufs (sm s) b)),
                   s\<lparr>sm := upd_mbuf b (\<lambda>k. k\<lparr>nxt := None, nb_segs := 1\<rparr>) (sm s)\<rparr>))"

definition ipaugenblick_set_buffer_data_len :: "nat \<Rightarrow> int \<Rightarrow> app \<Rightarrow> app" where
  "ipaugenblick_set_buffer_data_len b len s = s\<lparr>sm := upd_mbuf b (\<lambda>k. k\<lparr>data_len := of_int len\<rparr>) (sm s)\<rparr>"

definition ipaugenblick_get_buffer_data_len :: "nat \<Rightarrow> app \<Rightarrow> int" where
  "ipaugenblick_get_buffer_data_len b s = uint (data_len (mbufs (sm s) b))"

definition ipaugenblick_update_rfc :: "nat \<Rightarrow> int \<Rightarrow> app \<Rightarrow> app" where
  "ipaugenblick_update_rfc b delta s = s\<lparr>sm := upd_mbuf b (\<lambda>k. k\<lparr>refcnt := refcnt k + of_int delta\<rparr>) (sm s)\<rparr>"

section \<open>Chains of buffers\<close>

text \<open>\<open>chain mb x bs\<close>: following \<open>next\<close> from \<open>x\<close> visits exactly \<open>bs\<close>.\<close>

primrec chain :: "(nat \<Rightarrow> rte_mbuf) \<Rightarrow> nat option \<Rightarrow> nat list \<Rightarrow> bool" where
  "chain mb x [] \<longleftrightarrow> x = None"
| "chain mb x (b # bs) \<longleftrightarrow> x = Some b \<and> chain mb (nxt (mb b)) bs"

lemma chain_None [simp]: "chain mb None bs \<longleftrightarrow> bs = []"
  by (cases bs) auto

lemma chain_cong: "(\<And>b. b \<in> set bs \<Longrightarrow> nxt (mb' b) = nxt (mb b)) \<Longrightarrow> chain mb' x bs = chain mb x bs"
  by (induction bs arbitrary: x) auto

lemma chain_unique: "chain mb x bs \<Longrightarrow> chain mb x cs \<Longrightarrow> bs = cs"
proof (induction bs arbitrary: x cs)
  case (Cons b bs)
  then show ?case by (cases cs) auto
qed simp

lemma chain_suffix: "chain mb x (us @ b # bs) \<Longrightarrow> chain mb (Some b) (b # bs)"
  by (induction us arbitrary: x) auto

lemma chain_distinct: "chain mb x bs \<Longrightarrow> distinct bs"
proof (induction bs arbitrary: x)
  case (Cons b bs)
  have "b \<notin> set bs"
  proof
    assume "b \<in> set bs"
    then obtain us vs where bs: "bs = us @ b # vs" by (meson split_list)
    have "chain mb (Some b) (b # vs)"
      using Cons.prems bs chain_suffix [of mb x "b # us" b vs] by simp
    then have "b # bs = b # vs"
      using Cons.prems chain_unique [of mb "Some b" "b # bs" "b # vs"] by simp
    then show False using bs by simp
  qed
  then show ?case using Cons by auto
qed simp

abbreviation seg_len :: "(nat \<Rightarrow> rte_mbuf) \<Rightarrow> nat \<Rightarrow> nat" where
  "seg_len mb b \<equiv> unat (data_len (mb b))"

definition chain_len :: "(nat \<Rightarrow> rte_mbuf) \<Rightarrow> nat list \<Rightarrow> nat" where
  "chain_len mb bs = sum_list (map (seg_len mb) bs)"

definition payload :: "(nat \<Rightarrow> rte_mbuf) \<Rightarrow> nat list \<Rightarrow> u8 list" where
  "payload mb bs = concat (map (\<lambda>b. take (seg_len mb b) (data (mb b))) bs)"

text \<open>Every segment holds the bytes its length promises.\<close>

definition filled :: "(nat \<Rightarrow> rte_mbuf) \<Rightarrow> nat list \<Rightarrow> bool" where
  "filled mb bs \<longleftrightarrow> (\<forall>b \<in> set bs. seg_len mb b \<le> length (data (mb b)))"

lemma length_payload: "filled mb bs \<Longrightarrow> length (payload mb bs) = chain_len mb bs"
  by (induction bs) (auto simp: payload_def chain_len_def filled_def)

lemma payload_append [simp]:
  "payload mb (bs @ cs) = payload mb bs @ payload mb cs"
  "payload mb (b # cs) = take (seg_len mb b) (data (mb b)) @ payload mb cs" "payload mb [] = []"
  by (simp_all add: payload_def)

lemma payload_cong:
  "(\<And>b. b \<in> set bs \<Longrightarrow> data_len (mb' b) = data_len (mb b) \<and> data (mb' b) = data (mb b)) \<Longrightarrow> payload mb' bs = payload mb bs"
  by (induction bs) (auto simp: payload_def)

text \<open>The scan of a chain ends in the segment that holds byte number \<open>n\<close>.\<close>

lemma scan_chain_finds:
  assumes "chain mb x (us @ p # vs)" "curr_len + int (chain_len mb us) < n" "n \<le> curr_len + int (chain_len mb us) + int (seg_len mb p)"
  shows "\<exists>pr. scan_chain mb n x prev curr_len = Some (Some p, pr, curr_len + int (chain_len mb us))"
  using assms
proof (induction us arbitrary: x prev curr_len)
  case Nil
  then show ?case by (subst scan_chain.simps) (simp add: chain_len_def)
next
  case (Cons b us)
  then have x: "x = Some b" "chain mb (nxt (mb b)) (us @ p # vs)" by auto
  have "uint (data_len (mb b)) + curr_len < n"
    using Cons.prems(2) by (simp add: chain_len_def)
  then show ?case
    using Cons.IH [OF x(2), of "curr_len + int (seg_len mb b)" "Some b"] Cons.prems(2,3)
    by (subst scan_chain.simps) (simp add: x chain_len_def add.assoc)
qed

lemma scan_chain_end:
  assumes "chain mb x bs" "curr_len + int (chain_len mb bs) < n"
  shows "\<exists>pr. scan_chain mb n x prev curr_len = Some (None, pr, curr_len + int (chain_len mb bs))"
  using assms
proof (induction bs arbitrary: x prev curr_len)
  case Nil
  then show ?case by (subst scan_chain.simps) (simp add: chain_len_def)
next
  case (Cons b bs)
  then have x: "x = Some b" "chain mb (nxt (mb b)) bs" by auto
  have "uint (data_len (mb b)) + curr_len < n"
    using Cons.prems(2) by (simp add: chain_len_def)
  then show ?case
    using Cons.IH [OF x(2), of "curr_len + int (seg_len mb b)" "Some b"] Cons.prems(2)
    by (subst scan_chain.simps) (simp add: x chain_len_def add.assoc)
qed

lemma chain_cut:
  assumes "chain mb x (us @ p # vs)" "nxt k = None"
  shows "chain (mb(p := k)) x (us @ [p])"
proof -
  have "p \<notin> set us" using chain_distinct [OF assms(1)] by auto
  then show ?thesis using assms by (induction us arbitrary: x) auto
qed

lemma take_drop_segment:
  assumes "length xs < n" "n < length xs + l" "l \<le> length d"
  shows "take n (xs @ take l d @ ys) = xs @ take (n - length xs) d"
    "drop n (xs @ take l d @ ys) = take (length xs + l - n) (drop (n - length xs) d) @ ys"
  using assms by (auto simp: min_def drop_take add.commute)

section \<open>Properties\<close>

text \<open>
  C16. A read that is limited to \<open>n\<close> bytes and ends inside a segment hands out exactly the first
  \<open>n\<close> bytes of the received chain, and what the next read gets from \<open>shadow\<close> is exactly the
  rest: no byte is lost, repeated or reordered.
\<close>

theorem exact_read_splits:
  assumes mb: "mb = mbufs (sm s)" and ch: "chain mb (Some b) (us @ p # vs)" "filled mb (us @ p # vs)"
    and n: "chain_len mb us < n" "n < chain_len mb us + seg_len mb p"
  shows "\<exists>first s1 s2. ipaugenblick_try_read_exact_amount b i (int n) s = Some ((int n, first), s1) \<and>
    chain (mbufs (sm s1)) (Some b) (us @ [p]) \<and>
    payload (mbufs (sm s1)) (us @ [p]) = take n (payload mb (us @ p # vs)) \<and>
    ipaugenblick_get_from_shadow i s1 = (Some p, s2) \<and> chain (mbufs (sm s2)) (Some p) (p # vs) \<and>
    payload (mbufs (sm s2)) (p # vs) = drop n (payload mb (us @ p # vs))"
proof -
  define k where "k = n - chain_len mb us"
  have k: "0 < k" "k < seg_len mb p" "n = chain_len mb us + k"
    using n by (auto simp: k_def)
  have small: "seg_len mb p < 2 ^ 16"
    using unsigned_less [of "data_len (mb p)", where ?'a = nat] by simp
  let ?l = "int (seg_len mb p)"
  have kl: "int k \<le> ?l" "int k < ?l" using k(2) by (simp_all only: of_nat_le_iff of_nat_less_iff less_imp_le)
  obtain pr where scan: "scan_chain mb (int n) (Some b) None 0 = Some (Some p, pr, int (chain_len mb us))"
    using scan_chain_finds [OF ch(1), of 0 "int n" None] k(1,3) kl(1) by auto
  let ?ld = "\<lambda>d. d\<lparr>shadow := Some p, shadow_next := nxt (mb p), shadow_len_remainder := ?l - int k,
              shadow_len_delievered := int k\<rparr>"
  define s1 where "s1 = (upd_ld i ?ld s)\<lparr>sm := upd_mbuf p (\<lambda>b. b\<lparr>data_len := of_nat k, nxt := None\<rparr>) (sm s)\<rparr>"
  have read: "ipaugenblick_try_read_exact_amount b i (int n) s = Some ((int n, int k), s1)"
    using k(1,3) kl scan unfolding s1_def
    by (simp add: ipaugenblick_try_read_exact_amount_def mb [symmetric] Let_def)
  define s2 where "s2 = snd (ipaugenblick_get_from_shadow i s1)"
  have shadow: "ipaugenblick_get_from_shadow i s1 = (Some p, s2)"
    by (simp add: s2_def s1_def ipaugenblick_get_from_shadow_def Let_def)
  have m1: "mbufs (sm s1) = mb(p := (mb p)\<lparr>data_len := of_nat k, nxt := None\<rparr>)"
    by (simp add: s1_def mb)
  have m2: "\<And>c. c \<noteq> p \<Longrightarrow> mbufs (sm s2) c = mb c" "nxt (mbufs (sm s2) p) = nxt (mb p)"
    "data_len (mbufs (sm s2) p) = of_int (?l - int k)" "data (mbufs (sm s2) p) = drop k (data (mb p))"
    by (simp_all add: s2_def s1_def mb ipaugenblick_get_from_shadow_def Let_def)
  have lens: "unat (of_nat k :: u16) = k" "unat (of_int (?l - int k) :: u16) = seg_len mb p - k"
  proof -
    show "unat (of_nat k :: u16) = k" using k(2) small by (simp add: unat_of_nat)
    have "?l - int k = int (seg_len mb p - k)" using k(2) by simp
    then have "(of_int (?l - int k) :: u16) = of_nat (seg_len mb p - k)" by simp
    then show "unat (of_int (?l - int k) :: u16) = seg_len mb p - k"
      using small by (simp add: unat_of_nat)
  qed
  have len2: "seg_len (mbufs (sm s2)) p = seg_len mb p - k"
    by (simp only: m2(3) lens(2))
  have p: "p \<notin> set us" "p \<notin> set vs" "chain mb (nxt (mb p)) vs"
    using chain_distinct [OF ch(1)] chain_suffix [OF ch(1)] by auto
  have "chain (mbufs (sm s1)) (Some b) (us @ [p])"
    unfolding m1 by (rule chain_cut [OF ch(1)]) simp
  moreover have "chain (mbufs (sm s2)) (Some p) (p # vs)"
    using p m2(1,2) chain_cong [of vs "mbufs (sm s2)" mb] by (metis chain.simps(2))
  moreover have "payload (mbufs (sm s1)) us = payload mb us"
    using p(1) by (intro payload_cong) (auto simp: m1)
  moreover have "mbufs (sm s2) c = mb c" if "c \<in> set vs" for c
    using that p(2) by (intro m2(1)) auto
  then have "payload (mbufs (sm s2)) vs = payload mb vs"
    by (intro payload_cong) simp
  moreover have "length (payload mb us) = chain_len mb us" "seg_len mb p \<le> length (data (mb p))"
    using ch(2) length_payload [of mb us] by (auto simp: filled_def)
  ultimately show ?thesis
    using read shadow take_drop_segment [of "payload mb us" n "seg_len mb p" "data (mb p)" "payload mb vs"] n k(3)
    by (simp add: m1 m2(4) lens(1) len2)
qed

definition chain_app :: app where
  "chain_app = small_app\<lparr>sm := (sm small_app)\<lparr>mbufs := (mbufs small_shm)
     (20 := (mbufs small_shm 20)\<lparr>data_len := 4, data := [1, 2, 3, 4], nxt := Some 21\<rparr>,
      21 := (mbufs small_shm 21)\<lparr>data_len := 3, data := [5, 6, 7], nxt := None\<rparr>)\<rparr>\<rparr>"

theorem exact_read_splits_witness:
  "\<exists>first s1 s2. ipaugenblick_try_read_exact_amount 20 3 5 chain_app = Some ((5, first), s1) \<and>
    payload (mbufs (sm s1)) [20, 21] = [1, 2, 3, 4, 5] \<and>
    ipaugenblick_get_from_shadow 3 s1 = (Some 21, s2) \<and> payload (mbufs (sm s2)) [21] = [6, 7]"
  using exact_read_splits [of "mbufs (sm chain_app)" chain_app 20 "[20]" 21 "[]" 5 3]
  by (auto simp: chain_app_def filled_def chain_len_def)



end
