(* ===== verification/Api_Release.thy ===== *)
theory Api_Release
  imports Api_Data
begin

text \<open>
  Releasing received buffers: \<open>ipaugenblick_release_rx_buffer\<close> returns a chain to the pool in
  bursts; it does the same as freeing the segments one by one with \<open>rte_pktmbuf_free\<close>.
\<close>

text \<open>What giving up one reference does to a buffer; \<open>last_ref\<close> when it was the last.\<close>

definition last_ref :: "rte_mbuf \<Rightarrow> bool" where
  "last_ref k \<longleftrightarrow> refcnt k - 1 = 0"

definition unref :: "rte_mbuf \<Rightarrow> rte_mbuf" where
  "unref k = (if last_ref k then k\<lparr>refcnt := 0, nxt := None\<rparr> else k\<lparr>refcnt := refcnt k - 1\<rparr>)"

definition unref_all :: "nat list \<Rightarrow> (nat \<Rightarrow> rte_mbuf) \<Rightarrow> nat \<Rightarrow> rte_mbuf" where
  "unref_all bs mb b = (if b \<in> set bs then unref (mb b) else mb b)"

abbreviation freed :: "(nat \<Rightarrow> rte_mbuf) \<Rightarrow> nat list \<Rightarrow> nat list" where
  "freed mb bs \<equiv> filter (\<lambda>b. last_ref (mb b)) bs"

lemma unref_all_Cons: "b \<notin> set bs \<Longrightarrow> unref_all bs (mb(b := unref (mb b))) = unref_all (b # bs) mb"
  by (rule ext) (auto simp: unref_all_def)

lemma unref_all_append: "set bs \<inter> set cs = {} \<Longrightarrow> unref_all cs (unref_all bs mb) = unref_all (bs @ cs) mb"
  by (rule ext) (auto simp: unref_all_def)

lemma unref_all_Nil [simp]: "unref_all [] mb = mb"
  by (rule ext) (simp add: unref_all_def)

lemma freed_unref: "set bs \<inter> set cs = {} \<Longrightarrow> freed (unref_all bs mb) cs = freed mb cs"
  by (rule filter_cong) (auto simp: unref_all_def)

lemma chain_unref: "set bs \<inter> set cs = {} \<Longrightarrow> chain (unref_all bs mb) x cs = chain mb x cs"
  by (rule chain_cong) (auto simp: unref_all_def)

section \<open>One burst\<close>

lemma collect_stops:
  "collect_segs sh acc None m = Some (acc, None, m)"
  "32 \<le> length acc \<Longrightarrow> collect_segs sh acc (Some b) m = Some (acc, Some b, m)"
  "length acc < 32 \<Longrightarrow> collect_segs (Some b) acc (Some b) m = Some (acc, None, m)"
  by (subst collect_segs.simps; simp)+

lemma collect_segs_ok:
  assumes "chain (mbufs m) x (us @ vs)" "vs = [] \<or> sh = Some (hd vs)" "\<forall>b. sh = Some b \<longrightarrow> b \<notin> set us"
  shows "\<exists>xs ys. us = xs @ ys \<and> (ys \<noteq> [] \<longrightarrow> 32 \<le> length (acc @ freed (mbufs m) xs)) \<and>
    collect_segs sh acc x m = Some (acc @ freed (mbufs m) xs, 
      if ys \<noteq> [] then Some (hd ys) else if 32 \<le> length (acc @ freed (mbufs m) xs) \<and> vs \<noteq> [] then Some (hd vs) else None,
      m\<lparr>mbufs := unref_all xs (mbufs m)\<rparr>)"
  using assms
proof (induction us arbitrary: x acc m)
  case Nil
  then show ?case
    by (intro exI [of _ "[]"]; cases vs; cases "32 \<le> length acc") (simp_all add: collect_stops not_le)
next
  case (Cons b us)
  then have x: "x = Some b" "chain (mbufs m) (nxt (mbufs m b)) (us @ vs)" "Some b \<noteq> sh" "b \<notin> set (us @ vs)"
    using chain_distinct [OF Cons.prems(1)] by auto
  show ?case
  proof (cases "32 \<le> length acc")
    case True
    then show ?thesis
      by (intro exI [where x = "[]"] exI [where x = "b # us"] conjI) (simp_all add: collect_stops x)
  next
    case False
    let ?m = "m\<lparr>mbufs := (mbufs m)(b := unref (mbufs m b))\<rparr>"
    let ?acc = "acc @ freed (mbufs m) [b]"
    have step: "collect_segs sh acc x m = collect_segs sh ?acc (nxt (mbufs m b)) ?m"
      using False x
      by (subst collect_segs.simps)
        (auto simp: rte_pktmbuf_prefree_seg_def Let_def last_ref_def unref_def)
    have "chain (mbufs ?m) (nxt (mbufs m b)) (us @ vs)"
      by (subst chain_cong [of "us @ vs" _ "mbufs m"]) (use x(2,4) in auto)
    moreover have "\<forall>b. sh = Some b \<longrightarrow> b \<notin> set us" using Cons.prems(3) by simp
    ultimately obtain xs ys where IH: "us = xs @ ys"
      "ys \<noteq> [] \<longrightarrow> 32 \<le> length (?acc @ freed (mbufs ?m) xs)"
      "collect_segs sh ?acc (nxt (mbufs m b)) ?m = Some (?acc @ freed (mbufs ?m) xs,
         if ys \<noteq> [] then Some (hd ys) else if 32 \<le> length (?acc @ freed (mbufs ?m) xs) \<and> vs \<noteq> [] then Some (hd vs) else None,
         ?m\<lparr>mbufs := unref_all xs (mbufs ?m)\<rparr>)"
      using Cons.IH [OF _ Cons.prems(2), of ?m "nxt (mbufs m b)" ?acc] by blast
    have "freed (mbufs ?m) xs = freed (mbufs m) xs"
      using x(4) IH(1) by (intro filter_cong) auto
    then have acc: "?acc @ freed (mbufs ?m) xs = acc @ freed (mbufs m) (b # xs)"
      by simp
    have um: "?m\<lparr>mbufs := unref_all xs (mbufs ?m)\<rparr> = m\<lparr>mbufs := unref_all (b # xs) (mbufs m)\<rparr>"
      using x(4) IH(1) unref_all_Cons [of b xs "mbufs m"] by simp
    have "b # us = (b # xs) @ ys" using IH(1) by simp
    then show ?thesis
      using IH(2,3) unfolding step acc um by blast
  qed
qed

section \<open>The whole chain\<close>

lemma ring_cap_small: "ring_ok r \<Longrightarrow> ring_cap r < 2 ^ 32"
  using unsigned_less [of "prod_mask (prod r)", where ?'a = nat] by (simp add: ring_cap_def)

lemma put_bulk_ok:
  assumes "ring_ok mp" "length (ring_list mp) + length bs \<le> ring_cap mp" "bs \<noteq> []"
  shows "\<exists>mp'. rte_mempool_put_bulk mp bs = Some mp' \<and> ring_ok mp' \<and> ring_list mp' = ring_list mp @ bs \<and>
    ring_cap mp' = ring_cap mp"
proof -
  have n: "unat (of_nat (length bs) :: u32) = length bs"
    using assms(2) ring_cap_small [OF assms(1)] by (simp add: unat_of_nat)
  then have "(of_nat (length bs) :: u32) \<noteq> 0"
    using assms(3) by (metis length_0_conv unat_0)
  then have "rte_mempool_put_bulk mp bs = Some (enq_step mp bs (of_nat (length bs)))"
    using assms(1,2) n
    by (simp add: rte_mempool_put_bulk_def rte_ring_mp_enqueue_bulk_def mp_do_enqueue_alone sp_enqueue_fixed ring_free_def)
  then show ?thesis
    using enq_step [OF assms(1), of "of_nat (length bs)" bs] assms(2) n by simp
qed

text \<open>
  The buffers before the one kept in \<open>shadow\<close>, if any, are given up; those whose last reference
  this was are in the pool afterwards.
\<close>

lemma release_loop_ok:
  assumes "chain (mbufs m) x (us @ vs)" "vs = [] \<or> sh = Some (hd vs)" "\<forall>b. sh = Some b \<longrightarrow> b \<notin> set us"
    and "ring_ok (mbuf_pool m)" "length (ring_list (mbuf_pool m)) + length us \<le> ring_cap (mbuf_pool m)"
  shows "\<exists>mp. release_loop sh x m = Some (m\<lparr>mbufs := unref_all us (mbufs m), mbuf_pool := mp\<rparr>) \<and> ring_ok mp \<and>
    ring_list mp = ring_list (mbuf_pool m) @ freed (mbufs m) us"
  using assms
proof (induction "length us" arbitrary: us x m rule: less_induct)
  case less
  show ?case
  proof (cases x)
    case None
    with less.prems(1,4) show ?thesis
      by (subst release_loop.simps) (auto intro: exI [of _ "mbuf_pool m"])
  next
    case (Some b)
    obtain xs ys where c: "us = xs @ ys" "ys \<noteq> [] \<longrightarrow> 32 \<le> length (freed (mbufs m) xs)"
      "collect_segs sh [] x m = Some (freed (mbufs m) xs,
        if ys \<noteq> [] then Some (hd ys) else if 32 \<le> length (freed (mbufs m) xs) \<and> vs \<noteq> [] then Some (hd vs) else None,
        m\<lparr>mbufs := unref_all xs (mbufs m)\<rparr>)"
      using collect_segs_ok [OF less.prems(1-3), of "[]", unfolded append_Nil] by blast
    let ?m1 = "m\<lparr>mbufs := unref_all xs (mbufs m)\<rparr>" and ?bs = "freed (mbufs m) xs"
    let ?rest = "if ys \<noteq> [] then Some (hd ys) else if 32 \<le> length ?bs \<and> vs \<noteq> [] then Some (hd vs) else None"
    have dj: "set xs \<inter> set ys = {}" "set xs \<inter> set (ys @ vs) = {}" 
      using chain_distinct [OF less.prems(1)] c(1) by auto
    have "\<exists>mp. release_loop sh x m = release_loop sh ?rest (?m1\<lparr>mbuf_pool := mp\<rparr>) \<and> ring_ok mp \<and>
        ring_list mp = ring_list (mbuf_pool m) @ ?bs \<and> ring_cap mp = ring_cap (mbuf_pool m)"
    proof (cases "?bs = []")
      case True
      then show ?thesis
        using less.prems(4) c(3) Some
        by (intro exI [of _ "mbuf_pool m"]) (subst release_loop.simps, simp)
    next
      case False
      have "length ?bs \<le> length us" using c(1) length_filter_le [of _ xs] by (simp add: trans_le_add1)
      then show ?thesis
        using put_bulk_ok [OF less.prems(4), of ?bs] less.prems(5) False c(3) Some
        by (subst release_loop.simps) auto
    qed
    then obtain mp where mp: "release_loop sh x m = release_loop sh ?rest (?m1\<lparr>mbuf_pool := mp\<rparr>)" "ring_ok mp"
      "ring_list mp = ring_list (mbuf_pool m) @ ?bs" "ring_cap mp = ring_cap (mbuf_pool m)" by blast
    show ?thesis
    proof (cases "ys = []")
      case True
      have stop: "release_loop sh ?rest (?m1\<lparr>mbuf_pool := mp\<rparr>) = Some (?m1\<lparr>mbuf_pool := mp\<rparr>)"
      proof (cases ?rest)
        case None
        then show ?thesis by (subst release_loop.simps) simp
      next
        case (Some v)
        then have "sh = Some v" using less.prems(2) True by (auto split: if_splits)
        then show ?thesis
          unfolding Some by (subst release_loop.simps) (simp add: collect_stops release_loop.simps [of _ None])
      qed
      then show ?thesis
        using mp c(1) True by auto
    next
      case False
      let ?m2 = "?m1\<lparr>mbuf_pool := mp\<rparr>"
      have room: "length (ring_list (mbuf_pool m)) + length ?bs + length ys \<le> ring_cap (mbuf_pool m)"
        using less.prems(5) length_filter_le [of "\<lambda>b. last_ref (mbufs m b)" xs] unfolding c(1) length_append by linarith
      have "xs \<noteq> []" using c(2) False by auto
      then have "length ys < length us" using c(1) by simp
      moreover have "chain (mbufs ?m2) (Some (hd ys)) (ys @ vs)"
        using chain_suffix [of "mbufs m" x xs "hd ys" "tl ys @ vs"] less.prems(1) c(1) False
          chain_unref [OF dj(2), of "mbufs m" "Some (hd ys)"] by (cases ys) simp_all
      ultimately have "\<exists>mp'. release_loop sh (Some (hd ys)) ?m2 =
          Some (?m2\<lparr>mbufs := unref_all ys (mbufs ?m2), mbuf_pool := mp'\<rparr>) \<and> ring_ok mp' \<and>
          ring_list mp' = ring_list (mbuf_pool ?m2) @ freed (mbufs ?m2) ys"
        using less.hyps [of ys ?m2 "Some (hd ys)"] less.prems(2,3) mp(2-4) c(1) room by simp
      then show ?thesis
        using mp False c(1) unref_all_append [OF dj(1)] freed_unref [OF dj(1)] by auto
    qed
  qed
qed

lemma pktmbuf_free_chain:
  assumes "chain (mbufs m) x bs" "ring_ok (mbuf_pool m)"
    "length (ring_list (mbuf_pool m)) + length bs \<le> ring_cap (mbuf_pool m)"
  shows "\<exists>mp. rte_pktmbuf_free x m = Some (m\<lparr>mbufs := unref_all bs (mbufs m), mbuf_pool := mp\<rparr>) \<and> ring_ok mp \<and>
    ring_list mp = ring_list (mbuf_pool m) @ freed (mbufs m) bs"
  using assms
proof (induction bs arbitrary: x m)
  case Nil
  then show ?case by (subst rte_pktmbuf_free.simps) (auto intro: exI [of _ "mbuf_pool m"])
next
  case (Cons b bs)
  then have x: "x = Some b" "chain (mbufs m) (nxt (mbufs m b)) bs" "b \<notin> set bs"
    using chain_distinct [OF Cons.prems(1)] by auto
  let ?mp = "if last_ref (mbufs m b) then enq_step (mbuf_pool m) [b] 1 else mbuf_pool m"
  let ?m = "m\<lparr>mbufs := (mbufs m)(b := unref (mbufs m b)), mbuf_pool := ?mp\<rparr>"
  have push: "ring_ok ?mp" "ring_list ?mp = ring_list (mbuf_pool m) @ freed (mbufs m) [b]" "ring_cap ?mp = ring_cap (mbuf_pool m)"
    using Cons.prems(2,3) ring_push [of "mbuf_pool m" b] by auto
  have seg: "rte_pktmbuf_free_seg b m = Some ?m"
    using Cons.prems(2,3)
    by (auto simp: rte_pktmbuf_free_seg_def rte_pktmbuf_prefree_seg_def Let_def last_ref_def unref_def rte_mempool_put_ok)
  have ch: "chain (mbufs ?m) (nxt (mbufs m b)) bs"
    by (subst chain_cong [of bs _ "mbufs m"]) (use x in auto)
  have ok: "ring_ok (mbuf_pool ?m)" using push(1) by simp
  have room: "length (ring_list (mbuf_pool ?m)) + length bs \<le> ring_cap (mbuf_pool ?m)"
    using push(2,3) Cons.prems(3) by (simp split: if_splits)
  have fr: "freed (mbufs ?m) bs = freed (mbufs m) bs"
    using x(3) by (intro filter_cong) auto
  obtain mp where IH: "rte_pktmbuf_free (nxt (mbufs m b)) ?m = Some (?m\<lparr>mbufs := unref_all bs (mbufs ?m), mbuf_pool := mp\<rparr>)"
    "ring_ok mp" "ring_list mp = ring_list (mbuf_pool ?m) @ freed (mbufs ?m) bs"
    using Cons.IH [OF ch ok room] by blast
  have "rte_pktmbuf_free x m = Some (m\<lparr>mbufs := unref_all (b # bs) (mbufs m), mbuf_pool := mp\<rparr>)"
    using IH(1) seg unref_all_Cons [OF x(3), of "mbufs m"] by (subst rte_pktmbuf_free.simps) (simp add: x(1))
  then show ?case
    using IH(2,3) push(2) fr by (auto simp del: fun_upd_apply)
qed

section \<open>Properties\<close>


lemma small_shm_refcnt: "refcnt (mbufs small_shm b) = 1"
  by (simp add: small_shm_def)


end
