(* ===== verification/Api_Credit.thy ===== *)
theory Api_Credit
  imports Api_Data
begin

text \<open>Sending and the transmit credit of a connection: what the calls of \<open>Api_Data\<close> guarantee.\<close>

section \<open>The steps of a send\<close>

lemma notify_empty_ok:
  assumes "app_ok s"
  shows "\<exists>s'. ipaugenblick_notify_empty_tx_buffers sock s = Some s' \<and> app_ok s' \<and> same_but_cmds s s'"
  using app_okD(1) [OF assms]
proof (cases rule: command_cases [where f = "\<lambda>k. k\<lparr>cmd := IPAUGENBLICK_SOCKET_TX_POOL_EMPTY_COMMAND, ringset_idx := unsigned_int sock\<rparr>"])
  case none
  then show ?thesis using assms by (auto simp: ipaugenblick_notify_empty_tx_buffers_def)
next
  case (posted c m s2)
  then show ?thesis
    using assms by (auto simp: ipaugenblick_notify_empty_tx_buffers_def same_but_cmds_def intro: app_okI [OF assms])
next
  case (full c m s2)
  then show ?thesis
    using assms by (auto simp: ipaugenblick_notify_empty_tx_buffers_def same_but_cmds_def intro: app_okI [OF assms])
qed

lemma sdiv_le:
  fixes a b :: int
  assumes "0 < b" "0 < a sdiv b"
  shows "a sdiv b * b \<le> a"
proof -
  have "0 < a"
    using assms pos_imp_zdiv_nonneg_iff [of b "- a"]
    by (auto simp: signed_divide_int_def sgn_if not_less split: if_splits)
  then have "a sdiv b = a div b"
    using assms(1) by (simp add: signed_divide_int_def)
  then show ?thesis
    using assms(1) pos_mod_sign [of b a] by (simp add: minus_mod_eq_div_mult [symmetric])
qed

lemma ring_count_sint:
  assumes "ring_ok r"
  shows "sint (rte_ring_count r) = int (length (ring_list r))" "sint (rte_ring_free_count r) = int (ring_free r)"
proof -
  obtain k where k: "k < 28" "ring_cap r = 2 ^ k - 1" by (rule ring_okE [OF assms])
  have "(2 :: nat) ^ k \<le> 2 ^ 27" using k(1) by (intro power_increasing) auto
  then have "length (ring_list r) < 2 ^ 31" "ring_free r < 2 ^ 31"
    using k(2) ring_list_le_cap [OF assms] by (auto simp: ring_free_def)
  then show "sint (rte_ring_count r) = int (length (ring_list r))" "sint (rte_ring_free_count r) = int (ring_free r)"
    using rte_ring_count_ok [OF assms] rte_ring_free_count_ok [OF assms] by (subst sint_small; simp)+
qed

lemma clear_write_ready_simps [simp]:
  "app_ok s \<Longrightarrow> app_ok (clear_write_ready g s)" "\<not> write_ready_to_app (g_sockets (sm (clear_write_ready g s)) g)"
  "local_socket_descriptors (clear_write_ready g s) = local_socket_descriptors s"
  "selectors (clear_write_ready g s) = selectors s" "tx_rings (sm (clear_write_ready g s)) = tx_rings (sm s)"
  "tx_space (g_sockets (sm (clear_write_ready g s)) j) = tx_space (g_sockets (sm s) j)"
  "mbufs (sm (clear_write_ready g s)) = mbufs (sm s)"
  by (auto simp: clear_write_ready_def app_ok_def)

text \<open>A selector index the ready cache can use.\<close>

definition select_ok :: "nat \<Rightarrow> app \<Rightarrow> bool" where
  "select_ok i s \<longleftrightarrow> ld_select (local_socket_descriptors s i) = -1 \<or> selector_idx (ld_select (local_socket_descriptors s i)) \<noteq> None"

lemma tx_ring_upd_ok:
  assumes "shm_ok m" "ring_ok r" "watermark (prod r) = 1"
  shows "shm_ok (m\<lparr>tx_rings := (tx_rings m)(i := r)\<rparr>)"
  using assms by (simp add: shm_ok_def)

lemma remove_from_cache_ok:
  assumes "app_ok s" "select_ok i s"
  shows "\<exists>s'. ipaugenblick_remove_socket_from_cache i s = Some s' \<and> app_ok s' \<and> sm s' = sm s"
  using assms app_okD(1) [OF assms(1)]
  by (auto simp: ipaugenblick_remove_socket_from_cache_def Let_def select_ok_def app_ok_def)

lemma update_cache_ok:
  assumes "app_ok s" "select_ok i s"
  shows "\<exists>s'. ipaugenblick_update_local_ready_cache i b s = Some s' \<and> app_ok s' \<and> sm s' = sm s"
proof -
  let ?s1 = "upd_ld i (\<lambda>d. d\<lparr>local_mask := local_mask d AND NOT b\<rparr>) s"
  have "app_ok ?s1" "select_ok i ?s1"
    using assms app_okD(1) [OF assms(1)] by (auto simp: select_ok_def intro: app_okI [OF assms(1)])
  then show ?thesis
    using remove_from_cache_ok [of ?s1 i] assms(1) by (auto simp: ipaugenblick_update_local_ready_cache_def Let_def)
qed

text \<open>The state in which a send enqueues its buffer, and the enqueue itself.\<close>

definition send_prepared :: "nat \<Rightarrow> nat \<Rightarrow> int \<Rightarrow> app \<Rightarrow> app" where
  "send_prepared g b len s = clear_write_ready g ((stat_add stats_send_called 1 s)
     \<lparr>sm := upd_mbuf b (\<lambda>k. k\<lparr>data_len := of_int len, nxt := None\<rparr>) (sm s)\<rparr>)"

lemma send_eq:
  assumes "app_ok s" "conn_idx sock = Some i" "ld_socket (local_socket_descriptors s i) = Some g"
  shows "ipaugenblick_send sock b len s =
    (let r = tx_rings (sm s) i; s1 = send_prepared g b len s in
     if length (ring_list r) < ring_cap r
     then finish_send i g len False (s1\<lparr>sm := (sm s1)\<lparr>tx_rings := (tx_rings (sm s))(i := enq_step r [b] 1)\<rparr>\<rparr>)
     else finish_send i g len True (s1\<lparr>sm := (sm s1)\<lparr>tx_rings := (tx_rings (sm s))(i := r)\<rparr>\<rparr>))"
proof -
  have i: "i < 2048" using assms(2) selector_idxD(2) by blast
  note tx = shm_okD(9) [OF app_okD(1) [OF assms(1)] i]
  have "tx_rings (sm (send_prepared g b len s)) = tx_rings (sm s)" by (simp add: send_prepared_def)
  then show ?thesis
    using assms(2,3) tx ring_list_le_cap [OF tx]
    by (simp add: ipaugenblick_send_def ipaugenblick_enqueue_tx_buf_def send_prepared_def
        rte_ring_sp_enqueue_bulk_def sp_enqueue_fixed ring_free_def Let_def)
qed

lemma unat_len: "0 \<le> len \<Longrightarrow> len < 2 ^ 16 \<Longrightarrow> unat (of_int len :: u16) = nat len"
  by (simp add: unat_of_nat nat_less_iff take_bit_nat_eq_self flip: of_nat_nat)

section \<open>Properties\<close>

text \<open>
  C19. The number of buffers an application is told it may send never exceeds the free slots of
  the transmit ring, the free buffers of the pool, or, when positive, the credit of the connection
  in units of 1448 bytes; below ten the writable flag is cleared, so that the service will
  announce space again.
\<close>

theorem tx_space_bounds:
  assumes "app_ok s" "conn_idx sock = Some i" "ld_socket (local_socket_descriptors s i) = Some g"
  shows "\<exists>rc s'. ipaugenblick_get_socket_tx_space sock s = Some (rc, s') \<and> app_ok s' \<and>
    rc \<le> int (ring_free (tx_rings (sm s) i)) \<and> rc \<le> int (length (ring_list (mbuf_pool (sm s)))) \<and>
    (0 < rc \<longrightarrow> rc * 1448 \<le> sint (tx_space (g_sockets (sm s) g))) \<and>
    (rc < 10 \<longrightarrow> \<not> write_ready_to_app (g_sockets (sm s') g))"
proof -
  have i: "i < 2048" using assms(2) selector_idxD(2) by blast
  note ok = shm_okD [OF app_okD(1) [OF assms(1)]]
  let ?f = "int (length (ring_list (mbuf_pool (sm s))))" and ?r = "int (ring_free (tx_rings (sm s) i))"
  let ?t = "sint (tx_space (g_sockets (sm s) g)) sdiv 1448"
  define rc0 where "rc0 = (if ?r > ?f then (if ?f > 0 then ?f else 0) else ?r)"
  define rc where "rc = (if rc0 > ?t then ?t else rc0)"
  have rc: "rc \<le> ?r" "rc \<le> ?f" "rc \<le> ?t" by (auto simp: rc_def rc0_def)
  have "rc * 1448 \<le> sint (tx_space (g_sockets (sm s) g))" if "0 < rc"
    using that rc(3) sdiv_le [of 1448 "sint (tx_space (g_sockets (sm s) g))"] by simp
  moreover have "ipaugenblick_get_socket_tx_space sock s =
      (if rc < 10 then do { s1 \<leftarrow> ipaugenblick_notify_empty_tx_buffers sock (clear_write_ready g s); Some (rc, s1) }
       else Some (rc, s))"
    using assms ring_count_sint [OF ok(6)] ring_count_sint [OF ok(9) [OF i]]
    by (simp add: ipaugenblick_get_socket_tx_space_def ipaugenblick_socket_tx_space_def rte_mempool_count_def Let_def
        rc_def rc0_def cong: if_cong)
  moreover obtain s' where "ipaugenblick_notify_empty_tx_buffers sock (clear_write_ready g s) = Some s'" "app_ok s'"
      "same_but_cmds (clear_write_ready g s) s'"
    using notify_empty_ok [of "clear_write_ready g s" sock] assms(1) by auto
  moreover from this have "\<not> write_ready_to_app (g_sockets (sm s') g)"
    by (simp add: same_but_cmds_def)
  ultimately show ?thesis
    using rc assms(1) by auto
qed

theorem tx_space_bounds_witness:
  "\<exists>rc s'. ipaugenblick_get_socket_tx_space 3 small_app = Some (rc, s') \<and> rc \<le> 3"
  using tx_space_bounds [of small_app 3 3 3] by (auto simp: conn_idx_def)



end
