(* ===== verification/Api_Select.thy ===== *)
theory Api_Select
  imports Api_Credit
begin

unbundle bit_operations_syntax

text \<open>
  Waiting for events: the socket sets of \<open>ipaugenblick_api.h\<close> and \<open>ipaugenblick_select\<close>. The
  three sets of a call are different objects. The flags of a set only ever hold 0 or 1. An
  access outside an array makes the result \<open>None\<close>. While the process sleeps in \<open>pselect\<close> the
  service goes on: every element of \<open>waits\<close> is what the shared memory becomes over one sleep,
  and with the list used up the process sleeps for ever, which is \<open>None\<close> too.
\<close>

section \<open>Socket sets\<close>

abbreviation (input) IPAUGENBLICK_MAX_SOCKETS :: nat where "IPAUGENBLICK_MAX_SOCKETS \<equiv> 2048"

record ipaugenblick_fdset =
  interested_flags :: "nat \<Rightarrow> bool"
  returned_flags :: "nat \<Rightarrow> bool"
  returned_sockets :: "nat \<Rightarrow> nat"
  returned_idx :: nat

definition ipaugenblick_fdset :: "int \<Rightarrow> ipaugenblick_fdset \<Rightarrow> app \<Rightarrow> (ipaugenblick_fdset \<times> app) option" where
  "ipaugenblick_fdset sock f s =
     do { i \<leftarrow> conn_idx sock;
          s1 \<leftarrow> ipaugenblick_put_to_local_cache i s;
          Some (f\<lparr>interested_flags := (interested_flags f)(i := True)\<rparr>, s1) }"

definition ipaugenblick_fdclear :: "int \<Rightarrow> ipaugenblick_fdset \<Rightarrow> app \<Rightarrow> (ipaugenblick_fdset \<times> app) option" where
  "ipaugenblick_fdclear sock f s =
     do { i \<leftarrow> conn_idx sock;
          s1 \<leftarrow> ipaugenblick_remove_socket_from_cache i s;
          Some (f\<lparr>interested_flags := (interested_flags f)(i := False),
                  returned_flags := (returned_flags f)(i := False)\<rparr>, s1) }"

definition ipaugenblick_fdzero :: "ipaugenblick_fdset \<Rightarrow> ipaugenblick_fdset" where
  "ipaugenblick_fdzero f =
     (fold (\<lambda>i f. f\<lparr>interested_flags := (interested_flags f)(i := False),
                      returned_flags := (returned_flags f)(i := False),
                      returned_sockets := (returned_sockets f)(i := 0)\<rparr>) [0..<IPAUGENBLICK_MAX_SOCKETS] f)
       \<lparr>returned_idx := 0\<rparr>"

definition ipaugenblick_fdisset :: "int \<Rightarrow> ipaugenblick_fdset \<Rightarrow> bool option" where
  "ipaugenblick_fdisset sock f = do { i \<leftarrow> conn_idx sock; Some (returned_flags f i) }"

definition ipaugenblick_fd_idx2sock :: "ipaugenblick_fdset \<Rightarrow> int \<Rightarrow> nat option" where
  "ipaugenblick_fd_idx2sock f idx = do { i \<leftarrow> conn_idx idx; Some (returned_sockets f i) }"

definition ipaugenblick_update_fdset :: "nat \<Rightarrow> ipaugenblick_fdset \<Rightarrow> ipaugenblick_fdset option" where
  "ipaugenblick_update_fdset idx f =
     (if IPAUGENBLICK_MAX_SOCKETS \<le> idx then None
      else if interested_flags f idx \<and> \<not> returned_flags f idx
      then if IPAUGENBLICK_MAX_SOCKETS \<le> returned_idx f then None
           else Some (f\<lparr>returned_sockets := (returned_sockets f)(returned_idx f := idx),
                        returned_flags := (returned_flags f)(idx := True), returned_idx := returned_idx f + 1\<rparr>)
      else Some f)"

text \<open>The start of a select forgets the answers of the previous one.\<close>

definition forget_returned :: "ipaugenblick_fdset \<Rightarrow> ipaugenblick_fdset option" where
  "forget_returned f =
     (if IPAUGENBLICK_MAX_SOCKETS < returned_idx f \<or>
         list_ex (\<lambda>i. IPAUGENBLICK_MAX_SOCKETS \<le> returned_sockets f i) [0..<returned_idx f] then None
      else Some (f\<lparr>returned_flags := fold (\<lambda>i fl. fl(returned_sockets f i := False)) [0..<returned_idx f] (returned_flags f),
                   returned_idx := 0\<rparr>))"

section \<open>Select\<close>

record fdsets =
  readfdset :: "ipaugenblick_fdset option"
  writefdset :: "ipaugenblick_fdset option"
  excfdset :: "ipaugenblick_fdset option"

definition on_set :: "('a \<Rightarrow> 'a option) \<Rightarrow> 'a option \<Rightarrow> 'a option option" where
  "on_set g f = (case f of None \<Rightarrow> Some None | Some k \<Rightarrow> do { k' \<leftarrow> g k; Some (Some k') })"

definition forget_all :: "fdsets \<Rightarrow> fdsets option" where
  "forget_all fs =
     do { r \<leftarrow> on_set forget_returned (readfdset fs);
          w \<leftarrow> on_set forget_returned (writefdset fs);
          e \<leftarrow> on_set forget_returned (excfdset fs);
          Some \<lparr>readfdset = r, writefdset = w, excfdset = e\<rparr> }"

definition wants :: "ipaugenblick_fdset option \<Rightarrow> nat \<Rightarrow> bool" where
  "wants f i = (case f of None \<Rightarrow> False | Some k \<Rightarrow> interested_flags k i)"

definition has_bit :: "u32 \<Rightarrow> u32 \<Rightarrow> bool" where
  "has_bit ev b \<longleftrightarrow> ev AND b \<noteq> 0"

text \<open>A socket of the ready cache: every event of its mask.\<close>

definition report_cached :: "nat \<Rightarrow> u32 \<Rightarrow> fdsets \<Rightarrow> fdsets option" where
  "report_cached i mk fs =
     do { r \<leftarrow> (if has_bit mk SOCKET_READABLE_BIT \<and> wants (readfdset fs) i
                 then on_set (ipaugenblick_update_fdset i) (readfdset fs) else Some (readfdset fs));
          w \<leftarrow> (if has_bit mk SOCKET_WRITABLE_BIT \<and> wants (writefdset fs) i
                 then on_set (ipaugenblick_update_fdset i) (writefdset fs) else Some (writefdset fs));
          e \<leftarrow> (if has_bit mk SOCKET_CLOSED_BIT \<and> wants (excfdset fs) i
                 then on_set (ipaugenblick_update_fdset i) (excfdset fs) else Some (excfdset fs));
          Some \<lparr>readfdset = r, writefdset = w, excfdset = e\<rparr> }"

fun scan_cache :: "(nat \<Rightarrow> local_socket_descriptor_t) \<Rightarrow> nat list \<Rightarrow> int \<Rightarrow> fdsets \<Rightarrow> fdsets option" where
  "scan_cache ds [] iterations_limit fs = Some fs"
| "scan_cache ds (i # is) iterations_limit fs =
     (if iterations_limit = 0 then Some fs
      else do { fs1 \<leftarrow> report_cached i (local_mask (ds i)) fs; scan_cache ds is (iterations_limit - 1) fs1 })"

text \<open>An event taken off the ring: a closed socket is not also reported writable.\<close>

definition report_ready :: "nat \<Rightarrow> u32 \<Rightarrow> fdsets \<Rightarrow> fdsets option" where
  "report_ready i ev fs =
     do { r \<leftarrow> (if has_bit ev SOCKET_READABLE_BIT \<and> readfdset fs \<noteq> None
                 then on_set (ipaugenblick_update_fdset i) (readfdset fs) else Some (readfdset fs));
          if has_bit ev SOCKET_CLOSED_BIT \<and> excfdset fs \<noteq> None
          then do { e \<leftarrow> on_set (ipaugenblick_update_fdset i) (excfdset fs);
                    Some \<lparr>readfdset = r, writefdset = writefdset fs, excfdset = e\<rparr> }
          else if has_bit ev SOCKET_WRITABLE_BIT \<and> writefdset fs \<noteq> None
          then do { w \<leftarrow> on_set (ipaugenblick_update_fdset i) (writefdset fs);
                    Some \<lparr>readfdset = r, writefdset = w, excfdset = excfdset fs\<rparr> }
          else Some \<lparr>readfdset = r, writefdset = writefdset fs, excfdset = excfdset fs\<rparr> }"

definition ready_sock :: "u32 \<Rightarrow> nat" where
  "ready_sock w = unat (w AND SOCKET_READY_MASK)"

definition ready_events :: "u32 \<Rightarrow> u32" where
  "ready_events w = drop_bit SOCKET_READY_SHIFT w"

text \<open>A word with a socket number out of range ends the process: the result is \<open>True\<close>.\<close>

fun handle_ready :: "u32 list \<Rightarrow> fdsets \<Rightarrow> app \<Rightarrow> (bool \<times> fdsets \<times> app) option" where
  "handle_ready [] fs s = Some (False, fs, s)"
| "handle_ready (w # ws) fs s =
     (let i = ready_sock w in
      if IPAUGENBLICK_CONNECTION_POOL_SIZE \<le> i then Some (True, fs, s)
      else if ld_select (local_socket_descriptors s i) = -1 then handle_ready ws fs s
      else do { s1 \<leftarrow> ipaugenblick_put_to_local_cache i
                  (upd_ld i (\<lambda>d. d\<lparr>any_event_received := True, local_mask := local_mask d OR ready_events w\<rparr>) s);
                fs1 \<leftarrow> report_ready i (ready_events w) fs;
                handle_ready ws fs1 s1 })"

definition returned_count :: "fdsets \<Rightarrow> nat" where
  "returned_count fs =
     (case readfdset fs of None \<Rightarrow> 0 | Some f \<Rightarrow> returned_idx f) +
     (case writefdset fs of None \<Rightarrow> 0 | Some f \<Rightarrow> returned_idx f) +
     (case excfdset fs of None \<Rightarrow> 0 | Some f \<Rightarrow> returned_idx f)"

text \<open>The words waiting in the ring of the selector; \<open>None\<close> inside when there are none.\<close>

definition take_ready :: "nat \<Rightarrow> app \<Rightarrow> (u32 list option \<times> app) option" where
  "take_ready p s =
     (let ready_count = rte_ring_count (ready_connections (sm s) p) in
      if ready_count = 0 then Some (None, s)
      else do { (rc, ws, r) \<leftarrow> rte_ring_dequeue_bulk (ready_connections (sm s) p) ready_count;
                let s1 = s\<lparr>sm := (sm s)\<lparr>ready_connections := (ready_connections (sm s))(p := r)\<rparr>\<rparr> in
                Some (if rc \<noteq> 0 then None else Some ws, s1) })"

datatype select_end = Returned int | Exited

type_synonym timeval = "int \<times> int"

partial_function (option) select_loop ::
  "nat \<Rightarrow> timeval option \<Rightarrow> (shm \<Rightarrow> shm) list \<Rightarrow> bool \<Rightarrow> fdsets \<Rightarrow> app \<Rightarrow> (select_end \<times> fdsets \<times> app) option" where
  "select_loop p timeout waits exit_after_check fs s =
     (if returned_count fs \<noteq> 0 then Some (Returned (int (returned_count fs)), fs, s)
      else do { (ows, s1) \<leftarrow> take_ready p s;
           case ows of
             None \<Rightarrow>
               if exit_after_check \<or> timeout = Some (0, 0) then Some (Returned (-1), fs, s1)
               else (case waits of [] \<Rightarrow> None
                     | w # ws \<Rightarrow> select_loop p timeout ws (timeout \<noteq> None) fs (s1\<lparr>sm := w (sm s1)\<rparr>))
           | Some evs \<Rightarrow>
               do { (ex, fs1, s2) \<leftarrow> handle_ready evs fs (stat_add stats_select_returned 1 s1);
                    if ex then Some (Exited, fs1, s2)
                    else select_loop p timeout waits exit_after_check fs1 s2 } })"

definition ipaugenblick_select ::
  "int \<Rightarrow> timeval option \<Rightarrow> (shm \<Rightarrow> shm) list \<Rightarrow> fdsets \<Rightarrow> app \<Rightarrow> (select_end \<times> fdsets \<times> app) option" where
  "ipaugenblick_select selector timeout waits fs s =
     do { p \<leftarrow> selector_idx selector;
          fs1 \<leftarrow> forget_all fs;
          let s1 = stat_add stats_select_called 1 s;
          fs2 \<leftarrow> scan_cache (local_socket_descriptors s1) (local_ready_cache (selectors s1 p))
                  (queue_length (selectors s1 p)) fs1;
          select_loop p timeout waits False fs2 s1 }"

section \<open>Socket sets that are in order\<close>

text \<open>
  The sockets a set returns. Between calls a flag may have been cleared for one of them
  (\<open>fdset_ok\<close>); during a call the flags are exactly the answers (\<open>fdset_exact\<close>).
\<close>

definition answers :: "ipaugenblick_fdset \<Rightarrow> nat list" where
  "answers f = map (returned_sockets f) [0..<returned_idx f]"

definition fdset_ok :: "ipaugenblick_fdset \<Rightarrow> bool" where
  "fdset_ok f \<longleftrightarrow> distinct (answers f) \<and> set (answers f) \<subseteq> {..<IPAUGENBLICK_MAX_SOCKETS} \<and>
     {j. returned_flags f j} \<subseteq> set (answers f)"

definition fdset_exact :: "ipaugenblick_fdset \<Rightarrow> bool" where
  "fdset_exact f \<longleftrightarrow> fdset_ok f \<and> set (answers f) \<subseteq> {j. returned_flags f j}"

lemma distinct_bounded_length:
  assumes "distinct xs" "set xs \<subseteq> {..<n}"
  shows "length xs \<le> n"
  using card_mono [OF _ assms(2)] distinct_card [OF assms(1)] by simp

lemma length_answers [simp]: "length (answers f) = returned_idx f"
  by (simp add: answers_def)

lemma fold_clear: "fold (\<lambda>i fl. fl(g i := False)) is fl j \<longleftrightarrow> fl j \<and> j \<notin> g ` set is"
  by (induction "is" arbitrary: fl) auto

lemma forget_returned_ok:
  assumes "fdset_ok f"
  shows "\<exists>f'. forget_returned f = Some f' \<and> fdset_exact f' \<and> answers f' = [] \<and> interested_flags f' = interested_flags f"
proof -
  have "returned_idx f \<le> 2048"
    using assms distinct_bounded_length [of "answers f" 2048] by (simp add: fdset_ok_def)
  moreover have "\<forall>i \<in> set [0..<returned_idx f]. returned_sockets f i < 2048"
    using assms by (auto simp: fdset_ok_def answers_def)
  ultimately show ?thesis
    using assms
    by (auto simp: forget_returned_def list_ex_iff fdset_exact_def fdset_ok_def answers_def fold_clear linorder_not_le)
qed

lemma update_fdset_ok:
  assumes "fdset_exact f" "i < 2048"
  shows "\<exists>f'. ipaugenblick_update_fdset i f = Some f' \<and> fdset_exact f' \<and> interested_flags f' = interested_flags f \<and>
    set (answers f') = set (answers f) \<union> (if interested_flags f i then {i} else {})"
proof (cases "interested_flags f i \<and> \<not> returned_flags f i")
  case True
  let ?f = "f\<lparr>returned_sockets := (returned_sockets f)(returned_idx f := i),
                        returned_flags := (returned_flags f)(i := True), returned_idx := returned_idx f + 1\<rparr>"
  have ans: "answers ?f = answers f @ [i]" by (simp add: answers_def)
  have "fdset_exact ?f"
    using assms True unfolding fdset_exact_def fdset_ok_def ans by auto
  moreover from this have "returned_idx ?f \<le> 2048"
    using distinct_bounded_length [of "answers ?f" 2048] by (simp only: fdset_exact_def fdset_ok_def length_answers)
  ultimately show ?thesis
    using True assms(2) ans by (simp add: ipaugenblick_update_fdset_def)
next
  case False
  then show ?thesis
    using assms by (auto simp: ipaugenblick_update_fdset_def fdset_exact_def fdset_ok_def)
qed

text \<open>The three sets together: their answers, and that a call changes nothing else of them.\<close>

definition ans :: "ipaugenblick_fdset option \<Rightarrow> nat set" where
  "ans f = (case f of None \<Rightarrow> {} | Some k \<Rightarrow> set (answers k))"

definition all_sets :: "(ipaugenblick_fdset \<Rightarrow> bool) \<Rightarrow> fdsets \<Rightarrow> bool" where
  "all_sets P fs \<longleftrightarrow> pred_option P (readfdset fs) \<and> pred_option P (writefdset fs) \<and> pred_option P (excfdset fs)"

definition same_interest :: "fdsets \<Rightarrow> fdsets \<Rightarrow> bool" where
  "same_interest fs fs' \<longleftrightarrow>
     map_option interested_flags (readfdset fs') = map_option interested_flags (readfdset fs) \<and>
     map_option interested_flags (writefdset fs') = map_option interested_flags (writefdset fs) \<and>
     map_option interested_flags (excfdset fs') = map_option interested_flags (excfdset fs)"

lemma wants_eq: "wants f i = (case map_option interested_flags f of None \<Rightarrow> False | Some g \<Rightarrow> g i)"
  by (simp add: wants_def option.case_eq_if option.map_sel)

lemma same_interest_wants:
  assumes "same_interest fs fs'"
  shows "wants (readfdset fs') = wants (readfdset fs)" "wants (writefdset fs') = wants (writefdset fs)"
    "wants (excfdset fs') = wants (excfdset fs)" "excfdset fs' = None \<longleftrightarrow> excfdset fs = None"
  using assms by (auto simp: same_interest_def wants_eq fun_eq_iff)

lemma on_set_forget:
  assumes "pred_option fdset_ok f"
  shows "\<exists>f'. on_set forget_returned f = Some f' \<and> pred_option fdset_exact f' \<and> ans f' = {} \<and>
    map_option interested_flags f' = map_option interested_flags f"
  using assms forget_returned_ok by (cases f) (fastforce simp: on_set_def ans_def)+

lemma forget_all_ok:
  assumes "all_sets fdset_ok fs"
  shows "\<exists>fs'. forget_all fs = Some fs' \<and> all_sets fdset_exact fs' \<and> same_interest fs fs' \<and>
    ans (readfdset fs') = {} \<and> ans (writefdset fs') = {} \<and> ans (excfdset fs') = {}"
  using on_set_forget [of "readfdset fs"] on_set_forget [of "writefdset fs"] on_set_forget [of "excfdset fs"] assms
  by (auto simp: forget_all_def all_sets_def same_interest_def)

lemma on_set_update:
  assumes "pred_option fdset_exact f" "i < 2048"
  shows "\<exists>f'. on_set (ipaugenblick_update_fdset i) f = Some f' \<and> pred_option fdset_exact f' \<and>
    ans f' = ans f \<union> (if wants f i then {i} else {}) \<and> map_option interested_flags f' = map_option interested_flags f"
  using assms update_fdset_ok by (cases f) (fastforce simp: on_set_def ans_def wants_def)+

lemma report_cached_ok:
  assumes "all_sets fdset_exact fs" "i < 2048"
  shows "\<exists>fs'. report_cached i ev fs = Some fs' \<and> all_sets fdset_exact fs' \<and> same_interest fs fs' \<and>
    ans (readfdset fs') = ans (readfdset fs) \<union> (if has_bit ev 1 \<and> wants (readfdset fs) i then {i} else {}) \<and>
    ans (writefdset fs') = ans (writefdset fs) \<union> (if has_bit ev 2 \<and> wants (writefdset fs) i then {i} else {}) \<and>
    ans (excfdset fs') = ans (excfdset fs) \<union> (if has_bit ev 4 \<and> wants (excfdset fs) i then {i} else {})"
  using on_set_update [of "readfdset fs" i] on_set_update [of "writefdset fs" i] on_set_update [of "excfdset fs" i] assms
  by (auto simp: report_cached_def all_sets_def same_interest_def)

lemma report_ready_ok:
  assumes "all_sets fdset_exact fs" "i < 2048"
  shows "\<exists>fs'. report_ready i ev fs = Some fs' \<and> all_sets fdset_exact fs' \<and> same_interest fs fs' \<and>
    ans (readfdset fs') = ans (readfdset fs) \<union> (if has_bit ev 1 \<and> wants (readfdset fs) i then {i} else {}) \<and>
    ans (writefdset fs') = ans (writefdset fs) \<union>
      (if has_bit ev 2 \<and> \<not> (has_bit ev 4 \<and> excfdset fs \<noteq> None) \<and> wants (writefdset fs) i then {i} else {}) \<and>
    ans (excfdset fs') = ans (excfdset fs) \<union> (if has_bit ev 4 \<and> wants (excfdset fs) i then {i} else {})"
proof -
  let ?upd = "on_set (ipaugenblick_update_fdset i)"
  note e = assms(1) [unfolded all_sets_def]
  obtain r w x where u: "?upd (readfdset fs) = Some r" "?upd (writefdset fs) = Some w" "?upd (excfdset fs) = Some x"
    and p: "pred_option fdset_exact r" "pred_option fdset_exact w" "pred_option fdset_exact x"
    and a: "ans r = ans (readfdset fs) \<union> (if wants (readfdset fs) i then {i} else {})"
      "ans w = ans (writefdset fs) \<union> (if wants (writefdset fs) i then {i} else {})"
      "ans x = ans (excfdset fs) \<union> (if wants (excfdset fs) i then {i} else {})"
    and m: "map_option interested_flags r = map_option interested_flags (readfdset fs)"
      "map_option interested_flags w = map_option interested_flags (writefdset fs)"
      "map_option interested_flags x = map_option interested_flags (excfdset fs)"
    using on_set_update [of "readfdset fs" i] on_set_update [of "writefdset fs" i] on_set_update [of "excfdset fs" i]
      e assms(2) by blast
  have n: "wants (readfdset fs) i \<Longrightarrow> readfdset fs \<noteq> None" "wants (writefdset fs) i \<Longrightarrow> writefdset fs \<noteq> None"
    "wants (excfdset fs) i \<Longrightarrow> excfdset fs \<noteq> None"
    by (auto simp: wants_def split: option.splits)
  define r' where "r' = (if has_bit ev 1 \<and> readfdset fs \<noteq> None then r else readfdset fs)"
  have r': "pred_option fdset_exact r'" "map_option interested_flags r' = map_option interested_flags (readfdset fs)"
    "ans r' = ans (readfdset fs) \<union> (if has_bit ev 1 \<and> wants (readfdset fs) i then {i} else {})"
    using p(1) a(1) m(1) e n(1) by (simp_all add: r'_def)
  have "(if has_bit ev 1 \<and> readfdset fs \<noteq> None then ?upd (readfdset fs) else Some (readfdset fs)) = Some r'"
    using u(1) by (auto simp: r'_def)
  then show ?thesis
    using u(2,3) p(2,3) a(2,3) m(2,3) r' e n(2,3)
    by (cases "has_bit ev 4 \<and> excfdset fs \<noteq> None"; cases "has_bit ev 2 \<and> writefdset fs \<noteq> None")
      (auto simp: report_ready_def all_sets_def same_interest_def)
qed

lemma same_interest_trans:
  "same_interest a b \<Longrightarrow> same_interest b c \<Longrightarrow> same_interest a c"
  by (simp add: same_interest_def)

lemma returned_count_0:
  assumes "all_sets fdset_exact fs"
  shows "returned_count fs = card (ans (readfdset fs)) + card (ans (writefdset fs)) + card (ans (excfdset fs))"
proof -
  have "(case f of None \<Rightarrow> 0 | Some k \<Rightarrow> returned_idx k) = card (ans f)" if "pred_option fdset_exact f" for f
    using that distinct_card by (cases f) (fastforce simp: ans_def fdset_exact_def fdset_ok_def)+
  then show ?thesis
    using assms by (simp add: returned_count_def all_sets_def)
qed

section \<open>The steps of a select\<close>

definition all_select_ok :: "app \<Rightarrow> bool" where
  "all_select_ok s \<longleftrightarrow> app_ok s \<and> (\<forall>i<2048. select_ok i s)"

text \<open>What the ready cache operations leave alone.\<close>

definition same_select :: "app \<Rightarrow> app \<Rightarrow> bool" where
  "same_select s s' \<longleftrightarrow> sm s' = sm s \<and>
     (\<forall>j. ld_select (local_socket_descriptors s' j) = ld_select (local_socket_descriptors s j) \<and>
          local_cache (local_socket_descriptors s' j) = local_cache (local_socket_descriptors s j))"

lemma same_select_ok:
  assumes "same_select s s'" "all_select_ok s"
  shows "all_select_ok s'"
  using assms by (auto simp: same_select_def all_select_ok_def select_ok_def app_ok_def)

lemma all_select_okD:
  assumes "all_select_ok s" "i < 2048" "ld_select (local_socket_descriptors s i) \<noteq> -1"
  shows "selector_idx (ld_select (local_socket_descriptors s i)) \<noteq> None"
  using assms unfolding all_select_ok_def select_ok_def by blast

lemma same_select_trans: "same_select a b \<Longrightarrow> same_select b c \<Longrightarrow> same_select a c"
  by (simp add: same_select_def)

lemma same_select_refl [simp]: "same_select s s" "same_select s (stat_add c n s') = same_select s s'"
  by (simp_all add: same_select_def)

lemma put_to_local_cache_ok:
  assumes "selector_idx (ld_select (local_socket_descriptors s i)) \<noteq> None"
  shows "\<exists>s'. ipaugenblick_put_to_local_cache i s = Some s' \<and> same_select s s'"
  using assms by (auto simp: ipaugenblick_put_to_local_cache_def Let_def same_select_def)

lemma handle_ready_ok:
  assumes "all_select_ok s" "all_sets fdset_exact fs"
  shows "\<exists>ex fs' s'. handle_ready ws fs s = Some (ex, fs', s') \<and> all_sets fdset_exact fs' \<and> same_interest fs fs' \<and>
    same_select s s'"
  using assms
proof (induction ws arbitrary: fs s)
  case (Cons w ws)
  let ?i = "ready_sock w"
  let ?s1 = "upd_ld ?i (\<lambda>d. d\<lparr>any_event_received := True, local_mask := local_mask d OR ready_events w\<rparr>) s"
  show ?case
  proof (cases "2048 \<le> ?i \<or> ld_select (local_socket_descriptors s ?i) = -1")
    case True
    then show ?thesis
      using Cons by (auto simp: Let_def same_interest_def)
  next
    case False
    then have i: "?i < 2048" "selector_idx (ld_select (local_socket_descriptors s ?i)) \<noteq> None"
      using all_select_okD [OF Cons.prems(1)] by auto
    obtain s2 where s2: "ipaugenblick_put_to_local_cache ?i ?s1 = Some s2" "same_select ?s1 s2"
      using put_to_local_cache_ok [of ?s1 ?i] i by auto
    have sel: "same_select s s2" using s2(2) by (simp add: same_select_def)
    obtain fs1 where fs1: "report_ready ?i (ready_events w) fs = Some fs1" "all_sets fdset_exact fs1" "same_interest fs fs1"
      using report_ready_ok [OF Cons.prems(2) i(1)] by blast
    show ?thesis
      using Cons.IH [OF same_select_ok [OF sel Cons.prems(1)] fs1(2)] False s2(1) fs1 sel
      by (auto simp: Let_def linorder_not_le intro: same_interest_trans same_select_trans)
  qed
qed (auto simp: same_interest_def)

text \<open>The answers the words of a ring give, by socket.\<close>

definition told :: "u32 list \<Rightarrow> app \<Rightarrow> (u32 \<Rightarrow> bool) \<Rightarrow> (nat \<Rightarrow> bool) \<Rightarrow> nat set" where
  "told ws s P W = {ready_sock w |w. w \<in> set ws \<and> ld_select (local_socket_descriptors s (ready_sock w)) \<noteq> -1 \<and>
                       P (ready_events w) \<and> W (ready_sock w)}"

lemma told_Cons:
  "told (w # ws) s P W = (if ld_select (local_socket_descriptors s (ready_sock w)) \<noteq> -1 \<and> P (ready_events w) \<and> W (ready_sock w)
     then {ready_sock w} else {}) \<union> told ws s P W"
  by (auto simp: told_def)

lemma told_same_select: "same_select s s' \<Longrightarrow> told ws s' P W = told ws s P W"
  by (simp add: told_def same_select_def)

lemma handle_ready_answers:
  assumes "all_select_ok s" "all_sets fdset_exact fs" "\<forall>w\<in>set ws. ready_sock w < 2048"
    "handle_ready ws fs s = Some (ex, fs', s')"
  shows "\<not> ex \<and>
    ans (readfdset fs') = ans (readfdset fs) \<union> told ws s (\<lambda>ev. has_bit ev 1) (wants (readfdset fs)) \<and>
    ans (writefdset fs') = ans (writefdset fs) \<union>
      told ws s (\<lambda>ev. has_bit ev 2 \<and> \<not> (has_bit ev 4 \<and> excfdset fs \<noteq> None)) (wants (writefdset fs)) \<and>
    ans (excfdset fs') = ans (excfdset fs) \<union> told ws s (\<lambda>ev. has_bit ev 4) (wants (excfdset fs))"
  using assms
proof (induction ws arbitrary: fs s)
  case (Cons w ws)
  let ?i = "ready_sock w"
  let ?s1 = "upd_ld ?i (\<lambda>d. d\<lparr>any_event_received := True, local_mask := local_mask d OR ready_events w\<rparr>) s"
  have i: "?i < 2048" using Cons.prems(3) by simp
  show ?case
  proof (cases "ld_select (local_socket_descriptors s ?i) = -1")
    case True
    then show ?thesis
      using Cons.IH [OF Cons.prems(1,2)] Cons.prems(3,4) i by (simp add: told_Cons)
  next
    case False
    then have idx: "selector_idx (ld_select (local_socket_descriptors s ?i)) \<noteq> None"
      using all_select_okD [OF Cons.prems(1) i] by simp
    obtain s2 where s2: "ipaugenblick_put_to_local_cache ?i ?s1 = Some s2" "same_select ?s1 s2"
      using put_to_local_cache_ok [of ?s1 ?i] idx by auto
    have sel: "same_select s s2" using s2(2) by (simp add: same_select_def)
    obtain fs1 where fs1: "report_ready ?i (ready_events w) fs = Some fs1" "all_sets fdset_exact fs1" "same_interest fs fs1"
      and a: "ans (readfdset fs1) = ans (readfdset fs) \<union> (if has_bit (ready_events w) 1 \<and> wants (readfdset fs) ?i then {?i} else {})"
        "ans (writefdset fs1) = ans (writefdset fs) \<union> (if has_bit (ready_events w) 2 \<and>
           \<not> (has_bit (ready_events w) 4 \<and> excfdset fs \<noteq> None) \<and> wants (writefdset fs) ?i then {?i} else {})"
        "ans (excfdset fs1) = ans (excfdset fs) \<union> (if has_bit (ready_events w) 4 \<and> wants (excfdset fs) ?i then {?i} else {})"
      using report_ready_ok [OF Cons.prems(2) i, of "ready_events w"] by blast
    have "handle_ready ws fs1 s2 = Some (ex, fs', s')"
      using Cons.prems(4) i False s2(1) fs1(1) by (simp add: Let_def)
    from Cons.IH [OF same_select_ok [OF sel Cons.prems(1)] fs1(2) _ this] show ?thesis
      using Cons.prems(3) False a
      by (simp add: told_Cons told_same_select [OF sel] same_interest_wants [OF fs1(3)] Un_assoc cong: if_cong)
  qed
qed (simp add: told_def)

lemma scan_cache_ok:
  assumes "all_sets fdset_exact fs" "set is \<subseteq> {..<2048}" "n = int (length is)"
  shows "\<exists>fs'. scan_cache ds is n fs = Some fs' \<and> all_sets fdset_exact fs' \<and> same_interest fs fs' \<and>
    ans (readfdset fs') = ans (readfdset fs) \<union> {i \<in> set is. has_bit (local_mask (ds i)) 1 \<and> wants (readfdset fs) i} \<and>
    ans (writefdset fs') = ans (writefdset fs) \<union> {i \<in> set is. has_bit (local_mask (ds i)) 2 \<and> wants (writefdset fs) i} \<and>
    ans (excfdset fs') = ans (excfdset fs) \<union> {i \<in> set is. has_bit (local_mask (ds i)) 4 \<and> wants (excfdset fs) i}"
  using assms
proof (induction "is" arbitrary: fs n)
  case (Cons i "is")
  let ?m = "local_mask (ds i)"
  obtain fs1 where fs1: "report_cached i ?m fs = Some fs1" "all_sets fdset_exact fs1" "same_interest fs fs1"
    and a: "ans (readfdset fs1) = ans (readfdset fs) \<union> (if has_bit ?m 1 \<and> wants (readfdset fs) i then {i} else {})"
      "ans (writefdset fs1) = ans (writefdset fs) \<union> (if has_bit ?m 2 \<and> wants (writefdset fs) i then {i} else {})"
      "ans (excfdset fs1) = ans (excfdset fs) \<union> (if has_bit ?m 4 \<and> wants (excfdset fs) i then {i} else {})"
    using report_cached_ok [OF Cons.prems(1), of i ?m] Cons.prems(2) by auto
  obtain fs' where fs': "scan_cache ds is (n - 1) fs1 = Some fs'" "all_sets fdset_exact fs'" "same_interest fs1 fs'"
    and b: "ans (readfdset fs') = ans (readfdset fs1) \<union> {i \<in> set is. has_bit (local_mask (ds i)) 1 \<and> wants (readfdset fs) i}"
      "ans (writefdset fs') = ans (writefdset fs1) \<union> {i \<in> set is. has_bit (local_mask (ds i)) 2 \<and> wants (writefdset fs) i}"
      "ans (excfdset fs') = ans (excfdset fs1) \<union> {i \<in> set is. has_bit (local_mask (ds i)) 4 \<and> wants (excfdset fs) i}"
    using Cons.IH [OF fs1(2), of "n - 1"] Cons.prems(2,3) same_interest_wants [OF fs1(3)] by auto
  have "scan_cache ds (i # is) n fs = Some fs'" using Cons.prems(3) fs1(1) fs'(1) by simp
  then show ?case
    using fs'(2) same_interest_trans [OF fs1(3) fs'(3)] a b by auto
qed (simp add: same_interest_def)

text \<open>Taking the events empties the ring of the selector.\<close>

lemma ready_ring_upd_ok:
  "shm_ok m \<Longrightarrow> ring_ok r \<Longrightarrow> shm_ok (m\<lparr>ready_connections := (ready_connections m)(p := r)\<rparr>)"
  by (simp add: shm_ok_def)

lemma take_ready_ok:
  assumes "app_ok s" "p < 64"
  shows "\<exists>s'. take_ready p s =
      Some (if ring_list (ready_connections (sm s) p) = [] then None else Some (ring_list (ready_connections (sm s) p)), s') \<and>
    app_ok s' \<and> ring_list (ready_connections (sm s') p) = [] \<and>
    local_socket_descriptors s' = local_socket_descriptors s \<and> selectors s' = selectors s"
proof -
  let ?r = "ready_connections (sm s) p" and ?n = "rte_ring_count (ready_connections (sm s) p)"
  have ok: "shm_ok (sm s)" "ring_ok ?r" using app_okD(1) [OF assms(1)] shm_okD(8) assms(2) by auto
  have n: "unat ?n = length (ring_list ?r)" by (rule rte_ring_count_ok [OF ok(2)])
  then have e: "?n = 0 \<longleftrightarrow> ring_list ?r = []" by (simp flip: length_0_conv unat_eq_zero)
  have d: "ring_ok (deq_step ?r ?n)" "ring_list (deq_step ?r ?n) = []"
    using deq_step [OF ok(2), of ?n] n by simp_all
  have "rte_ring_dequeue_bulk ?r ?n = Some (0, ring_list ?r, deq_step ?r ?n)" if "?n \<noteq> 0"
    using that n ok(2)
    by (auto simp: rte_ring_dequeue_bulk_def rte_ring_sc_dequeue_bulk_def rte_ring_mc_dequeue_bulk_def
        mc_do_dequeue_alone sc_dequeue_fixed)
  then show ?thesis
    using e d assms(1) ok ready_ring_upd_ok [OF ok(1) d(1), of p] by (auto simp: take_ready_def Let_def)
qed

lemma same_selectD: "same_select s s' \<Longrightarrow> sm s' = sm s" by (simp add: same_select_def)

lemma upd_sm_select_ok: "all_select_ok s \<Longrightarrow> shm_ok m \<Longrightarrow> all_select_ok (s\<lparr>sm := m\<rparr>)"
  by (auto simp: all_select_ok_def select_ok_def app_ok_def)

text \<open>A round that finds the ring empty or full of events.\<close>

definition select_done :: "nat \<Rightarrow> (select_end \<times> fdsets \<times> app) option \<Rightarrow> bool" where
  "select_done p r \<longleftrightarrow> (\<exists>e fs' s'. r = Some (e, fs', s') \<and> all_select_ok s' \<and> all_sets fdset_exact fs' \<and>
     (e = Exited \<or> e = Returned (-1) \<and> returned_count fs' = 0 \<and> ring_list (ready_connections (sm s') p) = [] \<or>
      e = Returned (int (returned_count fs')) \<and> 0 < returned_count fs'))"

lemma select_empty:
  assumes "all_select_ok s" "all_sets fdset_exact fs" "p < 64" "ring_list (ready_connections (sm s) p) = []"
    "exit_after_check \<or> timeout = Some (0, 0)"
  shows "select_done p (select_loop p timeout waits exit_after_check fs s)"
proof (cases "returned_count fs = 0")
  case True
  obtain s1 where s1: "take_ready p s = Some (None, s1)" "app_ok s1" "ring_list (ready_connections (sm s1) p) = []"
      "local_socket_descriptors s1 = local_socket_descriptors s"
    using take_ready_ok [of s p] assms by (auto simp: all_select_ok_def)
  moreover have "all_select_ok s1" using s1 assms(1) by (simp add: all_select_ok_def select_ok_def)
  ultimately show ?thesis
    using True assms(2,5) by (subst select_loop.simps) (auto simp: select_done_def)
qed (use assms in \<open>subst select_loop.simps, simp add: select_done_def\<close>)

lemma select_full:
  assumes "all_select_ok s" "all_sets fdset_exact fs" "p < 64" "ring_list (ready_connections (sm s) p) \<noteq> []"
    "returned_count fs = 0"
  shows "select_done p (select_loop p timeout waits exit_after_check fs s) \<or>
    (\<exists>fs' s'. select_loop p timeout waits exit_after_check fs s = select_loop p timeout waits exit_after_check fs' s' \<and>
       all_select_ok s' \<and> all_sets fdset_exact fs' \<and> ring_list (ready_connections (sm s') p) = [])"
proof -
  obtain s1 where s1: "take_ready p s = Some (Some (ring_list (ready_connections (sm s) p)), s1)" "app_ok s1"
      "ring_list (ready_connections (sm s1) p) = []" "local_socket_descriptors s1 = local_socket_descriptors s"
    using take_ready_ok [of s p] assms by (auto simp: all_select_ok_def)
  let ?s1 = "stat_add stats_select_returned 1 s1"
  have ok1: "all_select_ok ?s1" using s1 assms(1) by (simp add: all_select_ok_def select_ok_def)
  obtain ex fs' s' where h: "handle_ready (ring_list (ready_connections (sm s) p)) fs ?s1 = Some (ex, fs', s')"
      "all_sets fdset_exact fs'" "same_select ?s1 s'"
    using handle_ready_ok [OF ok1 assms(2)] by blast
  have ok: "all_select_ok s'" "ring_list (ready_connections (sm s') p) = []"
    using same_select_ok [OF h(3) ok1] same_selectD [OF h(3)] s1(3) by simp_all
  have eq: "select_loop p timeout waits exit_after_check fs s =
      (if ex then Some (Exited, fs', s') else select_loop p timeout waits exit_after_check fs' s')"
    using assms(5) s1(1) h(1) by (subst select_loop.simps) simp
  show ?thesis
  proof (cases ex)
    case True
    then show ?thesis using eq ok h(2) by (auto simp: select_done_def)
  next
    case False
    then show ?thesis using eq ok h(2) by auto
  qed
qed

lemma select_answered:
  assumes "all_select_ok s" "all_sets fdset_exact fs" "returned_count fs \<noteq> 0"
  shows "select_done p (select_loop p timeout waits exit_after_check fs s)"
  using assms by (subst select_loop.simps) (simp add: select_done_def)

text \<open>It is enough to follow the call from the states in which the ring is empty.\<close>

lemma select_round:
  assumes "all_select_ok s" "all_sets fdset_exact fs" "p < 64"
    and idle: "\<And>fs s. all_select_ok s \<Longrightarrow> all_sets fdset_exact fs \<Longrightarrow> ring_list (ready_connections (sm s) p) = [] \<Longrightarrow>
      returned_count fs = 0 \<Longrightarrow> select_done p (select_loop p timeout waits exit_after_check fs s)"
  shows "select_done p (select_loop p timeout waits exit_after_check fs s)"
proof -
  have e: "select_done p (select_loop p timeout waits exit_after_check fs s)"
    if "all_select_ok s" "all_sets fdset_exact fs" "ring_list (ready_connections (sm s) p) = []" for fs s
    using idle [OF that] select_answered [OF that(1,2)] by (cases "returned_count fs = 0") auto
  consider "returned_count fs \<noteq> 0" | "ring_list (ready_connections (sm s) p) = []"
    | "returned_count fs = 0" "ring_list (ready_connections (sm s) p) \<noteq> []" by auto
  then show ?thesis
  proof cases
    case 3
    then show ?thesis using select_full [OF assms(1-3)] e by metis
  qed (use select_answered e assms in auto)
qed

section \<open>The ready cache\<close>

text \<open>
  The list of a selector holds, once each, the sockets that watch with it and are marked present;
  its counter is the length of the list.
\<close>

definition watched :: "app \<Rightarrow> nat \<Rightarrow> nat set" where
  "watched s p = {i. i < 2048 \<and> present_in_ready_cache (local_socket_descriptors s i) \<and>
                      ld_select (local_socket_descriptors s i) = int p}"

definition cache_ok :: "app \<Rightarrow> bool" where
  "cache_ok s \<longleftrightarrow>
     (\<forall>p<64. distinct (local_ready_cache (selectors s p)) \<and> set (local_ready_cache (selectors s p)) = watched s p \<and>
              queue_length (selectors s p) = int (length (local_ready_cache (selectors s p))))"

lemma cache_okD:
  assumes "cache_ok s" "p < 64"
  shows "distinct (local_ready_cache (selectors s p))" "set (local_ready_cache (selectors s p)) = watched s p"
    "queue_length (selectors s p) = int (length (local_ready_cache (selectors s p)))"
  using assms by (auto simp: cache_ok_def)

lemma selector_idx_int: "selector_idx q = Some p \<Longrightarrow> q = int p \<and> p < 64"
  by (auto simp: selector_idx_def split: if_splits)

lemma cache_ok_cong:
  assumes "selectors s' = selectors s" "\<And>i. present_in_ready_cache (local_socket_descriptors s' i) = present_in_ready_cache (local_socket_descriptors s i)"
    "\<And>i. ld_select (local_socket_descriptors s' i) = ld_select (local_socket_descriptors s i)"
  shows "cache_ok s' = cache_ok s"
  using assms by (simp add: cache_ok_def watched_def)

lemma cache_ok_frame [simp]:
  "cache_ok (s\<lparr>sm := m\<rparr>) = cache_ok s" "cache_ok (stat_add c n s) = cache_ok s"
  "cache_ok (upd_ld i (\<lambda>d. d\<lparr>local_mask := mk\<rparr>) s) = cache_ok s"
  "cache_ok (upd_ld i (\<lambda>d. d\<lparr>any_event_received := b, local_mask := mk\<rparr>) s) = cache_ok s"
  by (rule cache_ok_cong; simp)+

lemma put_cache_ok:
  assumes "cache_ok s" "i < 2048"
  shows "ensures cache_ok (ipaugenblick_put_to_local_cache i s)"
proof (cases "local_mask (local_socket_descriptors s i) \<noteq> 0 \<and> \<not> present_in_ready_cache (local_socket_descriptors s i)")
  case new: True
  show ?thesis
  proof (cases "selector_idx (ld_select (local_socket_descriptors s i))")
    case (Some p)
    note p = selector_idx_int [OF Some]
    let ?s = "upd_selector p (\<lambda>k. k\<lparr>local_ready_cache := local_ready_cache k @ [i], queue_length := queue_length k + 1\<rparr>)
                (upd_ld i (\<lambda>d. d\<lparr>present_in_ready_cache := True\<rparr>) s)"
    have w: "watched ?s q = (if q = p then insert i (watched s p) else watched s q)" for q
      using p assms(2) new by (auto simp: watched_def)
    moreover have "i \<notin> watched s p" using new by (simp add: watched_def)
    ultimately have "cache_ok ?s"
      using cache_okD [OF assms(1)] by (simp add: cache_ok_def)
    then show ?thesis
      using Some new assms(1) by (simp add: ipaugenblick_put_to_local_cache_def Let_def)
  qed (use new in \<open>simp add: ipaugenblick_put_to_local_cache_def\<close>)
qed (use assms(1) in \<open>auto simp: ipaugenblick_put_to_local_cache_def Let_def\<close>)

lemma remove_cache_ok:
  assumes "cache_ok s" "i < 2048"
  shows "ensures cache_ok (ipaugenblick_remove_socket_from_cache i s)"
proof (cases "ld_select (local_socket_descriptors s i) \<noteq> -1 \<and> present_in_ready_cache (local_socket_descriptors s i)")
  case old: True
  show ?thesis
  proof (cases "selector_idx (ld_select (local_socket_descriptors s i))")
    case (Some p)
    note p = selector_idx_int [OF Some]
    let ?s = "upd_selector p (\<lambda>k. k\<lparr>local_ready_cache := remove1 i (local_ready_cache k), queue_length := queue_length k - 1\<rparr>)
                (upd_ld i (\<lambda>d. d\<lparr>present_in_ready_cache := False\<rparr>) s)"
    have w: "watched ?s q = (if q = p then watched s p - {i} else watched s q)" for q
      using p by (auto simp: watched_def)
    have i: "i \<in> watched s p" using old assms(2) p by (simp add: watched_def)
    then have "0 < length (local_ready_cache (selectors s p))"
      using cache_okD(2) [OF assms(1), of p] p by fastforce
    then have "cache_ok ?s"
      using cache_okD [OF assms(1)] i w by (simp add: cache_ok_def length_remove1 of_nat_diff Suc_le_eq)
    then show ?thesis
      using Some old assms(1) by (simp add: ipaugenblick_remove_socket_from_cache_def Let_def)
  qed (use old in \<open>simp add: ipaugenblick_remove_socket_from_cache_def\<close>)
qed (use assms(1) in \<open>auto simp: ipaugenblick_remove_socket_from_cache_def Let_def\<close>)

lemma update_cache_inv:
  assumes "cache_ok s" "i < 2048"
  shows "ensures cache_ok (ipaugenblick_update_local_ready_cache i b s)"
  using assms remove_cache_ok
  by (auto simp: ipaugenblick_update_local_ready_cache_def Let_def)

lemma handle_ready_cache_ok:
  assumes "cache_ok s"
  shows "ensures (cache_ok \<circ> snd \<circ> snd) (handle_ready ws fs s)"
  using assms
proof (induction ws arbitrary: fs s)
  case (Cons w ws)
  let ?s1 = "upd_ld (ready_sock w) (\<lambda>d. d\<lparr>any_event_received := True, local_mask := local_mask d OR ready_events w\<rparr>) s"
  have "cache_ok ?s1" using Cons.prems by simp
  then show ?case
    using Cons put_cache_ok [of ?s1 "ready_sock w"] by (auto simp: Let_def ensures_def bind_eq_Some_conv split: if_splits)
qed simp

lemma take_ready_frame:
  "take_ready p s = Some (ows, s') \<Longrightarrow> selectors s' = selectors s \<and> local_socket_descriptors s' = local_socket_descriptors s"
  by (auto simp: take_ready_def Let_def bind_eq_Some_conv split: if_splits)

lemma select_loop_cache_ok:
  assumes "select_loop p timeout waits exit_after_check fs s = Some r" "cache_ok s"
  shows "cache_ok (snd (snd r))"
proof -
  have "cache_ok s \<longrightarrow> cache_ok (snd (snd r))"
  proof (rule select_loop.raw_induct [where P = "\<lambda>_ _ _ _ _ s r. cache_ok s \<longrightarrow> cache_ok (snd (snd r))", OF _ assms(1)], rule impI)
    fix loop p timeout waits exit_after_check fs s r
    assume IH: "\<And>p timeout waits exit_after_check fs s r. loop p timeout waits exit_after_check fs s = Some r \<Longrightarrow>
        cache_ok s \<longrightarrow> cache_ok (snd (snd r))"
      and step: "(if returned_count fs \<noteq> 0 then Some (Returned (int (returned_count fs)), fs, s)
        else do { (ows, s1) \<leftarrow> take_ready p s;
           case ows of
             None \<Rightarrow>
               if exit_after_check \<or> timeout = Some (0, 0) then Some (Returned (-1), fs, s1)
               else (case waits of [] \<Rightarrow> None
                     | w # ws \<Rightarrow> loop p timeout ws (timeout \<noteq> None) fs (s1\<lparr>sm := w (sm s1)\<rparr>))
           | Some evs \<Rightarrow>
               do { (ex, fs1, s2) \<leftarrow> handle_ready evs fs (stat_add stats_select_returned 1 s1);
                    if ex then Some (Exited, fs1, s2)
                    else loop p timeout waits exit_after_check fs1 s2 } }) = Some r"
      and "cache_ok s"
    then have take: "cache_ok s1" if "take_ready p s = Some (ows, s1)" for ows s1
      using cache_ok_cong [of s1 s] take_ready_frame [OF that] by simp
    show "cache_ok (snd (snd r))"
    proof (cases "returned_count fs = 0")
      case True
      then obtain ows s1 where s1: "take_ready p s = Some (ows, s1)" "cache_ok s1"
        using step take by (auto simp: bind_eq_Some_conv)
      show ?thesis
      proof (cases ows)
        case None
        then show ?thesis using step True s1 by (auto split: if_splits list.splits dest!: IH)
      next
        case (Some evs)
        then obtain ex fs1 s2 where h: "handle_ready evs fs (stat_add stats_select_returned 1 s1) = Some (ex, fs1, s2)"
          using step True s1 by (auto simp: bind_eq_Some_conv)
        then have "cache_ok s2"
          using handle_ready_cache_ok [of "stat_add stats_select_returned 1 s1" evs fs] s1(2) by simp
        then show ?thesis using step True s1 Some h by (auto split: if_splits dest!: IH)
      qed
    qed (use step \<open>cache_ok s\<close> in auto)
  qed
  then show ?thesis using assms(2) by simp
qed

section \<open>The answers of a select\<close>

text \<open>The sockets of the ready cache with an event asked for, and a call that answers three sets.\<close>

definition cached :: "app \<Rightarrow> nat \<Rightarrow> u32 \<Rightarrow> ipaugenblick_fdset option \<Rightarrow> nat set" where
  "cached s p b f = {i \<in> set (local_ready_cache (selectors s p)). has_bit (local_mask (local_socket_descriptors s i)) b \<and> wants f i}"

definition reports :: "nat set \<Rightarrow> nat set \<Rightarrow> nat set \<Rightarrow> (select_end \<times> fdsets \<times> app) option \<Rightarrow> bool" where
  "reports R W E r \<longleftrightarrow> (\<exists>fs' s'. r = Some (Returned (int (card R + card W + card E)), fs', s') \<and>
     ans (readfdset fs') = R \<and> ans (writefdset fs') = W \<and> ans (excfdset fs') = E)"

lemma finite_ans [simp]: "finite (ans f)"
  by (simp add: ans_def split: option.split)

lemma select_start:
  assumes "cache_ok s" "all_sets fdset_ok fs" "selector_idx selector = Some p"
  shows "\<exists>fs'. ipaugenblick_select selector timeout waits fs s =
      select_loop p timeout waits False fs' (stat_add stats_select_called 1 s) \<and>
    all_sets fdset_exact fs' \<and> same_interest fs fs' \<and> ans (readfdset fs') = cached s p 1 (readfdset fs) \<and>
    ans (writefdset fs') = cached s p 2 (writefdset fs) \<and> ans (excfdset fs') = cached s p 4 (excfdset fs)"
proof -
  have p: "p < 64" using selector_idx_int [OF assms(3)] by simp
  obtain fs1 where fs1: "forget_all fs = Some fs1" "all_sets fdset_exact fs1" "same_interest fs fs1"
      "ans (readfdset fs1) = {}" "ans (writefdset fs1) = {}" "ans (excfdset fs1) = {}"
    using forget_all_ok [OF assms(2)] by blast
  have "set (local_ready_cache (selectors s p)) \<subseteq> {..<2048}"
    using cache_okD(2) [OF assms(1) p] by (auto simp: watched_def)
  from scan_cache_ok [OF fs1(2) this cache_okD(3) [OF assms(1) p], of "local_socket_descriptors s"]
  show ?thesis
    using assms(3) fs1 same_interest_trans
    by (auto simp: ipaugenblick_select_def Let_def cached_def same_interest_wants [OF fs1(3)])
qed

lemma select_loop_reports:
  assumes "all_sets fdset_exact fs" "ans (readfdset fs) \<union> ans (writefdset fs) \<union> ans (excfdset fs) \<noteq> {}"
  shows "reports (ans (readfdset fs)) (ans (writefdset fs)) (ans (excfdset fs)) (select_loop p timeout waits ex fs s)"
  using assms returned_count_0 [OF assms(1)]
  by (subst select_loop.simps) (auto simp: reports_def card_gt_0_iff)

lemma select_loop_ring:
  assumes "all_select_ok s" "all_sets fdset_exact fs" "p < 64" "ws = ring_list (ready_connections (sm s) p)"
    "\<forall>w\<in>set ws. ready_sock w < 2048"
    and none: "ans (readfdset fs) = {}" "ans (writefdset fs) = {}" "ans (excfdset fs) = {}"
    and T: "TR = told ws s (\<lambda>ev. has_bit ev 1) (wants (readfdset fs))"
      "TW = told ws s (\<lambda>ev. has_bit ev 2 \<and> \<not> (has_bit ev 4 \<and> excfdset fs \<noteq> None)) (wants (writefdset fs))"
      "TE = told ws s (\<lambda>ev. has_bit ev 4) (wants (excfdset fs))"
    and some: "TR \<union> TW \<union> TE \<noteq> {}"
  shows "reports TR TW TE (select_loop p timeout waits ec fs s)"
proof -
  have "ws \<noteq> []" using some by (auto simp: T told_def)
  then obtain s1 where s1: "take_ready p s = Some (Some ws, s1)" "app_ok s1"
      "local_socket_descriptors s1 = local_socket_descriptors s"
    using take_ready_ok [of s p] assms(1,3,4) by (auto simp: all_select_ok_def)
  let ?s1 = "stat_add stats_select_returned 1 s1"
  have ok1: "all_select_ok ?s1" using s1 assms(1) by (simp add: all_select_ok_def select_ok_def)
  obtain ex fs' s' where h: "handle_ready ws fs ?s1 = Some (ex, fs', s')" "all_sets fdset_exact fs'"
    using handle_ready_ok [OF ok1 assms(2)] by blast
  have sel: "told ws ?s1 P W = told ws s P W" for P W using s1(3) by (simp add: told_def)
  have a: "\<not> ex" "ans (readfdset fs') = TR" "ans (writefdset fs') = TW" "ans (excfdset fs') = TE"
    using handle_ready_answers [OF ok1 assms(2,5) h(1)] none by (simp_all add: sel T)
  have "returned_count fs = 0"
    using returned_count_0 [OF assms(2)] none by simp
  then have "select_loop p timeout waits ec fs s = select_loop p timeout waits ec fs' s'"
    using s1(1) h(1) a(1) by (subst select_loop.simps) simp
  then show ?thesis
    using select_loop_reports [OF h(2), of p timeout waits ec s'] some by (simp add: a)
qed

text \<open>The word the service posts is the one the application reads.\<close>

lemma ready_mask_decode:
  assumes "i < 2 ^ 16" "ev < 2 ^ 16"
  shows "ready_sock (ready_mask i ev) = i" "ready_events (ready_mask i ev) = ev"
proof -
  have i: "take_bit 16 (of_nat i :: u32) = of_nat i"
    using assms(1) by (simp only: take_bit_of_nat) (simp add: take_bit_nat_eq_self)
  then have i': "drop_bit 16 (of_nat i :: u32) = 0"
    by (simp add: take_bit_eq_self_iff_drop_bit_eq_0)
  have "take_bit 16 ev = ev"
    using assms(2) by (intro unsigned_word_eqI [where ?'a = nat])
      (simp add: unsigned_take_bit_eq take_bit_nat_eq_self word_less_nat_alt)
  moreover have "drop_bit 16 (push_bit 16 ev) = take_bit 16 ev"
    by (rule bit_eqI) (auto simp: bit_simps)
  ultimately show "ready_events (ready_mask i ev) = ev"
    using i' by (simp add: ready_events_def ready_mask_def)
  have "w AND 0xFFFF = take_bit 16 w" for w :: u32
    by (simp add: take_bit_eq_mask mask_numeral)
  then have "ready_mask i ev AND 0xFFFF = of_nat i"
    using i by (simp add: ready_mask_def take_bit_push_bit)
  then show "ready_sock (ready_mask i ev) = i"
    using assms(1) by (simp add: ready_sock_def unat_of_nat)
qed

section \<open>Properties\<close>



text \<open>
  C22. A select with a time limit ends: when the one sleep it may need returns, and whatever
  events the service posted meanwhile, the call answers either the number of sockets it put into
  the three sets or -1, with nothing put and the ring empty; only a word with a socket number out
  of range ends the process instead. No array is written out of bounds on the way.
\<close>

theorem select_with_timeout_ends:
  assumes "all_select_ok s" "cache_ok s" "all_sets fdset_ok fs" "selector_idx selector = Some p"
    and wait: "\<forall>m. shm_ok m \<longrightarrow> shm_ok (w m)"
  shows "select_done p (ipaugenblick_select selector (Some t) (w # ws) fs s)"
proof -
  have p: "p < 64" using selector_idx_int [OF assms(4)] by simp
  let ?s = "stat_add stats_select_called 1 s"
  obtain fs2 where eq: "ipaugenblick_select selector (Some t) (w # ws) fs s = select_loop p (Some t) (w # ws) False fs2 ?s"
    and fs2: "all_sets fdset_exact fs2"
    using select_start [OF assms(2-4)] by blast
  have now: "select_done p (select_loop p timeout waits True fs s)"
    if "all_select_ok s" "all_sets fdset_exact fs" for timeout waits fs s
    by (rule select_round [OF that p]) (rule select_empty [OF _ _ p], auto)
  have idle: "select_done p (select_loop p (Some t) (w # ws) False fs s)"
    if ok: "all_select_ok s" "all_sets fdset_exact fs" and e: "ring_list (ready_connections (sm s) p) = []"
      "returned_count fs = 0" for fs s
  proof (cases "t = (0, 0)")
    case False
    obtain s1 where s1: "take_ready p s = Some (None, s1)" "app_ok s1" "local_socket_descriptors s1 = local_socket_descriptors s"
      using take_ready_ok [of s p] ok(1) e p by (auto simp: all_select_ok_def)
    have "all_select_ok (s1\<lparr>sm := w (sm s1)\<rparr>)"
      using upd_sm_select_ok [of s1] wait s1 ok(1) app_okD(1) [OF s1(2)] by (simp add: all_select_ok_def select_ok_def)
    then show ?thesis
      using now [OF _ ok(2)] False e(2) s1(1) by (subst select_loop.simps) simp
  qed (use select_empty [OF ok p e(1)] in simp)
  have ok: "all_select_ok ?s" using assms(1) by (simp add: all_select_ok_def select_ok_def)
  show ?thesis
    unfolding eq by (rule select_round [OF ok fs2 p idle])
qed

theorem select_with_timeout_ends_witness:
  "select_done 2 (ipaugenblick_select 2 (Some (1, 0)) [\<lambda>m. m] \<lparr>readfdset = None, writefdset = None, excfdset = None\<rparr> small_app)"
proof -
  have "cache_ok small_app" "all_select_ok small_app"
    by (simp_all add: cache_ok_def watched_def all_select_ok_def select_ok_def selector_idx_def)
  then show ?thesis
    using select_with_timeout_ends [of small_app "\<lparr>readfdset = None, writefdset = None, excfdset = None\<rparr>" 2 2 "\<lambda>m. m" "(1, 0)" "[]"]
    by (simp add: selector_idx_def all_sets_def)
qed

text \<open>
  C23. What select reports. If the ready cache of the selector has a socket with an event the
  caller asked for, the call answers at once with exactly those of the cache. Otherwise, if the
  words in the ring of the selector bring such an event, it takes all of them and reports exactly
  the readable, closed and writable sockets they name that are watched and asked for; a socket
  that is reported closed by a word is not reported writable by it. The answer is the number of
  sockets put into the three sets.
\<close>

theorem select_reports:
  assumes "all_select_ok s" "cache_ok s" "all_sets fdset_ok fs" "selector_idx selector = Some p"
    "ws = ring_list (ready_connections (sm s) p)" "\<forall>w\<in>set ws. ready_sock w < 2048"
    and C: "CR = cached s p SOCKET_READABLE_BIT (readfdset fs)" "CW = cached s p SOCKET_WRITABLE_BIT (writefdset fs)"
      "CE = cached s p SOCKET_CLOSED_BIT (excfdset fs)"
    and T: "TR = told ws s (\<lambda>ev. has_bit ev SOCKET_READABLE_BIT) (wants (readfdset fs))"
      "TW = told ws s (\<lambda>ev. has_bit ev SOCKET_WRITABLE_BIT \<and> \<not> (has_bit ev SOCKET_CLOSED_BIT \<and> excfdset fs \<noteq> None))
              (wants (writefdset fs))"
      "TE = told ws s (\<lambda>ev. has_bit ev SOCKET_CLOSED_BIT) (wants (excfdset fs))"
  shows "if CR \<union> CW \<union> CE \<noteq> {} then reports CR CW CE (ipaugenblick_select selector timeout waits fs s)
    else TR \<union> TW \<union> TE \<noteq> {} \<longrightarrow> reports TR TW TE (ipaugenblick_select selector timeout waits fs s)"
proof -
  have p: "p < 64" using selector_idx_int [OF assms(4)] by simp
  let ?s = "stat_add stats_select_called 1 s"
  obtain fs2 where eq: "ipaugenblick_select selector timeout waits fs s = select_loop p timeout waits False fs2 ?s"
    and fs2: "all_sets fdset_exact fs2" "same_interest fs fs2"
      "ans (readfdset fs2) = CR" "ans (writefdset fs2) = CW" "ans (excfdset fs2) = CE"
    using select_start [OF assms(2-4)] unfolding C by blast
  have sel: "told vs ?s P W = told vs s P W" for vs P W by (simp add: told_def)
  have "reports TR TW TE (ipaugenblick_select selector timeout waits fs s)"
    if "CR \<union> CW \<union> CE = {}" "TR \<union> TW \<union> TE \<noteq> {}"
    unfolding eq
    by (rule select_loop_ring [of ?s fs2 p ws])
      (use that assms(1,5,6) p fs2 in \<open>simp_all add: all_select_ok_def select_ok_def sel same_interest_wants [OF fs2(2)] T\<close>)
  then show ?thesis
    using select_loop_reports [OF fs2(1), of p timeout waits False ?s] unfolding eq by (simp add: fs2)
qed

text \<open>The small application with a readable event of connection 3 waiting, asked for by \<open>read_3\<close>.\<close>

definition read_3 :: fdsets where
  "read_3 = \<lparr>readfdset = Some \<lparr>interested_flags = (\<lambda>i. i = 3), returned_flags = (\<lambda>_. False), returned_sockets = (\<lambda>_. 0), returned_idx = 0\<rparr>,
     writefdset = None, excfdset = None\<rparr>"

definition event_app :: app where
  "event_app = small_app\<lparr>sm := (sm small_app)\<lparr>ready_connections :=
     (ready_connections small_shm)(2 := enq_step (rte_ring_init 0 8 3) [ready_mask 3 SOCKET_READABLE_BIT] 1)\<rparr>\<rparr>"

lemma event_app_simps [simp]:
  "all_select_ok event_app" "cache_ok event_app" "all_sets fdset_ok read_3"
  "ring_list (ready_connections (sm event_app) 2) = [ready_mask 3 1]"
  "local_socket_descriptors event_app = local_socket_descriptors small_app" "selectors event_app = selectors small_app"
proof -
  note r = ring_push [of "rte_ring_init 0 8 3" "ready_mask 3 1"]
  have "shm_ok (sm event_app)"
    using ready_ring_upd_ok [OF app_okD(1) [OF small_app_ok], of "enq_step (rte_ring_init 0 8 3) [ready_mask 3 1] 1" 2] r
    by (simp add: event_app_def fun_upd_def)
  moreover show "ring_list (ready_connections (sm event_app) 2) = [ready_mask 3 1]"
    using r by (simp add: event_app_def)
  moreover show "local_socket_descriptors event_app = local_socket_descriptors small_app"
    "selectors event_app = selectors small_app"
    by (simp_all add: event_app_def)
  ultimately show "all_select_ok event_app" "cache_ok event_app"
    by (simp_all add: all_select_ok_def select_ok_def selector_idx_def app_ok_def cache_ok_def watched_def)
  show "all_sets fdset_ok read_3"
    by (simp add: read_3_def all_sets_def fdset_ok_def answers_def)
qed

theorem select_reports_witness:
  "reports {3} {} {} (ipaugenblick_select 2 None [] read_3 event_app)"
proof -
  have d: "ready_sock (ready_mask 3 1) = 3" "ready_events (ready_mask 3 1) = 1"
    using ready_mask_decode [of 3 1] by simp_all
  have n: "cached event_app 2 b f = {}" for b f by (simp add: cached_def)
  have t: "told [ready_mask 3 1] event_app (\<lambda>ev. has_bit ev 1) (wants (readfdset read_3)) = {3}"
    using d by (auto simp: told_def read_3_def wants_def has_bit_def)
  have w: "wants (writefdset read_3) = (\<lambda>_. False)" "wants (excfdset read_3) = (\<lambda>_. False)"
    by (simp_all add: read_3_def wants_def fun_eq_iff)
  show ?thesis
    using select_reports [of event_app read_3 2 2 "[ready_mask 3 1]", OF _ _ _ _ _ _ refl refl refl refl refl refl, of None "[]"] d
    by (simp add: selector_idx_def n t w) (simp add: told_def)
qed



end
