(* ===== verification/Api_Init.thy ===== *)
theory Api_Init
  imports Api_Select
begin

unbundle bit_operations_syntax

text \<open>
  The start of an application: \<open>ipaugenblick_app_init\<close> looks the shared rings and pools up by
  name, creates the local receive caches and empties its tables. What is under a name is a
  parameter: \<open>found\<close> for the memory of the service, \<open>old i\<close> for a receive cache that an earlier
  process with the same identifier left behind, \<open>avail i\<close> for whether cache \<open>i\<close> can be created.
  \<open>exit(0)\<close> is \<open>None\<close>. Signals and thread affinity are not modelled.
\<close>

section \<open>Start of an application\<close>

datatype lookup_name = Shared mem_name | MBUFS_MEMPOOL

text \<open>A descriptor after \<open>memset\<close>; its rings are null pointers, the value of \<open>local_cache\<close> is not used.\<close>

definition zero_ld :: local_socket_descriptor_t where
  "zero_ld =
     \<lparr>ld_socket = None, ld_select = 0, local_cache = rte_ring_init (MbufPtr 0) 0 0, any_event_received = False,
      shadow = None, shadow_next = None, shadow_len_remainder = 0, shadow_len_delievered = 0,
      ld_local_ipaddr = 0, ld_local_port = 0, ld_remote_ipaddr = 0, ld_remote_port = 0,
      present_in_ready_cache = False, local_mask = 0\<rparr>"

definition init_local ::
  "int \<Rightarrow> (lookup_name \<Rightarrow> bool) \<Rightarrow> (nat \<Rightarrow> bool) \<Rightarrow> (nat \<Rightarrow> void_ptr rte_ring option) \<Rightarrow> nat \<Rightarrow> app \<Rightarrow> app option" where
  "init_local hdr found avail old i s =
     (if \<not> found (Shared (RX_RING_NAME i)) then None
      else if \<not> found (Shared (TX_RING_NAME i)) then None
      else do { c \<leftarrow> (case rte_ring_create hdr (avail i) (MbufPtr 0) 64 (RING_F_SC_DEQ OR RING_F_SP_ENQ) of
                       None \<Rightarrow> old i | Some c \<Rightarrow> Some c);
                Some (upd_ld i (\<lambda>d. d\<lparr>ld_select := -1, ld_socket := None, local_cache := c, any_event_received := False\<rparr>) s) })"

definition init_app_selector :: "(lookup_name \<Rightarrow> bool) \<Rightarrow> nat \<Rightarrow> app \<Rightarrow> app option" where
  "init_app_selector found p s =
     (if \<not> found (Shared (SELECTOR_READY_RING p)) then None
      else Some (upd_selector p (\<lambda>k. k\<lparr>local_ready_cache := [], queue_length := 0\<rparr>) s))"

definition ipaugenblick_app_init ::
  "bool \<Rightarrow> int \<Rightarrow> (lookup_name \<Rightarrow> bool) \<Rightarrow> (nat \<Rightarrow> bool) \<Rightarrow> (nat \<Rightarrow> void_ptr rte_ring option) \<Rightarrow> app \<Rightarrow> (int \<times> app) option" where
  "ipaugenblick_app_init eal hdr found avail old s =
     (if \<not> eal then Some (-1, s)
      else if \<not> found (Shared FREE_CLIENTS_RING) then None
      else if \<not> found (Shared FREE_CONNECTIONS_RING) then Some (-1, s)
      else if \<not> found (Shared FREE_CONNECTIONS_POOL_NAME) then Some (-1, s)
      else do { s1 \<leftarrow> fold_opt (init_local hdr found avail old) [0..<IPAUGENBLICK_CONNECTION_POOL_SIZE]
                  (s\<lparr>local_socket_descriptors := (\<lambda>_. zero_ld)\<rparr>);
                if \<not> found MBUFS_MEMPOOL then Some (-1, s1)
                else if \<not> found (Shared FREE_COMMAND_POOL_NAME) then Some (-1, s1)
                else if \<not> found (Shared COMMAND_RING_NAME) then Some (-1, s1)
                else if \<not> found (Shared RX_MBUFS_RING) then Some (-1, s1)
                else do { s2 \<leftarrow> fold_opt (init_app_selector found) [0..<IPAUGENBLICK_SELECTOR_POOL_SIZE] s1;
                          Some (0, s2) } })"

section \<open>The two loops\<close>

definition local_fresh :: "nat \<Rightarrow> app \<Rightarrow> bool" where
  "local_fresh i s \<longleftrightarrow> (let d = local_socket_descriptors s i in
     ring_ok (local_cache d) \<and> ring_list (local_cache d) = [] \<and> ring_cap (local_cache d) = 63 \<and>
     ld_select d = -1 \<and> ld_socket d = None \<and> \<not> present_in_ready_cache d \<and> local_mask d = 0 \<and> shadow d = None)"

lemma init_locals_ok:
  assumes "0 \<le> hdr" "\<forall>n. found n" "\<forall>i. avail i"
  shows "\<exists>s'. fold_opt (init_local hdr found avail old) [0..<n] (s\<lparr>local_socket_descriptors := (\<lambda>_. zero_ld)\<rparr>) = Some s' \<and>
    (\<forall>i<n. local_fresh i s') \<and> (\<forall>i\<ge>n. local_socket_descriptors s' i = zero_ld) \<and>
    sm s' = sm s \<and> selectors s' = selectors s \<and> app_stats s' = app_stats s"
proof -
  define c where "c = rte_ring_init (MbufPtr 0) 64 3"
  have c: "ring_ok c" "ring_list c = []" "ring_cap c = 63"
    using rte_ring_init_ok [of 64 "MbufPtr 0" 3] by (simp_all add: c_def POWEROF2_def)
  have "rte_ring_create hdr True (MbufPtr 0) 64 (RING_F_SC_DEQ OR RING_F_SP_ENQ) = Some c"
    using rte_ring_create_ok [OF assms(1), of 64 "MbufPtr 0" 3] by (simp add: c_def POWEROF2_def)
  then show ?thesis
    using assms(2,3) c
    by (intro fold_opt_upt [where P = "\<lambda>n s'. (\<forall>i<n. local_fresh i s') \<and> (\<forall>i\<ge>n. local_socket_descriptors s' i = zero_ld) \<and>
          sm s' = sm s \<and> selectors s' = selectors s \<and> app_stats s' = app_stats s"])
      (auto simp: init_local_def local_fresh_def zero_ld_def less_Suc_eq Let_def)
qed

lemma init_selectors_empty:
  assumes "\<forall>n. found n"
  shows "\<exists>s'. fold_opt (init_app_selector found) [0..<n] s = Some s' \<and>
    (\<forall>p<n. local_ready_cache (selectors s' p) = [] \<and> queue_length (selectors s' p) = 0) \<and>
    sm s' = sm s \<and> local_socket_descriptors s' = local_socket_descriptors s"
  using assms
  by (intro fold_opt_upt [where P = "\<lambda>n s'. (\<forall>p<n. local_ready_cache (selectors s' p) = [] \<and> queue_length (selectors s' p) = 0) \<and>
        sm s' = sm s \<and> local_socket_descriptors s' = local_socket_descriptors s"])
    (auto simp: init_app_selector_def less_Suc_eq)

section \<open>Properties\<close>

text \<open>
  C25. An application that finds the memory of the service and can create its receive caches
  starts with every invariant of the library: the shared memory is untouched and well formed,
  all 2048 descriptors are unused, unwatched and have an empty cache of 63 entries, and the ready
  caches of the 64 selectors are empty and consistent.
\<close>

theorem app_init_establishes_invariants:
  assumes "0 \<le> hdr" "\<forall>n. found n" "\<forall>i. avail i" "shm_ok (sm s)"
  shows "\<exists>s'. ipaugenblick_app_init True hdr found avail old s = Some (0, s') \<and> sm s' = sm s \<and>
    all_select_ok s' \<and> cache_ok s' \<and> (\<forall>i<2048. local_fresh i s' \<and> pending_rx i s' = ring_list (rx_rings (sm s) i))"
proof -
  obtain s1 where s1: "fold_opt (init_local hdr found avail old) [0..<2048] (s\<lparr>local_socket_descriptors := (\<lambda>_. zero_ld)\<rparr>) = Some s1"
      "\<forall>i<2048. local_fresh i s1" "sm s1 = sm s"
    using init_locals_ok [OF assms(1-3)] by blast
  obtain s2 where s2: "fold_opt (init_app_selector found) [0..<64] s1 = Some s2"
      "\<forall>p<64. local_ready_cache (selectors s2 p) = [] \<and> queue_length (selectors s2 p) = 0"
      "sm s2 = sm s1" "local_socket_descriptors s2 = local_socket_descriptors s1"
    using init_selectors_empty [OF assms(2)] by blast
  have f: "\<forall>i<2048. local_fresh i s2" using s1(2) s2(4) by (simp add: local_fresh_def)
  then have "all_select_ok s2" "cache_ok s2"
    using s2 s1(3) assms(4)
    by (auto simp: all_select_ok_def app_ok_def select_ok_def local_fresh_def Let_def cache_ok_def watched_def)
  then show ?thesis
    using s1 s2 f assms(2) by (simp add: ipaugenblick_app_init_def pending_rx_def local_fresh_def Let_def)
qed

theorem app_init_establishes_invariants_witness:
  "\<exists>s'. ipaugenblick_app_init True 256 (\<lambda>_. True) (\<lambda>_. True) (\<lambda>_. None) small_app = Some (0, s') \<and> cache_ok s' \<and> all_select_ok s'"
  using app_init_establishes_invariants [of 256 "\<lambda>_. True" "\<lambda>_. True" small_app] app_okD(1) [OF small_app_ok] by auto

end
