(* ===== verification/Rte_Timer.thy ===== *)
theory Rte_Timer
  imports Prelude "HOL-Library.Sublist"
begin

unbundle bit_operations_syntax

text \<open>
  The timers of DPDK (\<open>lib/librte_timer/rte_timer.c\<close>) that drive the clock and the timers of the
  stack: per core a skip list of pending timers ordered by expiry. A timer is a number, a pointer
  into the list is a timer or the head of a core. The model is of one thread at a time: the
  compare-and-set of a timer's status succeeds and the list locks are not shown. Arguments stand for
  the core that calls (\<open>me\<close>), the next core in turn (\<open>next_lcore\<close>), random numbers
  (\<open>rnd\<close>), the cycle counter (\<open>cur_time\<close>) and what the callbacks do (\<open>cb\<close>). A loop over
  a list that does not end, and a null pointer, are \<open>None\<close>.
\<close>

section \<open>State\<close>

datatype timer_state = RTE_TIMER_STOP | RTE_TIMER_PENDING | RTE_TIMER_RUNNING | RTE_TIMER_CONFIG

abbreviation (input) RTE_TIMER_NO_OWNER :: int where "RTE_TIMER_NO_OWNER \<equiv> -2"
abbreviation (input) MAX_SKIPLIST_DEPTH :: nat where "MAX_SKIPLIST_DEPTH \<equiv> 10"
abbreviation (input) RTE_MAX_LCORE :: nat where "RTE_MAX_LCORE \<equiv> 128"

record rte_timer =
  expire :: u64
  sl_next :: "nat \<Rightarrow> nat option"
  tim_state :: timer_state
  tim_owner :: int
  tim_period :: u64
  tim_f :: nat
  tim_arg :: nat

record priv_timer =
  pending_head :: rte_timer
  updated :: bool
  curr_skiplist_depth :: nat
  prev_lcore :: nat
  running_tim :: "nat option"

record 'w timers =
  tims :: "nat \<Rightarrow> rte_timer"
  priv_timer :: "nat \<Rightarrow> priv_timer"
  world :: 'w

datatype tptr = Head nat | Tim nat

definition node :: "'w timers \<Rightarrow> tptr \<Rightarrow> rte_timer" where
  "node s p = (case p of Head c \<Rightarrow> pending_head (priv_timer s c) | Tim t \<Rightarrow> tims s t)"

abbreviation nextp :: "'w timers \<Rightarrow> nat \<Rightarrow> tptr \<Rightarrow> nat option" where
  "nextp s lvl p \<equiv> sl_next (node s p) lvl"

abbreviation upd_tim :: "nat \<Rightarrow> (rte_timer \<Rightarrow> rte_timer) \<Rightarrow> 'w timers \<Rightarrow> 'w timers" where
  "upd_tim t g s \<equiv> s\<lparr>tims := (tims s)(t := g (tims s t))\<rparr>"

abbreviation upd_priv :: "nat \<Rightarrow> (priv_timer \<Rightarrow> priv_timer) \<Rightarrow> 'w timers \<Rightarrow> 'w timers" where
  "upd_priv c g s \<equiv> s\<lparr>priv_timer := (priv_timer s)(c := g (priv_timer s c))\<rparr>"

definition upd_node :: "tptr \<Rightarrow> (rte_timer \<Rightarrow> rte_timer) \<Rightarrow> 'w timers \<Rightarrow> 'w timers" where
  "upd_node p g s =
     (case p of Head c \<Rightarrow> upd_priv c (\<lambda>k. k\<lparr>pending_head := g (pending_head k)\<rparr>) s | Tim t \<Rightarrow> upd_tim t g s)"

definition set_nextp :: "nat \<Rightarrow> tptr \<Rightarrow> nat option \<Rightarrow> 'w timers \<Rightarrow> 'w timers" where
  "set_nextp lvl p q = upd_node p (\<lambda>k. k\<lparr>sl_next := (sl_next k)(lvl := q)\<rparr>)"

text \<open>Static memory before the first call is zero.\<close>

definition timers_boot :: "'w \<Rightarrow> 'w timers" where
  "timers_boot w =
     (let z = \<lparr>expire = 0, sl_next = (\<lambda>_. None), tim_state = RTE_TIMER_STOP, tim_owner = 0, tim_period = 0, tim_f = 0, tim_arg = 0\<rparr> in
      \<lparr>tims = (\<lambda>_. z), priv_timer = (\<lambda>_. \<lparr>pending_head = z, updated = False, curr_skiplist_depth = 0, prev_lcore = 0,
         running_tim = None\<rparr>), world = w\<rparr>)"

definition rte_timer_subsystem_init :: "'w timers \<Rightarrow> 'w timers" where
  "rte_timer_subsystem_init s = fold (\<lambda>c. upd_priv c (\<lambda>k. k\<lparr>prev_lcore := c\<rparr>)) [0..<RTE_MAX_LCORE] s"

definition rte_timer_init :: "nat \<Rightarrow> 'w timers \<Rightarrow> 'w timers" where
  "rte_timer_init t = upd_tim t (\<lambda>k. k\<lparr>tim_state := RTE_TIMER_STOP, tim_owner := RTE_TIMER_NO_OWNER\<rparr>)"

section \<open>Status\<close>

text \<open>The previous status, or \<open>None\<close> where the C function returns -1.\<close>

definition timer_set_config_state :: "nat \<Rightarrow> nat \<Rightarrow> 'w timers \<Rightarrow> (timer_state \<times> int) option \<times> 'w timers" where
  "timer_set_config_state me t s =
     (let k = tims s t in
      if tim_state k = RTE_TIMER_RUNNING \<and> (tim_owner k \<noteq> int me \<or> running_tim (priv_timer s me) \<noteq> Some t) then (None, s)
      else if tim_state k = RTE_TIMER_CONFIG then (None, s)
      else (Some (tim_state k, tim_owner k), upd_tim t (\<lambda>k. k\<lparr>tim_state := RTE_TIMER_CONFIG, tim_owner := int me\<rparr>) s))"

definition timer_set_running_state :: "nat \<Rightarrow> nat \<Rightarrow> 'w timers \<Rightarrow> bool \<times> 'w timers" where
  "timer_set_running_state me t s =
     (if tim_state (tims s t) \<noteq> RTE_TIMER_PENDING then (False, s)
      else (True, upd_tim t (\<lambda>k. k\<lparr>tim_state := RTE_TIMER_RUNNING, tim_owner := int me\<rparr>) s))"

section \<open>The skip list\<close>

definition rte_bsf32 :: "u32 \<Rightarrow> nat" where
  "rte_bsf32 v = length (takeWhile (\<lambda>i. \<not> bit v i) [0..<32])"

definition timer_get_skiplist_level :: "u64 \<Rightarrow> nat \<Rightarrow> nat" where
  "timer_get_skiplist_level rnd curr_depth =
     (let rand = (ucast rnd :: u32) AND 0xFFFFFFFE;
          level = (if rand = 0 then MAX_SKIPLIST_DEPTH else (rte_bsf32 rand - 1) div 2);
          level = (if level > curr_depth then curr_depth else level) in
      if level \<ge> MAX_SKIPLIST_DEPTH then MAX_SKIPLIST_DEPTH - 1 else level)"

partial_function (option) advance :: "'w timers \<Rightarrow> nat \<Rightarrow> u64 \<Rightarrow> tptr \<Rightarrow> tptr option" where
  "advance s lvl time_val p =
     (case nextp s lvl p of None \<Rightarrow> Some p
      | Some q \<Rightarrow> if expire (tims s q) \<le> time_val then advance s lvl time_val (Tim q) else Some p)"

fun prev_down :: "'w timers \<Rightarrow> u64 \<Rightarrow> nat \<Rightarrow> (nat \<Rightarrow> tptr) \<Rightarrow> (nat \<Rightarrow> tptr) option" where
  "prev_down s time_val 0 prev = Some prev"
| "prev_down s time_val (Suc lvl) prev =
     do { p \<leftarrow> advance s lvl time_val (prev (Suc lvl)); prev_down s time_val lvl (prev(lvl := p)) }"

text \<open>The entries above the current depth are not used.\<close>

definition timer_get_prev_entries :: "u64 \<Rightarrow> nat \<Rightarrow> 'w timers \<Rightarrow> (nat \<Rightarrow> tptr) option" where
  "timer_get_prev_entries time_val c s = prev_down s time_val (curr_skiplist_depth (priv_timer s c)) (\<lambda>_. Head c)"

partial_function (option) advance_to :: "'w timers \<Rightarrow> nat \<Rightarrow> nat \<Rightarrow> tptr \<Rightarrow> tptr option" where
  "advance_to s t lvl p =
     (case nextp s lvl p of None \<Rightarrow> Some p
      | Some q \<Rightarrow> if q \<noteq> t \<and> expire (tims s q) \<le> expire (tims s t) then advance_to s t lvl (Tim q) else Some p)"

fun prev_for_node :: "'w timers \<Rightarrow> nat \<Rightarrow> nat \<Rightarrow> (nat \<Rightarrow> tptr) \<Rightarrow> (nat \<Rightarrow> tptr) option" where
  "prev_for_node s t 0 prev = Some prev"
| "prev_for_node s t (Suc i) prev =
     do { p \<leftarrow> advance_to s t i (prev i); prev_for_node s t i (prev(i := p)) }"

definition timer_get_prev_entries_for_node :: "nat \<Rightarrow> nat \<Rightarrow> 'w timers \<Rightarrow> (nat \<Rightarrow> tptr) option" where
  "timer_get_prev_entries_for_node t c s =
     do { prev \<leftarrow> timer_get_prev_entries (expire (tims s t) - 1) c s;
          prev_for_node s t (curr_skiplist_depth (priv_timer s c)) prev }"

fun link_levels :: "nat \<Rightarrow> nat \<Rightarrow> (nat \<Rightarrow> tptr) \<Rightarrow> 'w timers \<Rightarrow> 'w timers" where
  "link_levels t 0 prev s = set_nextp 0 (prev 0) (Some t) (set_nextp 0 (Tim t) (nextp s 0 (prev 0)) s)"
| "link_levels t (Suc lvl) prev s =
     link_levels t lvl prev
       (set_nextp (Suc lvl) (prev (Suc lvl)) (Some t) (set_nextp (Suc lvl) (Tim t) (nextp s (Suc lvl) (prev (Suc lvl))) s))"

definition timer_add :: "nat \<Rightarrow> nat \<Rightarrow> u64 \<Rightarrow> 'w timers \<Rightarrow> 'w timers option" where
  "timer_add t c rnd s =
     do { prev \<leftarrow> timer_get_prev_entries (expire (tims s t)) c s;
          let depth = curr_skiplist_depth (priv_timer s c);
          let tim_level = timer_get_skiplist_level rnd depth;
          let s1 = (if tim_level = depth then upd_priv c (\<lambda>k. k\<lparr>curr_skiplist_depth := depth + 1\<rparr>) s else s);
          let s2 = link_levels t tim_level prev s1;
          h \<leftarrow> nextp s2 0 (Head c);
          Some (upd_node (Head c) (\<lambda>k. k\<lparr>expire := expire (tims s2 h)\<rparr>) s2) }"

fun unlink_levels :: "nat \<Rightarrow> nat \<Rightarrow> (nat \<Rightarrow> tptr) \<Rightarrow> 'w timers \<Rightarrow> 'w timers" where
  "unlink_levels t 0 prev s = s"
| "unlink_levels t (Suc i) prev s =
     unlink_levels t i prev
       (if nextp s i (prev i) = Some t then set_nextp i (prev i) (nextp s i (Tim t)) s else s)"

fun lower_depth :: "nat \<Rightarrow> nat \<Rightarrow> 'w timers \<Rightarrow> 'w timers" where
  "lower_depth c 0 s = s"
| "lower_depth c (Suc i) s =
     (if nextp s i (Head c) = None
      then lower_depth c i (upd_priv c (\<lambda>k. k\<lparr>curr_skiplist_depth := curr_skiplist_depth k - 1\<rparr>) s)
      else s)"

definition timer_del :: "nat \<Rightarrow> nat \<Rightarrow> 'w timers \<Rightarrow> 'w timers option" where
  "timer_del t c s =
     (let s1 = (if nextp s 0 (Head c) = Some t
                then upd_node (Head c) (\<lambda>k. k\<lparr>expire :=
                       (case nextp s 0 (Tim t) of None \<Rightarrow> 0 | Some q \<Rightarrow> expire (tims s q))\<rparr>) s
                else s) in
      do { prev \<leftarrow> timer_get_prev_entries_for_node t c s1;
           let depth = curr_skiplist_depth (priv_timer s1 c);
           let s2 = unlink_levels t depth prev s1;
           Some (lower_depth c depth s2) })"

section \<open>Starting and stopping a timer\<close>

text \<open>A core of \<open>None\<close> stands for \<open>LCORE_ID_ANY\<close>. The result is 0 or -1.\<close>

definition timer_reset ::
  "nat \<Rightarrow> (nat option \<Rightarrow> nat) \<Rightarrow> u64 \<Rightarrow> nat \<Rightarrow> u64 \<Rightarrow> u64 \<Rightarrow> nat option \<Rightarrow> nat \<Rightarrow> nat \<Rightarrow> 'w timers \<Rightarrow> (int \<times> 'w timers) option" where
  "timer_reset me next_lcore rnd t exp per tim_lcore fct ar s =
     (let (c, s1) =
        (case tim_lcore of Some c \<Rightarrow> (c, s)
         | None \<Rightarrow> if me < RTE_MAX_LCORE
                   then let c = next_lcore (Some (prev_lcore (priv_timer s me))) in
                        (c, upd_priv me (\<lambda>k. k\<lparr>prev_lcore := c\<rparr>) s)
                   else (next_lcore None, s)) in
      case timer_set_config_state me t s1 of
        (None, s2) \<Rightarrow> Some (-1, s2)
      | (Some (st, ow), s2) \<Rightarrow>
          do { let s3 = (if st = RTE_TIMER_RUNNING \<and> me < RTE_MAX_LCORE
                         then upd_priv me (\<lambda>k. k\<lparr>updated := True\<rparr>) s2 else s2);
               s4 \<leftarrow> (if st = RTE_TIMER_PENDING then timer_del t (nat ow) s3 else Some s3);
               s5 \<leftarrow> timer_add t c rnd (upd_tim t (\<lambda>k. k\<lparr>tim_period := per, expire := exp, tim_f := fct, tim_arg := ar\<rparr>) s4);
               Some (0, upd_tim t (\<lambda>k. k\<lparr>tim_state := RTE_TIMER_PENDING, tim_owner := int c\<rparr>) s5) })"

datatype rte_timer_type = SINGLE | PERIODICAL

definition rte_timer_reset ::
  "nat \<Rightarrow> (nat option \<Rightarrow> nat) \<Rightarrow> (nat \<Rightarrow> bool) \<Rightarrow> u64 \<Rightarrow> u64 \<Rightarrow> nat \<Rightarrow> u64 \<Rightarrow> rte_timer_type \<Rightarrow> nat option \<Rightarrow> nat \<Rightarrow> nat \<Rightarrow>
     'w timers \<Rightarrow> (int \<times> 'w timers) option" where
  "rte_timer_reset me next_lcore enabled rnd cur_time t ticks type tim_lcore fct ar s =
     (if (case tim_lcore of None \<Rightarrow> False | Some c \<Rightarrow> \<not> enabled c) then Some (-1, s)
      else timer_reset me next_lcore rnd t (cur_time + ticks) (if type = PERIODICAL then ticks else 0) tim_lcore fct ar s)"

text \<open>The waiting variants call again until the result is 0.\<close>

partial_function (option) rte_timer_reset_sync ::
  "nat \<Rightarrow> (nat option \<Rightarrow> nat) \<Rightarrow> (nat \<Rightarrow> bool) \<Rightarrow> u64 \<Rightarrow> u64 \<Rightarrow> nat \<Rightarrow> u64 \<Rightarrow> rte_timer_type \<Rightarrow> nat option \<Rightarrow> nat \<Rightarrow> nat \<Rightarrow>
     'w timers \<Rightarrow> 'w timers option" where
  "rte_timer_reset_sync me next_lcore enabled rnd cur_time t ticks type tim_lcore fct ar s =
     do { (r, s1) \<leftarrow> rte_timer_reset me next_lcore enabled rnd cur_time t ticks type tim_lcore fct ar s;
          if r \<noteq> 0 then rte_timer_reset_sync me next_lcore enabled rnd cur_time t ticks type tim_lcore fct ar s1 else Some s1 }"

definition rte_timer_stop :: "nat \<Rightarrow> nat \<Rightarrow> 'w timers \<Rightarrow> (int \<times> 'w timers) option" where
  "rte_timer_stop me t s =
     (case timer_set_config_state me t s of
        (None, s1) \<Rightarrow> Some (-1, s1)
      | (Some (st, ow), s1) \<Rightarrow>
          do { let s2 = (if st = RTE_TIMER_RUNNING \<and> me < RTE_MAX_LCORE
                         then upd_priv me (\<lambda>k. k\<lparr>updated := True\<rparr>) s1 else s1);
               s3 \<leftarrow> (if st = RTE_TIMER_PENDING then timer_del t (nat ow) s2 else Some s2);
               Some (0, upd_tim t (\<lambda>k. k\<lparr>tim_state := RTE_TIMER_STOP, tim_owner := RTE_TIMER_NO_OWNER\<rparr>) s3) })"

partial_function (option) rte_timer_stop_sync :: "nat \<Rightarrow> nat \<Rightarrow> 'w timers \<Rightarrow> 'w timers option" where
  "rte_timer_stop_sync me t s =
     do { (r, s1) \<leftarrow> rte_timer_stop me t s; if r \<noteq> 0 then rte_timer_stop_sync me t s1 else Some s1 }"

definition rte_timer_pending :: "nat \<Rightarrow> 'w timers \<Rightarrow> bool" where
  "rte_timer_pending t s \<longleftrightarrow> tim_state (tims s t) = RTE_TIMER_PENDING"

section \<open>Running the expired timers\<close>

fun split_levels :: "nat \<Rightarrow> nat \<Rightarrow> (nat \<Rightarrow> tptr) \<Rightarrow> 'w timers \<Rightarrow> 'w timers" where
  "split_levels c 0 prev s = s"
| "split_levels c (Suc i) prev s =
     split_levels c i prev
       (if prev i = Head c then s
        else let q = nextp s i (prev i);
                 s1 = set_nextp i (Head c) q s;
                 s2 = (if q = None then upd_priv c (\<lambda>k. k\<lparr>curr_skiplist_depth := curr_skiplist_depth k - 1\<rparr>) s1 else s1) in
             set_nextp i (prev i) None s2)"

text \<open>\<open>pprev\<close> is the cell that points to the current timer: the variable or a timer's link.\<close>

partial_function (option) mark_running ::
  "nat \<Rightarrow> nat option \<Rightarrow> nat option \<Rightarrow> nat option \<Rightarrow> 'w timers \<Rightarrow> (nat option \<times> 'w timers) option" where
  "mark_running me tim run_first pprev s =
     (case tim of None \<Rightarrow> Some (run_first, s)
      | Some t \<Rightarrow>
        let next_tim = sl_next (tims s t) 0 in
        case timer_set_running_state me t s of
          (ok, s1) \<Rightarrow>
            if ok then mark_running me next_tim run_first (Some t) s1
            else (case pprev of None \<Rightarrow> mark_running me next_tim next_tim pprev s1
                  | Some p \<Rightarrow> mark_running me next_tim run_first pprev (set_nextp 0 (Tim p) next_tim s1)))"

partial_function (option) run_timers ::
  "nat \<Rightarrow> (nat option \<Rightarrow> nat) \<Rightarrow> (nat \<Rightarrow> u64) \<Rightarrow> (nat \<Rightarrow> nat \<Rightarrow> nat \<Rightarrow> 'w timers \<Rightarrow> 'w timers option) \<Rightarrow> u64 \<Rightarrow> nat option \<Rightarrow>
     'w timers \<Rightarrow> 'w timers option" where
  "run_timers me next_lcore rnd cb cur_time tim s =
     (case tim of None \<Rightarrow> Some (upd_priv me (\<lambda>k. k\<lparr>running_tim := None\<rparr>) s)
      | Some t \<Rightarrow>
        let next_tim = sl_next (tims s t) 0;
            s1 = upd_priv me (\<lambda>k. k\<lparr>updated := False, running_tim := Some t\<rparr>) s in
        do { s2 \<leftarrow> cb (tim_f (tims s1 t)) t (tim_arg (tims s1 t)) s1;
             if updated (priv_timer s2 me) then run_timers me next_lcore rnd cb cur_time next_tim s2
             else if tim_period (tims s2 t) = 0
             then run_timers me next_lcore rnd cb cur_time next_tim
                    (upd_tim t (\<lambda>k. k\<lparr>tim_state := RTE_TIMER_STOP, tim_owner := RTE_TIMER_NO_OWNER\<rparr>) s2)
             else do { let s3 = upd_tim t (\<lambda>k. k\<lparr>tim_state := RTE_TIMER_PENDING, tim_owner := int me\<rparr>) s2;
                       (_, s4) \<leftarrow> timer_reset me next_lcore (rnd t) t (cur_time + tim_period (tims s3 t)) (tim_period (tims s3 t))
                                    (Some me) (tim_f (tims s3 t)) (tim_arg (tims s3 t)) s3;
                       run_timers me next_lcore rnd cb cur_time next_tim s4 } })"

text \<open>On a 64-bit machine the expiry kept in the head is consulted first.\<close>

definition rte_timer_manage ::
  "nat \<Rightarrow> (nat option \<Rightarrow> nat) \<Rightarrow> (nat \<Rightarrow> u64) \<Rightarrow> (nat \<Rightarrow> nat \<Rightarrow> nat \<Rightarrow> 'w timers \<Rightarrow> 'w timers option) \<Rightarrow> u64 \<Rightarrow> 'w timers \<Rightarrow> 'w timers option" where
  "rte_timer_manage me next_lcore rnd cb cur_time s =
     (if RTE_MAX_LCORE \<le> me then None
      else case nextp s 0 (Head me) of None \<Rightarrow> Some s
      | Some h \<Rightarrow>
        if expire (pending_head (priv_timer s me)) > cur_time then Some s
        else if expire (tims s h) > cur_time then Some s
        else do { prev \<leftarrow> timer_get_prev_entries cur_time me s;
                  let s1 = split_levels me (curr_skiplist_depth (priv_timer s me)) prev s;
                  (run_first, s2) \<leftarrow> mark_running me (Some h) (Some h) None s1;
                  let s3 = upd_node (Head me) (\<lambda>k. k\<lparr>expire :=
                             (case nextp s2 0 (Head me) of None \<Rightarrow> 0 | Some q \<Rightarrow> expire (tims s2 q))\<rparr>) s2;
                  run_timers me next_lcore rnd cb cur_time run_first s3 })"

end
