(* ===== verification/Rte_Timer_List.thy ===== *)
theory Rte_Timer_List
  imports Rte_Timer "HOL-Library.Multiset"
begin

text \<open>
  The skip list of pending timers as the list it stands for: starting a timer inserts it after all
  timers that expire no later, stopping removes it, and a round of \<open>rte_timer_manage\<close> runs exactly
  the expired ones, oldest expiry first.
\<close>

section \<open>Chains at one level\<close>

primrec path :: "'w timers \<Rightarrow> nat \<Rightarrow> tptr \<Rightarrow> nat list \<Rightarrow> bool" where
  "path s l p [] \<longleftrightarrow> nextp s l p = None"
| "path s l p (x # xs) \<longleftrightarrow> nextp s l p = Some x \<and> path s l (Tim x) xs"

definition lastp :: "tptr \<Rightarrow> nat list \<Rightarrow> tptr" where
  "lastp p xs = (if xs = [] then p else Tim (last xs))"

abbreviation ek :: "'w timers \<Rightarrow> nat \<Rightarrow> u64" where
  "ek s x \<equiv> expire (tims s x)"

lemma lastp_simps [simp]: "lastp p [] = p" "lastp p (x # xs) = lastp (Tim x) xs" "lastp p (xs @ ys) = lastp (lastp p xs) ys"
  by (auto simp: lastp_def)

lemma lastp_in: "lastp p xs = p \<or> (\<exists>x \<in> set xs. lastp p xs = Tim x)"
  by (auto simp: lastp_def)

lemma path_cong:
  assumes "\<And>q. q = p \<or> q \<in> Tim ` set xs \<Longrightarrow> nextp s' l q = nextp s l q"
  shows "path s' l p xs = path s l p xs"
  using assms by (induction xs arbitrary: p) auto

lemma path_appendD: "path s l p (xs @ ys) \<Longrightarrow> path s l (lastp p xs) ys"
  by (induction xs arbitrary: p) auto

lemma path_next: "path s l p (xs @ ys) \<Longrightarrow> nextp s l (lastp p xs) = (case ys of [] \<Rightarrow> None | y # _ \<Rightarrow> Some y)"
  by (drule path_appendD) (cases ys; simp)

lemma path_insert:
  assumes "path s l p (xs @ ys)" "distinct (xs @ ys)" "p \<notin> Tim ` set (xs @ ys)" "t \<notin> set (xs @ ys)" "p \<noteq> Tim t"
    "\<And>q. nextp s' l q = (if q = lastp p xs then Some t else if q = Tim t then nextp s l (lastp p xs) else nextp s l q)"
  shows "path s' l p (xs @ t # ys)"
  using assms
proof (induction xs arbitrary: p)
  case Nil
  have "path s' l (Tim y) zs = path s l (Tim y) zs" if "ys = y # zs" for y zs
    by (rule path_cong) (use Nil that in auto)
  then show ?case using Nil by (cases ys) auto
next
  case (Cons x xs)
  have "lastp (Tim x) xs \<noteq> p" using Cons.prems(3) lastp_in [of "Tim x" xs] by auto
  moreover have "path s' l (Tim x) (xs @ t # ys)"
    by (rule Cons.IH) (use Cons.prems in \<open>simp_all split: if_split_asm\<close>, auto)
  ultimately show ?case using Cons.prems by simp
qed

lemma path_remove:
  assumes "path s l p (xs @ t # ys)" "distinct (xs @ t # ys)" "p \<notin> Tim ` set (xs @ t # ys)"
    "\<And>q. q \<noteq> Tim t \<Longrightarrow> nextp s' l q = (if q = lastp p xs then nextp s l (Tim t) else nextp s l q)"
  shows "path s' l p (xs @ ys)"
  using assms
proof (induction xs arbitrary: p)
  case Nil
  have "path s' l (Tim y) zs = path s l (Tim y) zs" if "ys = y # zs" for y zs
  proof (rule path_cong)
    fix q assume "q = Tim y \<or> q \<in> Tim ` set zs"
    then have "q \<noteq> Tim t" "q \<noteq> p" using Nil(2,3) that by auto
    then show "nextp s' l q = nextp s l q" using Nil(4) by simp
  qed
  then show ?case using Nil by (cases ys) auto
next
  case (Cons x xs)
  have "lastp (Tim x) xs \<noteq> p" using Cons.prems(3) lastp_in [of "Tim x" xs] by auto
  moreover have "path s' l (Tim x) (xs @ ys)"
    by (rule Cons.IH) (use Cons.prems in \<open>simp_all split: if_split_asm\<close>, auto)
  ultimately show ?case using Cons.prems by simp
qed

lemma advance_path:
  assumes "path s l p xs"
  shows "advance s l t p = Some (lastp p (takeWhile (\<lambda>x. ek s x \<le> t) xs))"
  using assms by (induction xs arbitrary: p) (subst advance.simps; simp)+

lemma advance_to_path:
  assumes "path s l p xs"
  shows "advance_to s t l p = Some (lastp p (takeWhile (\<lambda>x. x \<noteq> t \<and> ek s x \<le> ek s t) xs))"
  using assms by (induction xs arbitrary: p) (subst advance_to.simps; simp)+

text \<open>A search may start at the head or at any node of the list that is early enough.\<close>

lemma advance_from:
  assumes "path s l (Head c) xs" "sorted (map (ek s) xs)" "q = Head c \<or> (\<exists>x \<in> set xs. q = Tim x \<and> ek s x \<le> t)"
  shows "advance s l t q = Some (lastp (Head c) (takeWhile (\<lambda>x. ek s x \<le> t) xs))"
proof (cases "q = Head c")
  case False
  then obtain x where x: "x \<in> set xs" "q = Tim x" "ek s x \<le> t" using assms(3) by auto
  then obtain as bs where xs: "xs = as @ x # bs" by (auto dest: split_list)
  then have "\<forall>y \<in> set as. ek s y \<le> t"
    using assms(2) x(3) by (fastforce simp: sorted_append)
  then have "takeWhile (\<lambda>x. ek s x \<le> t) xs = as @ x # takeWhile (\<lambda>x. ek s x \<le> t) bs"
    using x(3) unfolding xs by simp
  moreover have "path s l (Tim x) bs"
    using assms(1) path_appendD [of s l "Head c" as "x # bs"] unfolding xs by simp
  ultimately show ?thesis using advance_path x(2) by simp
qed (use assms(1) advance_path in simp)

section \<open>The list a core's skip list stands for\<close>

definition sl_links :: "nat \<Rightarrow> (nat \<Rightarrow> nat list) \<Rightarrow> 'w timers \<Rightarrow> bool" where
  "sl_links c L s \<longleftrightarrow>
     (\<forall>l<MAX_SKIPLIST_DEPTH. path s l (Head c) (L l)) \<and> (\<forall>l. subseq (L (Suc l)) (L l)) \<and>
     distinct (L 0) \<and> sorted (map (ek s) (L 0)) \<and>
     curr_skiplist_depth (priv_timer s c) \<le> MAX_SKIPLIST_DEPTH \<and>
     (\<forall>l. L l \<noteq> [] \<longleftrightarrow> l < curr_skiplist_depth (priv_timer s c))"

definition sl_ok :: "nat \<Rightarrow> (nat \<Rightarrow> nat list) \<Rightarrow> 'w timers \<Rightarrow> bool" where
  "sl_ok c L s \<longleftrightarrow> sl_links c L s \<and>
     expire (pending_head (priv_timer s c)) = (case L 0 of [] \<Rightarrow> 0 | x # _ \<Rightarrow> ek s x)"

definition pending :: "nat \<Rightarrow> nat list \<Rightarrow> 'w timers \<Rightarrow> bool" where
  "pending c xs s \<longleftrightarrow> (\<exists>L. sl_ok c L s \<and> L 0 = xs)"

lemma level_subseq:
  assumes "\<forall>l. subseq (L (Suc l)) (L l)"
  shows "subseq (L l) (L 0)"
  using assms by (induction l) (auto intro: subseq_order.trans)

lemma subseq_facts:
  assumes "subseq xs ys"
  shows "set xs \<subseteq> set ys" "distinct ys \<Longrightarrow> distinct xs" "sorted (map g ys) \<Longrightarrow> sorted (map g xs)"
proof -
  obtain N where "xs = nths ys N" using assms by (auto simp: subseq_conv_nths)
  then show "set xs \<subseteq> set ys" "distinct ys \<Longrightarrow> distinct xs" "sorted (map g ys) \<Longrightarrow> sorted (map g xs)"
    by (auto simp: set_nths_subset [THEN subsetD] distinct_nthsI sorted_nths simp flip: nths_map dest: in_set_nthsD)
qed

lemma sl_linksD:
  assumes "sl_links c L s"
  shows "l < 10 \<Longrightarrow> path s l (Head c) (L l)" "distinct (L l)" "sorted (map (ek s) (L l))" "subseq (L (Suc l)) (L l)"
    "set (L l) \<subseteq> set (L 0)" "set (L (Suc l)) \<subseteq> set (L l)"
    "curr_skiplist_depth (priv_timer s c) \<le> 10" "L l \<noteq> [] \<longleftrightarrow> l < curr_skiplist_depth (priv_timer s c)"
proof -
  have sub: "subseq (L l) (L 0)" using assms level_subseq by (auto simp: sl_links_def)
  show "distinct (L l)" "sorted (map (ek s) (L l))" "set (L l) \<subseteq> set (L 0)"
    using assms subseq_facts [OF sub] by (auto simp: sl_links_def)
  show "subseq (L (Suc l)) (L l)" using assms by (simp add: sl_links_def)
  then show "set (L (Suc l)) \<subseteq> set (L l)" by (rule subseq_facts(1))
qed (use assms in \<open>auto simp: sl_links_def\<close>)

lemma sl_okD:
  assumes "sl_ok c L s"
  shows "sl_links c L s" "expire (pending_head (priv_timer s c)) = (case L 0 of [] \<Rightarrow> 0 | x # _ \<Rightarrow> ek s x)"
  using assms by (auto simp: sl_ok_def)

lemma sl_links_cong:
  assumes "\<And>l p. nextp s' l p = nextp s l p" "\<And>x. x \<in> set (L 0) \<Longrightarrow> ek s' x = ek s x"
    "curr_skiplist_depth (priv_timer s' c) = curr_skiplist_depth (priv_timer s c)"
  shows "sl_links c L s' = sl_links c L s"
  using assms path_cong [of _ _ s' _ s] by (simp add: sl_links_def cong: map_cong)

abbreviation upto_time :: "'w timers \<Rightarrow> u64 \<Rightarrow> nat list \<Rightarrow> nat list" where
  "upto_time s t \<equiv> takeWhile (\<lambda>x. ek s x \<le> t)"

lemma prev_down_ok:
  assumes "sl_links c L s" "n \<le> 10" "prev n = lastp (Head c) (upto_time s t (L n))"
  shows "\<exists>prev'. prev_down s t n prev = Some prev' \<and> (\<forall>l\<le>n. prev' l = lastp (Head c) (upto_time s t (L l)))"
  using assms(2,3)
proof (induction n arbitrary: prev)
  case (Suc n)
  let ?p = "lastp (Head c) (upto_time s t (L n))"
  have "prev (Suc n) = Head c \<or> (\<exists>x \<in> set (L n). prev (Suc n) = Tim x \<and> ek s x \<le> t)"
    using Suc.prems(2) lastp_in [of "Head c" "upto_time s t (L (Suc n))"] sl_linksD(6) [OF assms(1), of n]
    by (auto dest: set_takeWhileD)
  then have a: "advance s n t (prev (Suc n)) = Some ?p"
    using advance_from [OF sl_linksD(1) [OF assms(1)] sl_linksD(3) [OF assms(1)]] Suc.prems(1) by simp
  obtain prev' where p': "prev_down s t n (prev(n := ?p)) = Some prev'"
      "\<forall>l\<le>n. prev' l = lastp (Head c) (upto_time s t (L l))"
    using Suc.IH [of "prev(n := ?p)"] Suc.prems(1) by (metis Suc_leD fun_upd_same)
  have keep: "prev_down s t m prev = Some prev' \<Longrightarrow> m < k \<Longrightarrow> prev' k = prev k" for m k prev prev'
    by (induction m arbitrary: prev) (auto simp: bind_eq_Some_conv)
  show ?case
    using a p' keep [OF p'(1), of "Suc n"] Suc.prems(2) by (auto simp: le_Suc_eq)
qed auto

lemma prev_entries_ok:
  assumes "sl_links c L s"
  shows "\<exists>prev. timer_get_prev_entries t c s = Some prev \<and>
    (\<forall>l \<le> curr_skiplist_depth (priv_timer s c). prev l = lastp (Head c) (upto_time s t (L l)))"
proof -
  have "L (curr_skiplist_depth (priv_timer s c)) = []" using sl_linksD(8) [OF assms] by blast
  then show ?thesis
    unfolding timer_get_prev_entries_def by (intro prev_down_ok [OF assms sl_linksD(7) [OF assms]]) simp
qed

section \<open>Changes of links\<close>

lemma nextp_set_nextp [simp]:
  "nextp (set_nextp l p q s) l' p' = (if l' = l \<and> p' = p then q else nextp s l' p')"
  by (cases p; cases p') (auto simp: set_nextp_def upd_node_def node_def)

lemma set_nextp_frame [simp]:
  "ek (set_nextp l p q s) x = ek s x" "tim_state (tims (set_nextp l p q s) x) = tim_state (tims s x)"
  "tim_owner (tims (set_nextp l p q s) x) = tim_owner (tims s x)" "tim_period (tims (set_nextp l p q s) x) = tim_period (tims s x)"
  "tim_f (tims (set_nextp l p q s) x) = tim_f (tims s x)" "tim_arg (tims (set_nextp l p q s) x) = tim_arg (tims s x)"
  "curr_skiplist_depth (priv_timer (set_nextp l p q s) c) = curr_skiplist_depth (priv_timer s c)"
  "expire (pending_head (priv_timer (set_nextp l p q s) c)) = expire (pending_head (priv_timer s c))"
  "running_tim (priv_timer (set_nextp l p q s) c) = running_tim (priv_timer s c)"
  "updated (priv_timer (set_nextp l p q s) c) = updated (priv_timer s c)" "world (set_nextp l p q s) = world s"
  by (cases p; simp add: set_nextp_def upd_node_def)+

lemma nextp_upd_frame [simp]:
  "(\<And>k. sl_next (g k) = sl_next k) \<Longrightarrow> nextp (upd_tim t g s) l p = nextp s l p"
  "(\<And>k. pending_head (h k) = pending_head k) \<Longrightarrow> nextp (upd_priv c h s) l p = nextp s l p"
  "(\<And>k. sl_next (g k) = sl_next k) \<Longrightarrow> nextp (upd_node q g s) l p = nextp s l p"
  "nextp (s\<lparr>world := w\<rparr>) l p = nextp s l p"
  by (cases p; cases q; simp add: node_def upd_node_def)+

text \<open>Everything of the timers but the links and, for one core, depth and first expiry.\<close>

definition same_timers :: "'w timers \<Rightarrow> 'w timers \<Rightarrow> bool" where
  "same_timers s s' \<longleftrightarrow> world s' = world s \<and>
     (\<forall>x. ek s' x = ek s x \<and> tim_state (tims s' x) = tim_state (tims s x) \<and> tim_owner (tims s' x) = tim_owner (tims s x) \<and>
          tim_period (tims s' x) = tim_period (tims s x) \<and> tim_f (tims s' x) = tim_f (tims s x) \<and>
          tim_arg (tims s' x) = tim_arg (tims s x)) \<and>
     (\<forall>c. running_tim (priv_timer s' c) = running_tim (priv_timer s c) \<and> updated (priv_timer s' c) = updated (priv_timer s c))"

lemma same_timersD:
  assumes "same_timers s s'"
  shows "ek s' = ek s" "tim_state (tims s' x) = tim_state (tims s x)" "tim_owner (tims s' x) = tim_owner (tims s x)"
    "tim_period (tims s' x) = tim_period (tims s x)" "tim_f (tims s' x) = tim_f (tims s x)" "tim_arg (tims s' x) = tim_arg (tims s x)"
    "world s' = world s" "running_tim (priv_timer s' c) = running_tim (priv_timer s c)"
    "updated (priv_timer s' c) = updated (priv_timer s c)"
  using assms by (auto simp: same_timers_def fun_eq_iff)

lemma same_timers_refl [simp]: "same_timers s s"
  by (simp add: same_timers_def)

lemma same_timers_trans: "same_timers s s' \<Longrightarrow> same_timers s' s'' \<Longrightarrow> same_timers s s''"
  by (simp add: same_timers_def)

lemma same_timers_set_nextp [simp]: "same_timers s (set_nextp l p q s') = same_timers s s'"
  by (simp add: same_timers_def)

lemma same_timers_depth [simp]:
  "same_timers s (upd_priv c (\<lambda>k. k\<lparr>curr_skiplist_depth := d\<rparr>) s') = same_timers s s'"
  "same_timers s (upd_node (Head c) (\<lambda>k. k\<lparr>expire := e\<rparr>) s') = same_timers s s'"
  by (auto simp: same_timers_def upd_node_def)

lemma link_levels_ok:
  assumes "\<forall>l\<le>n. prev l \<noteq> Tim t"
  shows "nextp (link_levels t n prev s) l p =
      (if l \<le> n then (if p = prev l then Some t else if p = Tim t then nextp s l (prev l) else nextp s l p) else nextp s l p)"
    "same_timers s (link_levels t n prev s)"
    "curr_skiplist_depth (priv_timer (link_levels t n prev s) c) = curr_skiplist_depth (priv_timer s c)"
    "expire (pending_head (priv_timer (link_levels t n prev s) c)) = expire (pending_head (priv_timer s c))"
proof -
  show "nextp (link_levels t n prev s) l p =
      (if l \<le> n then (if p = prev l then Some t else if p = Tim t then nextp s l (prev l) else nextp s l p) else nextp s l p)"
    using assms
  proof (induction n arbitrary: s)
    case (Suc n)
    then have "\<forall>l\<le>n. prev l \<noteq> Tim t" "prev (Suc n) \<noteq> Tim t" by simp_all
    then show ?case
      unfolding link_levels.simps Suc.IH [OF \<open>\<forall>l\<le>n. prev l \<noteq> Tim t\<close>] by (cases "l = Suc n") simp_all
  qed simp
  show "same_timers s (link_levels t n prev s)"
  proof (induction n arbitrary: s)
    case (Suc n)
    show ?case unfolding link_levels.simps by (rule same_timers_trans [OF _ Suc]) simp
  qed simp
  show "curr_skiplist_depth (priv_timer (link_levels t n prev s) c) = curr_skiplist_depth (priv_timer s c)"
    "expire (pending_head (priv_timer (link_levels t n prev s) c)) = expire (pending_head (priv_timer s c))"
    by (induction n arbitrary: s) auto
qed

lemma unlink_levels_ok:
  "nextp (unlink_levels t n prev s) l p =
      (if l < n \<and> p = prev l \<and> nextp s l (prev l) = Some t then nextp s l (Tim t) else nextp s l p)"
    "same_timers s (unlink_levels t n prev s)"
    "curr_skiplist_depth (priv_timer (unlink_levels t n prev s) c) = curr_skiplist_depth (priv_timer s c)"
    "expire (pending_head (priv_timer (unlink_levels t n prev s) c)) = expire (pending_head (priv_timer s c))"
proof -
  show "nextp (unlink_levels t n prev s) l p =
      (if l < n \<and> p = prev l \<and> nextp s l (prev l) = Some t then nextp s l (Tim t) else nextp s l p)"
    by (induction n arbitrary: s) (auto simp: less_Suc_eq)
  show "same_timers s (unlink_levels t n prev s)"
  proof (induction n arbitrary: s)
    case (Suc n)
    show ?case unfolding unlink_levels.simps by (rule same_timers_trans [OF _ Suc]) simp
  qed simp
  show "curr_skiplist_depth (priv_timer (unlink_levels t n prev s) c) = curr_skiplist_depth (priv_timer s c)"
    "expire (pending_head (priv_timer (unlink_levels t n prev s) c)) = expire (pending_head (priv_timer s c))"
    by (induction n arbitrary: s) auto
qed

lemma nonempty_below:
  assumes "\<And>l. M l = [] \<Longrightarrow> M (Suc l) = []" "M n \<noteq> []" "l \<le> n"
  shows "M l \<noteq> []"
  using assms(2,3) by (induction n) (auto simp: le_Suc_eq dest: assms(1))

lemma lower_depth_ok:
  assumes "curr_skiplist_depth (priv_timer s c) = n" "\<And>l. n \<le> l \<Longrightarrow> M l = []" "\<And>l. M l = [] \<Longrightarrow> M (Suc l) = []"
    "\<And>l. l < n \<Longrightarrow> nextp s l (Head c) = None \<longleftrightarrow> M l = []"
  shows "nextp (lower_depth c n s) l p = nextp s l p" "same_timers s (lower_depth c n s)"
    "expire (pending_head (priv_timer (lower_depth c n s) c)) = expire (pending_head (priv_timer s c))"
    "M l \<noteq> [] \<longleftrightarrow> l < curr_skiplist_depth (priv_timer (lower_depth c n s) c)"
    "curr_skiplist_depth (priv_timer (lower_depth c n s) c) \<le> n"
proof -
  show "nextp (lower_depth c n s) l p = nextp s l p" for n
    by (induction n arbitrary: s) auto
  show "same_timers s (lower_depth c n s)" for n
  proof (induction n arbitrary: s)
    case (Suc n)
    show ?case by (simp, rule impI, rule same_timers_trans [OF _ Suc]) (simp add: same_timers_def)
  qed simp
  show "expire (pending_head (priv_timer (lower_depth c n s) c)) = expire (pending_head (priv_timer s c))" for n
    by (induction n arbitrary: s) auto
  have "(\<forall>l. M l \<noteq> [] \<longleftrightarrow> l < curr_skiplist_depth (priv_timer (lower_depth c n s) c)) \<and>
      curr_skiplist_depth (priv_timer (lower_depth c n s) c) \<le> n"
    using assms
  proof (induction n arbitrary: s)
    case (Suc n)
    show ?case
    proof (cases "M n = []")
      case True
      let ?s = "upd_priv c (\<lambda>k. k\<lparr>curr_skiplist_depth := curr_skiplist_depth k - 1\<rparr>) s"
      have "M l = []" if "n \<le> l" for l
        using that True Suc.prems(2) [of l] by (cases "l = n") auto
      then show ?thesis
        using Suc.IH [of ?s] Suc.prems True by auto
    next
      case False
      have "M l \<noteq> []" if "l \<le> n" for l using nonempty_below [of M] assms(3) False that by blast
      moreover have "lower_depth c (Suc n) s = s" using Suc.prems(4) [of n] False by auto
      ultimately show ?thesis
        using Suc.prems(1,2) by (metis Suc_leI le_refl less_Suc_eq_le not_less)
    qed
  qed simp
  then show "M l \<noteq> [] \<longleftrightarrow> l < curr_skiplist_depth (priv_timer (lower_depth c n s) c)"
    "curr_skiplist_depth (priv_timer (lower_depth c n s) c) \<le> n" by auto
qed

section \<open>Insertion\<close>

text \<open>The place of a timer in a list: after all that expire no later.\<close>

definition insert_timer :: "(nat \<Rightarrow> u64) \<Rightarrow> nat \<Rightarrow> nat list \<Rightarrow> nat list" where
  "insert_timer e t xs = filter (\<lambda>x. e x \<le> e t) xs @ t # filter (\<lambda>x. e t < e x) xs"

lemma sorted_upto_filter:
  assumes "sorted (map e xs)"
  shows "takeWhile (\<lambda>x. e x \<le> (t :: 'a :: linorder)) xs = filter (\<lambda>x. e x \<le> t) xs"
    "dropWhile (\<lambda>x. e x \<le> t) xs = filter (\<lambda>x. t < e x) xs"
proof -
  show "takeWhile (\<lambda>x. e x \<le> t) xs = filter (\<lambda>x. e x \<le> t) xs"
    using assms by (induction xs) (auto simp: filter_empty_conv eq_commute [of "[]"] intro: order.trans)
  show "dropWhile (\<lambda>x. e x \<le> t) xs = filter (\<lambda>x. t < e x) xs"
  proof (use assms in \<open>induction xs\<close>)
    case (Cons x xs)
    show ?case
    proof (cases "e x \<le> t")
      case False
      then have "filter (\<lambda>x. t < e x) (x # xs) = x # xs"
        using Cons.prems by (auto simp: filter_id_conv intro: order.strict_trans2)
      then show ?thesis using False by simp
    qed (use Cons in auto)
  qed simp
qed

lemma split_upto:
  assumes "sorted (map e xs)"
  shows "xs = filter (\<lambda>x. e x \<le> t) xs @ filter (\<lambda>x. (t :: 'a :: linorder) < e x) xs"
  using sorted_upto_filter [OF assms, of t] takeWhile_dropWhile_id by metis

lemma insert_timer_props [simp]:
  "insert_timer e t xs \<noteq> []" "set (insert_timer e t xs) = insert t (set xs)"
  "distinct (insert_timer e t xs) \<longleftrightarrow> distinct (filter (\<lambda>x. e x \<le> e t) xs) \<and> distinct (filter (\<lambda>x. e t < e x) xs) \<and> t \<notin> set xs"
  by (auto simp: insert_timer_def)

lemma insert_timer_sorted: "sorted (map e xs) \<Longrightarrow> sorted (map e (insert_timer e t xs))"
  by (auto simp: insert_timer_def sorted_append sorted_filter intro: order.trans less_imp_le)

lemma insert_timer_subseq:
  "subseq xs ys \<Longrightarrow> subseq (insert_timer e t xs) (insert_timer e t ys)"
  "sorted (map e ys) \<Longrightarrow> subseq xs ys \<Longrightarrow> subseq xs (insert_timer e t ys)"
proof -
  show "subseq (insert_timer e t xs) (insert_timer e t ys)" if "subseq xs ys"
    using that by (auto simp: insert_timer_def intro!: list_emb_append_mono)
  show "subseq xs (insert_timer e t ys)" if a: "sorted (map e ys)" "subseq xs ys"
  proof -
    have "subseq ys (insert_timer e t ys)"
      by (subst split_upto [OF a(1), of "e t"]) (auto simp: insert_timer_def intro!: list_emb_append_mono)
    then show ?thesis using a(2) subseq_order.trans by blast
  qed
qed

lemma insert_timer_remove:
  assumes "sorted (map e xs)" "t \<notin> set xs"
  shows "filter (\<lambda>x. x \<noteq> t) (insert_timer e t xs) = xs"
proof -
  have "filter (\<lambda>x. x \<noteq> t) (insert_timer e t xs) = filter (\<lambda>x. x \<noteq> t) xs"
    by (subst (2) split_upto [OF assms(1), of "e t"]) (simp add: insert_timer_def)
  also have "\<dots> = xs" by (rule filter_True) (use assms(2) in auto)
  finally show ?thesis .
qed

lemma insert_all_stable:
  assumes "sorted (map e xs)"
  shows "fold (insert_timer e) ts xs = sort_key e (xs @ ts)"
proof -
  have "mset (fold (insert_timer e) ts xs) = mset (xs @ ts) \<and> sorted (map e (fold (insert_timer e) ts xs)) \<and>
      filter (\<lambda>x. e k = e x) (fold (insert_timer e) ts xs) = filter (\<lambda>x. e k = e x) (xs @ ts)" for k
    using assms
  proof (induction ts arbitrary: xs)
    case (Cons t ts)
    have "mset (insert_timer e t xs) = add_mset t (mset xs)"
      by (subst (2) split_upto [OF Cons.prems, of "e t"]) (simp add: insert_timer_def)
    moreover have "filter (\<lambda>x. e k = e x) (insert_timer e t xs) = filter (\<lambda>x. e k = e x) (xs @ [t])"
    proof (cases "e k = e t")
      case True
      then have "filter (\<lambda>x. e k = e x) (filter (\<lambda>x. e t < e x) xs) = []" by (auto simp: filter_empty_conv)
      then show ?thesis
        using True by (subst (2) split_upto [OF Cons.prems, of "e t"]) (simp add: insert_timer_def del: filter_filter)
    next
      case False
      then show ?thesis by (subst (2) split_upto [OF Cons.prems, of "e t"]) (simp add: insert_timer_def)
    qed
    ultimately show ?case using Cons.IH [OF insert_timer_sorted [OF Cons.prems]] by simp
  qed simp
  then show ?thesis by (intro properties_for_sort_key [symmetric]) auto
qed

lemma insert_timer_cong: "(\<And>x. x \<in> insert t (set xs) \<Longrightarrow> e x = e' x) \<Longrightarrow> insert_timer e t xs = insert_timer e' t xs"
  by (auto simp: insert_timer_def cong: filter_cong)

lemma skiplist_level_le: "timer_get_skiplist_level rnd d \<le> d" "timer_get_skiplist_level rnd d \<le> 9"
  by (auto simp: timer_get_skiplist_level_def Let_def)

text \<open>What a change of the list of one core leaves alone.\<close>

definition elsewhere :: "nat \<Rightarrow> nat set \<Rightarrow> 'w timers \<Rightarrow> 'w timers \<Rightarrow> bool" where
  "elsewhere c A s s' \<longleftrightarrow> (\<forall>c'. c' \<noteq> c \<longrightarrow> priv_timer s' c' = priv_timer s c') \<and>
     (\<forall>l x. x \<notin> A \<longrightarrow> nextp s' l (Tim x) = nextp s l (Tim x))"

lemma elsewhereD:
  assumes "elsewhere c A s s'"
  shows "c' \<noteq> c \<Longrightarrow> priv_timer s' c' = priv_timer s c'" "x \<notin> A \<Longrightarrow> nextp s' l (Tim x) = nextp s l (Tim x)"
  using assms by (auto simp: elsewhere_def)

lemma link_levels_priv: "(\<And>l. l \<le> n \<Longrightarrow> prev l \<noteq> Head c') \<Longrightarrow> priv_timer (link_levels t n prev s) c' = priv_timer s c'"
  by (induction n arbitrary: s) (auto simp: set_nextp_def upd_node_def split: tptr.splits)

lemma sl_ok_insert:
  fixes s :: "'w timers" and L n t
  defines "L' \<equiv> \<lambda>l. if l \<le> n then insert_timer (ek s) t (L l) else L l"
  assumes ok: "sl_links c L s" and t: "t \<notin> set (L 0)" and e: "ek s' = ek s"
    and n: "n \<le> curr_skiplist_depth (priv_timer s c)" "n \<le> 9"
    and prev: "\<And>l. l \<le> n \<Longrightarrow> prev l = lastp (Head c) (filter (\<lambda>x. ek s x \<le> ek s t) (L l))"
    and links: "\<And>l p. nextp s' l p = (if l \<le> n then (if p = prev l then Some t else if p = Tim t then nextp s l (prev l) else nextp s l p)
      else nextp s l p)"
    and depth: "curr_skiplist_depth (priv_timer s' c) =
      (if n = curr_skiplist_depth (priv_timer s c) then n + 1 else curr_skiplist_depth (priv_timer s c))"
    and first: "expire (pending_head (priv_timer s' c)) = ek s (hd (L' 0))"
  shows "sl_ok c L' s'"
proof -
  note D = sl_linksD [OF ok]
  have tl: "t \<notin> set (L l)" for l using t D(5) by blast
  have "path s' l (Head c) (L' l)" if "l < 10" for l
  proof (cases "l \<le> n")
    case True
    then show ?thesis
      unfolding L'_def insert_timer_def using tl D(1) [OF that] D(2) [of l] prev [of l]
      by simp (rule path_insert; use split_upto [OF D(3), of l "ek s t"] links in auto)
  next
    case False
    then show ?thesis using path_cong [of "Head c" "L l" s' l s] D(1) [OF that] links by (simp add: L'_def)
  qed
  moreover have "subseq (L' (Suc l)) (L' l)" for l
    using insert_timer_subseq(1) [OF D(4) [of l]] insert_timer_subseq(2) [OF D(3) D(4)] D(4) by (auto simp: L'_def)
  moreover have "\<And>l. L l \<noteq> [] \<longleftrightarrow> l < curr_skiplist_depth (priv_timer s c)" using D(8) .
  moreover have "expire (pending_head (priv_timer s' c)) = (case L' 0 of [] \<Rightarrow> 0 | x # _ \<Rightarrow> ek s' x)"
    using first fun_cong [OF e] by (cases "L' 0") (simp add: L'_def, auto)
  ultimately show ?thesis
    using n D(2) [of 0] D(7) tl insert_timer_sorted [OF D(3)] e depth by (auto simp: sl_ok_def sl_links_def L'_def split: if_splits)
qed

lemma timer_add_ok:
  assumes ok: "sl_ok c L s" and t: "t \<notin> set (L 0)"
  shows "\<exists>s' L'. timer_add t c rnd s = Some s' \<and> same_timers s s' \<and> sl_ok c L' s' \<and>
    L' 0 = insert_timer (ek s) t (L 0) \<and> elsewhere c (insert t (set (L 0))) s s'"
proof -
  define d where "d = curr_skiplist_depth (priv_timer s c)"
  define n where "n = timer_get_skiplist_level rnd d"
  let ?L = "\<lambda>l. if l \<le> n then insert_timer (ek s) t (L l) else L l"
  note links = sl_okD(1) [OF ok]
  note D = sl_linksD [OF links]
  have n: "n \<le> d" "n \<le> 9" using skiplist_level_le by (auto simp: n_def)
  obtain prev where prev: "timer_get_prev_entries (ek s t) c s = Some prev"
      "\<And>l. l \<le> n \<Longrightarrow> prev l = lastp (Head c) (filter (\<lambda>x. ek s x \<le> ek s t) (L l))"
    using prev_entries_ok [OF links] sorted_upto_filter(1) [OF D(3)] n(1) unfolding d_def by (metis order.trans)
  have prev': "prev l = Head c \<or> prev l \<in> Tim ` set (L 0)" if "l \<le> n" for l
    using lastp_in [of "Head c" "filter (\<lambda>x. ek s x \<le> ek s t) (L l)"] prev(2) [of l] that D(5) by auto
  then have pt: "\<forall>l\<le>n. prev l \<noteq> Tim t" and ph: "\<And>l c'. l \<le> n \<Longrightarrow> c' \<noteq> c \<Longrightarrow> prev l \<noteq> Head c'" using t by fastforce+
  define s1 where "s1 = (if n = d then upd_priv c (\<lambda>k. k\<lparr>curr_skiplist_depth := d + 1\<rparr>) s else s)"
  define s2 where "s2 = link_levels t n prev s1"
  define s' where "s' = upd_node (Head c) (\<lambda>k. k\<lparr>expire := ek s2 (hd (?L 0))\<rparr>) s2"
  have s1: "nextp s1 l p = nextp s l p" "same_timers s s1" for l p by (auto simp: s1_def)
  have nx: "nextp s' l p = (if l \<le> n then (if p = prev l then Some t else if p = Tim t then nextp s l (prev l) else nextp s l p)
      else nextp s l p)" for l p
    using link_levels_ok(1) [OF pt, where s = s1] by (simp add: s1 s2_def s'_def)
  have same: "same_timers s s'"
    using same_timers_trans [OF s1(2) link_levels_ok(2) [OF pt]] by (simp add: s2_def s'_def)
  have e: "ek s' = ek s" using same_timersD(1) [OF same] .
  have ok': "sl_ok c ?L s'"
    by (rule sl_ok_insert [OF links t e _ n(2) prev(2) nx])
      (use n fun_cong [OF e] link_levels_ok(3) [OF pt, where s = s1] in \<open>auto simp: s'_def s2_def s1_def d_def upd_node_def\<close>)
  have "nextp s2 0 (Head c) = Some (hd (?L 0))"
    using sl_linksD(1) [OF sl_okD(1) [OF ok'], of 0] by (cases "?L 0") (auto simp: s'_def)
  then have "timer_add t c rnd s = Some s'"
    unfolding timer_add_def Let_def prev(1) d_def [symmetric] n_def [symmetric] s1_def [symmetric]
    by (simp add: s2_def [symmetric] s'_def)
  moreover have "priv_timer s' c' = priv_timer s c'" if "c' \<noteq> c" for c'
    using that link_levels_priv [of n prev c' t s1] ph by (simp add: s'_def s2_def s1_def upd_node_def)
  moreover have "nextp s' l (Tim x) = nextp s l (Tim x)" if "x \<notin> insert t (set (L 0))" for l x
    using that nx [of "Tim x" l] prev' [of l] by auto
  ultimately show ?thesis using same ok' by (intro exI [of _ s'] exI [of _ ?L]) (simp add: elsewhere_def)
qed

section \<open>Removal\<close>

text \<open>The search compares with the expiry minus one, which for an expiry of 0 is the latest time.\<close>

lemma advance_to_node:
  assumes "path s l (Head c) xs" "sorted (map (ek s) xs)" "t \<in> set xs \<Longrightarrow> ek s t \<noteq> 0"
  shows "\<exists>P Q. xs = P @ Q \<and>
    advance_to s t l (lastp (Head c) (filter (\<lambda>x. ek s x \<le> ek s t - 1) xs)) = Some (lastp (Head c) P) \<and>
    (t \<in> set xs \<longrightarrow> (\<exists>Q'. Q = t # Q'))"
proof -
  let ?A = "filter (\<lambda>x. ek s x \<le> ek s t - 1) xs" and ?R = "filter (\<lambda>x. ek s t - 1 < ek s x) xs"
    and ?b = "\<lambda>x. x \<noteq> t \<and> ek s x \<le> ek s t"
  have split: "xs = ?A @ ?R" using split_upto [OF assms(2)] .
  have "path s l (lastp (Head c) ?A) ?R" using path_appendD [of s l "Head c" ?A ?R] assms(1) split by simp
  note run = advance_to_path [OF this, of t]
  have "\<exists>Q'. dropWhile ?b ?R = t # Q'" if "t \<in> set xs"
  proof -
    have "0 < unat (ek s t)" using assms(3) [OF that] by (simp add: unat_gt_0)
    then have "\<not> ek s t \<le> ek s t - 1" using assms(3) [OF that] by (simp add: word_le_nat_alt unat_minus_one)
    then have "t \<in> set ?R" using that by simp
    then obtain B C where R: "?R = B @ t # C" "t \<notin> set B" using split_list_first by metis
    have "sorted (map (ek s) ?R)" using assms(2) by (rule sorted_filter)
    then have "\<forall>x \<in> set B. ?b x" using R by (auto simp: sorted_append)
    then show ?thesis using R(1) by simp
  qed
  then show ?thesis
    using run split takeWhile_dropWhile_id [of ?b ?R]
    by (intro exI [of _ "?A @ takeWhile ?b ?R"] exI [of _ "dropWhile ?b ?R"]) simp
qed

lemma prev_for_node_ok:
  assumes "\<And>i. i < n \<Longrightarrow> advance_to s t i (prev i) = Some (q i)"
  shows "\<exists>prev'. prev_for_node s t n prev = Some prev' \<and> (\<forall>i<n. prev' i = q i)"
proof -
  have "prev_for_node s t n prev = Some (\<lambda>i. if i < n then q i else prev i)"
    using assms by (induction n arbitrary: prev) (auto simp: less_Suc_eq fun_eq_iff)
  then show ?thesis by simp
qed

lemma entries_for_node_ok:
  assumes ok: "sl_links c L s" and "t \<in> set (L 0) \<Longrightarrow> ek s t \<noteq> 0"
  shows "\<exists>prev. timer_get_prev_entries_for_node t c s = Some prev \<and>
    (\<forall>l < curr_skiplist_depth (priv_timer s c). \<exists>P Q. L l = P @ Q \<and> prev l = lastp (Head c) P \<and> (t \<in> set (L l) \<longrightarrow> (\<exists>Q'. Q = t # Q')))"
proof -
  let ?d = "curr_skiplist_depth (priv_timer s c)"
  note D = sl_linksD [OF ok]
  obtain prev where prev: "timer_get_prev_entries (ek s t - 1) c s = Some prev"
      "\<And>l. l \<le> ?d \<Longrightarrow> prev l = lastp (Head c) (filter (\<lambda>x. ek s x \<le> ek s t - 1) (L l))"
    using prev_entries_ok [OF ok] sorted_upto_filter(1) [OF D(3)] by metis
  have "\<forall>l<?d. \<exists>P Q. L l = P @ Q \<and> advance_to s t l (prev l) = Some (lastp (Head c) P) \<and> (t \<in> set (L l) \<longrightarrow> (\<exists>Q'. Q = t # Q'))"
  proof (intro allI impI)
    fix l assume l: "l < ?d"
    show "\<exists>P Q. L l = P @ Q \<and> advance_to s t l (prev l) = Some (lastp (Head c) P) \<and> (t \<in> set (L l) \<longrightarrow> (\<exists>Q'. Q = t # Q'))"
      unfolding prev(2) [OF less_imp_le [OF l]]
      by (rule advance_to_node [OF D(1) D(3)]) (use l D(5,7) assms(2) in \<open>auto intro: order.strict_trans2\<close>)
  qed
  then obtain P where P: "\<And>l. l < ?d \<Longrightarrow> (\<exists>Q. L l = P l @ Q \<and> (t \<in> set (L l) \<longrightarrow> (\<exists>Q'. Q = t # Q'))) \<and>
      advance_to s t l (prev l) = Some (lastp (Head c) (P l))" by metis
  then obtain prev' where "prev_for_node s t ?d prev = Some prev'" "\<forall>i<?d. prev' i = lastp (Head c) (P i)"
    using prev_for_node_ok [of ?d s t prev "\<lambda>i. lastp (Head c) (P i)"] by blast
  then show ?thesis
    using P prev(1) by (fastforce simp: timer_get_prev_entries_for_node_def)
qed

lemma unlink_elsewhere:
  assumes "\<And>l. l < n \<Longrightarrow> prev l = Head c \<or> prev l \<in> Tim ` A"
  shows "elsewhere c A s (unlink_levels t n prev s)"
proof -
  have "prev l \<noteq> Head c'" if "l < n" "c' \<noteq> c" for l c' using assms [of l] that by auto
  then have "priv_timer (unlink_levels t n prev s) c' = priv_timer s c'" if "c' \<noteq> c" for c'
    using that by (induction n arbitrary: s) (auto simp: set_nextp_def upd_node_def split: tptr.splits)
  moreover have "nextp (unlink_levels t n prev s) l (Tim x) = nextp s l (Tim x)" if "x \<notin> A" for l x
    using that assms [of l] by (auto simp: unlink_levels_ok(1))
  ultimately show ?thesis by (simp add: elsewhere_def)
qed

lemma elsewhere_head [simp]:
  "elsewhere c A s (lower_depth c n s)"
  "elsewhere c A s (upd_node (Head c) (\<lambda>k. k\<lparr>expire := e\<rparr>) s)" "elsewhere c A s s"
proof -
  have "nextp (lower_depth c n s) l p = nextp s l p" "c' \<noteq> c \<Longrightarrow> priv_timer (lower_depth c n s) c' = priv_timer s c'" for l p c'
    by (induction n arbitrary: s) auto
  then show "elsewhere c A s (lower_depth c n s)" by (simp add: elsewhere_def)
qed (auto simp: elsewhere_def upd_node_def node_def)

lemma elsewhere_trans: "elsewhere c A s s' \<Longrightarrow> elsewhere c A s' s'' \<Longrightarrow> elsewhere c A s s''"
  by (simp add: elsewhere_def)

lemma sl_ok_remove:
  assumes ok: "sl_links c L s" and e: "ek s' = ek s"
    and prev: "\<And>l. l < curr_skiplist_depth (priv_timer s c) \<Longrightarrow>
      \<exists>P Q. L l = P @ Q \<and> prev l = lastp (Head c) P \<and> (t \<in> set (L l) \<longrightarrow> (\<exists>Q'. Q = t # Q'))"
    and links: "\<And>l p. nextp s' l p = (if l < curr_skiplist_depth (priv_timer s c) \<and> p = prev l \<and> nextp s l (prev l) = Some t
      then nextp s l (Tim t) else nextp s l p)"
  shows "l < 10 \<Longrightarrow> path s' l (Head c) (filter (\<lambda>x. x \<noteq> t) (L l))"
proof -
  let ?d = "curr_skiplist_depth (priv_timer s c)"
  note D = sl_linksD [OF ok]
  assume l: "l < 10"
  show ?thesis
  proof (cases "t \<in> set (L l)")
    case True
    then have "l < ?d" using D(8) [of l] by (metis list.set_cases list.distinct(1))
    then obtain P Q where P: "L l = P @ t # Q" "prev l = lastp (Head c) P" using prev True by blast
    have filt: "filter (\<lambda>x. x \<noteq> t) (L l) = P @ Q" using D(2) [of l] P(1) by (simp, metis (mono_tags, lifting) filter_id_conv)
    have "nextp s l (prev l) = Some t" using path_next [of s l "Head c" P "t # Q"] D(1) [OF l] P by simp
    then show ?thesis
      unfolding filt using D(1) [OF l] D(2) [of l] P links \<open>l < ?d\<close>
      by (intro path_remove [of s l "Head c" P t Q s']) auto
  next
    case False
    have "nextp s' l p = nextp s l p" for p
    proof (cases "l < ?d")
      case True
      then obtain P Q where "L l = P @ Q" "prev l = lastp (Head c) P" using prev by blast
      then have "nextp s l (prev l) \<noteq> Some t"
        using path_next [of s l "Head c" P Q] D(1) [OF l] False by (cases Q) auto
      then show ?thesis using links by simp
    qed (use links in simp)
    moreover have "filter (\<lambda>x. x \<noteq> t) (L l) = L l" by (rule filter_True) (use False in auto)
    ultimately show ?thesis using D(1) [OF l] path_cong [of "Head c" "L l" s' l s] by simp
  qed
qed

lemma first_after_remove:
  assumes "path s 0 (Head c) xs" "distinct xs" "expire (pending_head (priv_timer s c)) = (case xs of [] \<Rightarrow> 0 | x # _ \<Rightarrow> ek s x)"
  shows "(if nextp s 0 (Head c) = Some t then (case nextp s 0 (Tim t) of None \<Rightarrow> 0 | Some q \<Rightarrow> ek s q)
      else expire (pending_head (priv_timer s c))) = (case filter (\<lambda>x. x \<noteq> t) xs of [] \<Rightarrow> 0 | x # _ \<Rightarrow> ek s x)"
proof (cases xs)
  case (Cons x ys)
  then have "x = t \<Longrightarrow> filter (\<lambda>x. x \<noteq> t) ys = ys" using assms(2) by (intro filter_True) auto
  then show ?thesis using assms Cons by (cases ys) auto
qed (use assms in auto)

lemma timer_del_ok:
  assumes ok: "sl_ok c L s" and t: "t \<in> set (L 0) \<Longrightarrow> ek s t \<noteq> 0"
  shows "\<exists>s' L'. timer_del t c s = Some s' \<and> same_timers s s' \<and> sl_ok c L' s' \<and>
    L' 0 = filter (\<lambda>x. x \<noteq> t) (L 0) \<and> elsewhere c (set (L 0)) s s'"
proof -
  let ?d = "curr_skiplist_depth (priv_timer s c)" and ?M = "\<lambda>l. filter (\<lambda>x. x \<noteq> t) (L l)"
  note links = sl_okD(1) [OF ok]
  note D = sl_linksD [OF links]
  define s1 where "s1 = (if nextp s 0 (Head c) = Some t
      then upd_node (Head c) (\<lambda>k. k\<lparr>expire := (case nextp s 0 (Tim t) of None \<Rightarrow> 0 | Some q \<Rightarrow> ek s q)\<rparr>) s else s)"
  have s1: "nextp s1 l p = nextp s l p" "same_timers s s1" for l p by (auto simp: s1_def)
  have s1': "curr_skiplist_depth (priv_timer s1 c) = ?d" by (auto simp: s1_def upd_node_def)
  have e1: "ek s1 x = ek s x" for x using same_timersD(1) [OF s1(2)] by metis
  have links1: "sl_links c L s1" using sl_links_cong [of s1 s, OF s1(1) e1 s1'] links by simp
  have "t \<in> set (L 0) \<Longrightarrow> ek s1 t \<noteq> 0" using t e1 by simp
  from entries_for_node_ok [OF links1 this] obtain prev where prev: "timer_get_prev_entries_for_node t c s1 = Some prev"
      "\<And>l. l < curr_skiplist_depth (priv_timer s1 c) \<Longrightarrow>
        \<exists>P Q. L l = P @ Q \<and> prev l = lastp (Head c) P \<and> (t \<in> set (L l) \<longrightarrow> (\<exists>Q'. Q = t # Q'))" by blast
  define s2 where "s2 = unlink_levels t ?d prev s1"
  have same: "same_timers s s2" unfolding s2_def using unlink_levels_ok(2) same_timers_trans s1(2) by blast
  have path: "path s2 l (Head c) (?M l)" if "l < 10" for l
    by (rule sl_ok_remove [OF links1 _ prev(2) _ that])
      (use same_timersD(1) [OF unlink_levels_ok(2)] in \<open>auto simp: s2_def unlink_levels_ok(1) s1'\<close>)
  define s' where "s' = lower_depth c ?d s2"
  have None: "nextp s2 l (Head c) = None \<longleftrightarrow> ?M l = []" if "l < ?d" for l
    using path [of l] that D(7) by (cases "?M l") auto
  have sub: "?M l = [] \<Longrightarrow> ?M (Suc l) = []" for l using D(6) [of l] by (auto simp: filter_empty_conv)
  have top: "?d \<le> l \<Longrightarrow> ?M l = []" for l using D(8) [of l] by auto
  note low = lower_depth_ok [of s2 c ?d ?M, OF _ top sub None, folded s'_def]
  have d2: "curr_skiplist_depth (priv_timer s2 c) = ?d" by (simp add: s2_def unlink_levels_ok(3) s1')
  have same': "same_timers s s'" using same_timers_trans [OF same low(2) [OF d2]] .
  have "sl_links c ?M s'"
    using path path_cong [of _ _ s' _ s2] low(1,4,5) [OF d2] D(2,3,4,7) same_timersD(1) [OF same']
    by (auto simp: sl_links_def sorted_filter intro: order.trans)
  moreover have "expire (pending_head (priv_timer s' c)) = (case ?M 0 of [] \<Rightarrow> 0 | x # _ \<Rightarrow> ek s x)"
    using first_after_remove [OF D(1) D(2) sl_okD(2) [OF ok], of t] low(3) [OF d2]
    by (auto simp: s2_def unlink_levels_ok(4) s1_def upd_node_def split: if_splits)
  moreover have "elsewhere c (set (L 0)) s s'"
  proof -
    have "prev l = Head c \<or> prev l \<in> Tim ` set (L 0)" if l: "l < ?d" for l
    proof -
      obtain P Q where "L l = P @ Q" "prev l = lastp (Head c) P" using prev(2) [of l] l s1' by auto
      then show ?thesis using lastp_in [of "Head c" P] D(5) [of l] by auto
    qed
    then show ?thesis
      unfolding s'_def s2_def
      by (intro elsewhere_trans [OF elsewhere_trans [OF _ unlink_elsewhere] elsewhere_head(1)]) (simp_all add: s1_def)
  qed
  moreover have "timer_del t c s = Some s'"
    unfolding timer_del_def Let_def s1_def [symmetric] prev(1) by (simp add: s2_def s'_def s1')
  ultimately show ?thesis
    using same' same_timersD(1) [OF same'] by (intro exI [of _ s'] exI [of _ ?M]) (simp add: sl_ok_def fun_eq_iff split: list.splits)
qed

section \<open>The list as a store of timers\<close>

lemma pending_cong:
  assumes "\<And>l p. nextp s' l p = nextp s l p" "\<And>x. x \<in> set xs \<Longrightarrow> ek s' x = ek s x"
    "curr_skiplist_depth (priv_timer s' c) = curr_skiplist_depth (priv_timer s c)"
    "expire (pending_head (priv_timer s' c)) = expire (pending_head (priv_timer s c))"
  shows "pending c xs s' = pending c xs s"
proof -
  have "sl_ok c L s' = sl_ok c L s" if "L 0 = xs" for L
    using sl_links_cong [of s' s L c] assms that by (cases xs) (simp_all add: sl_ok_def)
  then show ?thesis by (auto simp: pending_def)
qed

lemma pending_sorted: "pending c xs s \<Longrightarrow> distinct xs \<and> sorted (map (ek s) xs)"
  using sl_linksD(2,3) [of c _ s 0] by (auto simp: pending_def dest!: sl_okD(1))

lemma pending_first:
  assumes "pending c xs s"
  shows "nextp s 0 (Head c) = (case xs of [] \<Rightarrow> None | x # _ \<Rightarrow> Some x)"
    "expire (pending_head (priv_timer s c)) = (case xs of [] \<Rightarrow> 0 | x # _ \<Rightarrow> ek s x)"
proof -
  obtain L where L: "sl_ok c L s" "L 0 = xs" using assms by (auto simp: pending_def)
  show "nextp s 0 (Head c) = (case xs of [] \<Rightarrow> None | x # _ \<Rightarrow> Some x)"
    using sl_linksD(1) [OF sl_okD(1) [OF L(1)], of 0] L(2) by (cases xs) auto
  show "expire (pending_head (priv_timer s c)) = (case xs of [] \<Rightarrow> 0 | x # _ \<Rightarrow> ek s x)"
    using sl_okD(2) [OF L(1)] L(2) by simp
qed

lemma pending_add:
  assumes "pending c xs s" "t \<notin> set xs"
  obtains s' where "timer_add t c rnd s = Some s'" "same_timers s s'" "pending c (insert_timer (ek s) t xs) s'"
    "elsewhere c (insert t (set xs)) s s'"
  using assms timer_add_ok [of c _ s t rnd] by (fastforce simp: pending_def)

lemma pending_del:
  assumes "pending c xs s" "t \<in> set xs \<Longrightarrow> ek s t \<noteq> 0"
  obtains s' where "timer_del t c s = Some s'" "same_timers s s'" "pending c (filter (\<lambda>x. x \<noteq> t) xs) s'"
    "elsewhere c (set xs) s s'"
  using assms timer_del_ok [of c _ s t] by (fastforce simp: pending_def)

locale timer_store =
  fixes holds :: "nat list \<Rightarrow> 's \<Rightarrow> bool" and key :: "'s \<Rightarrow> nat \<Rightarrow> u64"
    and add :: "nat \<Rightarrow> 's \<Rightarrow> 's option" and del :: "nat \<Rightarrow> 's \<Rightarrow> 's option"
  assumes holds_sorted: "holds xs s \<Longrightarrow> distinct xs \<and> sorted (map (key s) xs)"
    and add_holds: "holds xs s \<Longrightarrow> t \<notin> set xs \<Longrightarrow> \<exists>s'. add t s = Some s' \<and> key s' = key s \<and> holds (insert_timer (key s) t xs) s'"
    and del_holds: "holds xs s \<Longrightarrow> (t \<in> set xs \<Longrightarrow> key s t \<noteq> 0) \<Longrightarrow>
      \<exists>s'. del t s = Some s' \<and> key s' = key s \<and> holds (filter (\<lambda>x. x \<noteq> t) xs) s'"
begin

lemma add_del:
  assumes "holds xs s" "t \<notin> set xs" "key s t \<noteq> 0"
  shows "\<exists>s'. Option.bind (add t s) (del t) = Some s' \<and> key s' = key s \<and> holds xs s'"
proof -
  obtain s1 where s1: "add t s = Some s1" "key s1 = key s" "holds (insert_timer (key s) t xs) s1"
    using add_holds assms by blast
  obtain s2 where s2: "del t s1 = Some s2" "key s2 = key s1" "holds (filter (\<lambda>x. x \<noteq> t) (insert_timer (key s) t xs)) s2"
    using del_holds [OF s1(3), of t] s1(2) assms(3) by auto
  have "filter (\<lambda>x. x \<noteq> t) (insert_timer (key s) t xs) = xs"
    using insert_timer_remove holds_sorted [OF assms(1)] assms(2) by blast
  then show ?thesis using s1 s2 by auto
qed

lemma add_all:
  assumes "holds xs s" "distinct ts" "set ts \<inter> set xs = {}"
  shows "\<exists>s'. fold_opt add ts s = Some s' \<and> key s' = key s \<and> holds (fold (insert_timer (key s)) ts xs) s'"
  using assms
proof (induction ts arbitrary: xs s)
  case (Cons t ts)
  then obtain s1 where s1: "add t s = Some s1" "key s1 = key s" "holds (insert_timer (key s) t xs) s1"
    using add_holds [of xs s t] by auto
  then show ?case using Cons.IH [OF s1(3)] Cons.prems by auto
qed simp

end

interpretation tq: timer_store "pending c" ek "\<lambda>t. timer_add t c (rnd t)" "\<lambda>t. timer_del t c"
proof
  fix xs t and s :: "'a timers"
  assume p: "pending c xs s"
  then show "distinct xs \<and> sorted (map (ek s) xs)" by (rule pending_sorted)
  show "\<exists>s'. timer_add t c (rnd t) s = Some s' \<and> ek s' = ek s \<and> pending c (insert_timer (ek s) t xs) s'" if "t \<notin> set xs"
    using pending_add [OF p that] same_timersD(1) by metis
  show "\<exists>s'. timer_del t c s = Some s' \<and> ek s' = ek s \<and> pending c (filter (\<lambda>x. x \<noteq> t) xs) s'" if "t \<in> set xs \<Longrightarrow> ek s t \<noteq> 0"
    using pending_del [OF p that] same_timersD(1) by metis
qed

text \<open>
  C28. The skip list is a stable priority queue: timers started one after the other on a core that
  has none, whatever levels the random numbers give them, are then pending in the order of their
  expiry, and those that expire at the same time in the order in which they were started. Every
  insertion returns, and changes nothing of a timer but its links.
\<close>

theorem timer_add_sorts:
  assumes "pending c [] s" "distinct ts"
  shows "\<exists>s'. fold_opt (\<lambda>t. timer_add t c (rnd t)) ts s = Some s' \<and> pending c (sort_key (ek s) ts) s' \<and> ek s' = ek s"
  using tq.add_all [OF assms(1,2)] insert_all_stable [of "ek s" "[]" ts] by auto

lemma pending_boot: "pending c [] (rte_timer_subsystem_init (timers_boot w))"
proof -
  have "fold (\<lambda>c. upd_priv c (\<lambda>k. k\<lparr>prev_lcore := c\<rparr>)) cs s = s' \<Longrightarrow>
      tims s' = tims s \<and> pending_head (priv_timer s' c) = pending_head (priv_timer s c) \<and>
      curr_skiplist_depth (priv_timer s' c) = curr_skiplist_depth (priv_timer s c)" for cs and s s' :: "'a timers"
    by (induction cs arbitrary: s) auto
  note init = this [OF refl, where cs = "[0..<128]" and s = "timers_boot w", folded rte_timer_subsystem_init_def]
  have "sl_ok c (\<lambda>_. []) (rte_timer_subsystem_init (timers_boot w))"
    using init by (simp add: sl_ok_def sl_links_def node_def timers_boot_def Let_def)
  then show ?thesis by (auto simp: pending_def)
qed

theorem timer_add_sorts_witness:
  "let s = upd_tim 1 (\<lambda>k. k\<lparr>expire := 3\<rparr>) (upd_tim 2 (\<lambda>k. k\<lparr>expire := 5\<rparr>) (upd_tim 3 (\<lambda>k. k\<lparr>expire := 5\<rparr>)
     (rte_timer_subsystem_init (timers_boot ()))))
   in \<exists>s'. fold_opt (\<lambda>t. timer_add t 0 (of_nat t)) [3, 1, 2] s = Some s' \<and> pending 0 [1, 3, 2] s'"
proof -
  let ?s = "upd_tim 1 (\<lambda>k. k\<lparr>expire := 3\<rparr>) (upd_tim 2 (\<lambda>k. k\<lparr>expire := 5\<rparr>) (upd_tim 3 (\<lambda>k. k\<lparr>expire := 5\<rparr>)
     (rte_timer_subsystem_init (timers_boot ()))))"
  have "pending 0 [] ?s" by (rule pending_cong [THEN iffD2, OF _ _ _ _ pending_boot]) (auto simp: node_def split: tptr.splits)
  from timer_add_sorts [OF this, of "[3, 1, 2]" of_nat] show ?thesis by (auto simp: Let_def)
qed

end
