(* ===== verification/Rte_Timer_Run.thy ===== *)
theory Rte_Timer_Run
  imports Rte_Timer_List
begin

text \<open>
  Starting, stopping and running timers on the core that owns them: the status of every timer agrees
  with the list it is in, and \<open>rte_timer_manage\<close> runs exactly the expired timers, in the order of
  their expiry, whatever its callbacks start and stop.
\<close>

section \<open>Taking the expired timers off the list\<close>

lemma split_levels_links:
  "nextp (split_levels c n prev s) l p =
     (if l < n \<and> prev l \<noteq> Head c then (if p = prev l then None else if p = Head c then nextp s l (prev l) else nextp s l p)
      else nextp s l p)"
  by (induction n arbitrary: s) (auto simp: Let_def less_Suc_eq)

lemma split_levels_same:
  "same_timers s (split_levels c n prev s)"
  "expire (pending_head (priv_timer (split_levels c n prev s) c)) = expire (pending_head (priv_timer s c))"
proof -
  show "same_timers s (split_levels c n prev s)"
  proof (induction n arbitrary: s)
    case (Suc n)
    show ?case unfolding split_levels.simps Let_def by (rule same_timers_trans [OF _ Suc]) auto
  qed simp
  show "expire (pending_head (priv_timer (split_levels c n prev s) c)) = expire (pending_head (priv_timer s c))"
    by (induction n arbitrary: s) (auto simp: Let_def)
qed

lemma split_levels_elsewhere:
  assumes "\<And>l. l < n \<Longrightarrow> prev l = Head c \<or> prev l \<in> Tim ` A"
  shows "elsewhere c A s (split_levels c n prev s)"
proof -
  have "prev l \<noteq> Head c'" if "l < n" "c' \<noteq> c" for l c' using assms [of l] that by auto
  then have "priv_timer (split_levels c n prev s) c' = priv_timer s c'" if "c' \<noteq> c" for c'
    using that by (induction n arbitrary: s) (auto simp: Let_def set_nextp_def upd_node_def split: tptr.splits)
  moreover have "nextp (split_levels c n prev s) l (Tim x) = nextp s l (Tim x)" if "x \<notin> A" for l x
    using that assms [of l] by (auto simp: split_levels_links)
  ultimately show ?thesis by (simp add: elsewhere_def)
qed

lemma split_levels_keep_depth:
  assumes "\<And>l. l < n \<Longrightarrow> prev l \<noteq> Head c \<Longrightarrow> nextp s l (prev l) \<noteq> None"
  shows "curr_skiplist_depth (priv_timer (split_levels c n prev s) c) = curr_skiplist_depth (priv_timer s c)"
  using assms
proof (induction n arbitrary: s)
  case (Suc n)
  show ?case
  proof (cases "prev n = Head c")
    case False
    then obtain q where "nextp s n (prev n) = Some q" using Suc.prems by blast
    then show ?thesis using False Suc.prems Suc.IH [of "set_nextp n (prev n) None (set_nextp n (Head c) (Some q) s)"]
      by (simp add: Let_def)
  qed (use Suc in simp)
qed simp

lemma split_levels_depth:
  assumes "curr_skiplist_depth (priv_timer s c) = n" "\<And>l. n \<le> l \<Longrightarrow> M l = []" "\<And>l. M l = [] \<Longrightarrow> M (Suc l) = []"
    "\<And>l. l < n \<Longrightarrow> M l = [] \<longleftrightarrow> prev l \<noteq> Head c \<and> nextp s l (prev l) = None"
  shows "(\<forall>l. M l \<noteq> [] \<longleftrightarrow> l < curr_skiplist_depth (priv_timer (split_levels c n prev s) c)) \<and>
      curr_skiplist_depth (priv_timer (split_levels c n prev s) c) \<le> n"
  using assms
proof (induction n arbitrary: s)
  case (Suc n)
  show ?case
  proof (cases "M n = []")
    case True
    define s1 where "s1 = set_nextp n (prev n) None (upd_priv c (\<lambda>k. k\<lparr>curr_skiplist_depth := curr_skiplist_depth k - 1\<rparr>)
        (set_nextp n (Head c) None s))"
    have run: "split_levels c (Suc n) prev s = split_levels c n prev s1" "curr_skiplist_depth (priv_timer s1 c) = n"
        "\<And>l. l < n \<Longrightarrow> nextp s1 l p = nextp s l p" for p
      using Suc.prems(1) Suc.prems(4) [of n] True by (simp_all add: s1_def Let_def)
    have "M l = []" if "n \<le> l" for l using that True Suc.prems(2) [of l] by (cases "l = n") auto
    then show ?thesis
      unfolding run(1) using Suc.IH [of s1] Suc.prems(3,4) run(2,3) le_SucI by simp
  next
    case False
    have ne: "M l \<noteq> []" if "l \<le> n" for l using nonempty_below [of M] Suc.prems(3) False that by blast
    then have "curr_skiplist_depth (priv_timer (split_levels c (Suc n) prev s) c) = Suc n"
      using Suc.prems(1,4) split_levels_keep_depth [of "Suc n" prev c s] less_Suc_eq_le by metis
    then show ?thesis using ne Suc.prems(2) by (metis less_Suc_eq_le not_less order.refl)
  qed
qed simp

lemma path_cut:
  assumes "path s l p (xs @ ys)" "distinct xs" "p \<notin> Tim ` set xs"
    "\<And>q. q = p \<or> q \<in> Tim ` set xs \<Longrightarrow> nextp s' l q = (if q = lastp p xs then None else nextp s l q)"
  shows "path s' l p xs"
  using assms
proof (induction xs arbitrary: p)
  case (Cons x xs)
  have "lastp (Tim x) xs \<noteq> p" using Cons.prems(3) lastp_in [of "Tim x" xs] by auto
  moreover have "path s' l (Tim x) xs"
    by (rule Cons.IH) (use Cons.prems in auto)
  ultimately show ?case using Cons.prems by simp
qed simp

lemma split_path:
  assumes "path s l p (x # xs @ ys)" "distinct (x # xs @ ys)" "p \<notin> Tim ` set (x # xs @ ys)"
    "\<And>q. nextp s' l q = (if q = lastp (Tim x) xs then None else if q = p then nextp s l (lastp (Tim x) xs) else nextp s l q)"
  shows "path s' l p ys" "path s' l (Tim x) xs"
proof -
  have last: "lastp (Tim x) xs \<in> Tim ` set (x # xs)" using lastp_in [of "Tim x" xs] by auto
  then have np: "lastp (Tim x) xs \<noteq> p" using assms(3) by auto
  have "path s' l (Tim y) zs = path s l (Tim y) zs" if "ys = y # zs" for y zs
    by (rule path_cong) (use assms last np that in auto)
  moreover have "path s l (lastp (Tim x) xs) ys" using path_appendD [of s l "Tim x" xs ys] assms(1) by simp
  ultimately show "path s' l p ys" using np assms(4) by (cases ys) auto
  have "nextp s' l q = (if q = lastp (Tim x) xs then None else nextp s l q)" if "q = Tim x \<or> q \<in> Tim ` set xs" for q
    using that assms(3,4) by auto
  then show "path s' l (Tim x) xs" using path_cut [of s l "Tim x" xs ys s'] assms(1,2) by auto
qed

lemma pending_split:
  assumes p: "pending c xs s"
  obtains prev s' where "timer_get_prev_entries t c s = Some prev"
    "s' = split_levels c (curr_skiplist_depth (priv_timer s c)) prev s"
    "same_timers s s'" "elsewhere c (set xs) s s'"
    "pending c (filter (\<lambda>x. t < ek s x) xs) (upd_node (Head c) (\<lambda>k. k\<lparr>expire :=
       (case filter (\<lambda>x. t < ek s x) xs of [] \<Rightarrow> 0 | x # _ \<Rightarrow> ek s x)\<rparr>) s')"
    "\<And>x es. filter (\<lambda>x. ek s x \<le> t) xs = x # es \<Longrightarrow> path s' 0 (Tim x) es"
proof -
  obtain L where L: "sl_ok c L s" "L 0 = xs" using p by (auto simp: pending_def)
  note D = sl_linksD [OF sl_okD(1) [OF L(1)]]
  let ?d = "curr_skiplist_depth (priv_timer s c)" and ?E = "\<lambda>l. filter (\<lambda>x. ek s x \<le> t) (L l)" and ?M = "\<lambda>l. filter (\<lambda>x. t < ek s x) (L l)"
  obtain prev where prev: "timer_get_prev_entries t c s = Some prev" "\<And>l. l \<le> ?d \<Longrightarrow> prev l = lastp (Head c) (?E l)"
    using prev_entries_ok [OF sl_okD(1) [OF L(1)]] sorted_upto_filter(1) [OF D(3)] by metis
  have EM: "L l = ?E l @ ?M l" for l using split_upto [OF D(3)] .
  have prev': "prev l = Head c \<longleftrightarrow> ?E l = []" "prev l = Head c \<or> prev l \<in> Tim ` set (L 0)" if "l \<le> ?d" for l
    using prev(2) [OF that] D(5) [of l] lastp_in [of "Head c" "?E l"] by (auto simp: lastp_def)
  define s' where "s' = split_levels c ?d prev s"
  have path: "path s' l (Head c) (?M l) \<and> (\<forall>x es. ?E l = x # es \<longrightarrow> path s' l (Tim x) es)" if l: "l < 10" for l
  proof (cases "?E l")
    case Nil
    then have "nextp s' l q = nextp s l q" for q using prev'(1) [of l] by (auto simp: s'_def split_levels_links)
    then show ?thesis using D(1) [OF l] EM [of l] Nil path_cong [of _ _ s' l s] by simp
  next
    case (Cons x es)
    then have d: "l < ?d" using D(8) [of l] EM [of l] by (metis append_Cons list.distinct(1))
    have "nextp s' l q = (if q = lastp (Tim x) es then None else if q = Head c then nextp s l (lastp (Tim x) es) else nextp s l q)" for q
      using d prev(2) [of l] prev'(1) [of l] Cons by (simp add: s'_def split_levels_links)
    from split_path [OF _ _ _ this, where ys = "?M l"] D(1) [OF l] D(2) [of l] EM [of l] Cons
    show ?thesis by (metis (no_types, lifting) append_Cons imageE list.inject tptr.distinct(1))
  qed
  have ends: "l < ?d \<Longrightarrow> ?M l = [] \<longleftrightarrow> prev l \<noteq> Head c \<and> nextp s l (prev l) = None" for l
    using path_next [of s l "Head c" "?E l" "?M l"] D(1) [of l] D(7) D(8) [of l] EM [of l] prev(2) [of l] prev'(1) [of l]
    by (auto split: list.splits)
  have top: "?d \<le> l \<Longrightarrow> ?M l = []" "?M l = [] \<Longrightarrow> ?M (Suc l) = []" for l
    using D(8) [of l] D(6) [of l] by (auto simp: filter_empty_conv)
  have depth: "(\<forall>l. ?M l \<noteq> [] \<longleftrightarrow> l < curr_skiplist_depth (priv_timer s' c)) \<and> curr_skiplist_depth (priv_timer s' c) \<le> ?d"
    unfolding s'_def by (rule split_levels_depth [OF refl top ends])
  have same: "same_timers s s'" unfolding s'_def by (rule split_levels_same)
  let ?e = "case ?M 0 of [] \<Rightarrow> 0 | x # _ \<Rightarrow> ek s x" and ?s = "\<lambda>e. upd_node (Head c) (\<lambda>k. k\<lparr>expire := e\<rparr>) s'"
  have "sl_links c ?M s'"
    using path depth D(2,3,4,7) same_timersD(1) [OF same] by (auto simp: sl_links_def sorted_filter intro: order.trans)
  then have "sl_links c ?M (?s ?e)"
    by (subst sl_links_cong [of _ s']) (auto simp: upd_node_def node_def split: tptr.splits)
  then have "pending c (?M 0) (?s ?e)"
    unfolding pending_def sl_ok_def using same_timersD(1) [OF same]
    by (intro exI [of _ ?M]) (auto simp: upd_node_def fun_eq_iff split: list.splits)
  then show thesis
    using that [OF prev(1) s'_def same] split_levels_elsewhere [of ?d prev c "set xs" s] prev'(2) L(2) path [of 0] s'_def by simp
qed

section \<open>Status and lists agree\<close>

text \<open>
  \<open>zs\<close> are the pending timers of the core, \<open>rs\<close> those that expired and wait for their turn, \<open>cur\<close> is the
  timer whose callback runs, unless that callback has already started or stopped it.
\<close>

primrec runlist :: "'w timers \<Rightarrow> nat list \<Rightarrow> bool" where
  "runlist s [] = True"
| "runlist s (x # xs) = path s 0 (Tim x) xs"

definition tm_ok :: "nat \<Rightarrow> nat list \<Rightarrow> nat list \<Rightarrow> nat option \<Rightarrow> 'w timers \<Rightarrow> bool" where
  "tm_ok me zs rs cur s \<longleftrightarrow> me < RTE_MAX_LCORE \<and> pending me zs s \<and> runlist s rs \<and> distinct rs \<and>
     (\<forall>x \<in> set rs. running_tim (priv_timer s me) \<noteq> Some x) \<and> (cur \<noteq> None \<longrightarrow> running_tim (priv_timer s me) = cur) \<and>
     (\<forall>x. (tim_state (tims s x) = RTE_TIMER_PENDING \<longleftrightarrow> x \<in> set zs) \<and>
          (tim_state (tims s x) = RTE_TIMER_RUNNING \<longleftrightarrow> x \<in> set rs \<or> cur = Some x) \<and>
          tim_state (tims s x) \<noteq> RTE_TIMER_CONFIG \<and> (tim_state (tims s x) \<noteq> RTE_TIMER_STOP \<longrightarrow> tim_owner (tims s x) = int me) \<and>
          (x \<in> set zs \<longrightarrow> ek s x \<noteq> 0))"

lemma tm_okD:
  assumes "tm_ok me zs rs cur s"
  shows "me < 128" "pending me zs s" "runlist s rs" "distinct rs" "x \<in> set rs \<Longrightarrow> running_tim (priv_timer s me) \<noteq> Some x"
    "cur = Some x \<Longrightarrow> running_tim (priv_timer s me) = Some x"
    "tim_state (tims s x) = RTE_TIMER_PENDING \<longleftrightarrow> x \<in> set zs"
    "tim_state (tims s x) = RTE_TIMER_RUNNING \<longleftrightarrow> x \<in> set rs \<or> cur = Some x" "tim_state (tims s x) \<noteq> RTE_TIMER_CONFIG"
    "tim_state (tims s x) \<noteq> RTE_TIMER_STOP \<Longrightarrow> tim_owner (tims s x) = int me" "x \<in> set zs \<Longrightarrow> ek s x \<noteq> 0"
  using assms by (auto simp: tm_ok_def)

lemma tm_ok_disjoint:
  assumes "tm_ok me zs rs cur s"
  shows "x \<in> set rs \<Longrightarrow> x \<notin> set zs" "cur = Some x \<Longrightarrow> x \<notin> set zs" "cur = Some x \<Longrightarrow> x \<notin> set rs"
  using tm_okD(5-8) [OF assms, of x] by auto

lemma runlist_cong:
  assumes "\<And>x. x \<in> set xs \<Longrightarrow> nextp s' 0 (Tim x) = nextp s 0 (Tim x)"
  shows "runlist s' xs = runlist s xs"
  using assms path_cong [of _ _ s' 0 s] by (cases xs) auto

lemma runlist_next: "runlist s (x # xs) \<Longrightarrow> nextp s 0 (Tim x) = (case xs of [] \<Rightarrow> None | y # _ \<Rightarrow> Some y)" "runlist s (x # xs) \<Longrightarrow> runlist s xs"
  by (cases xs; simp)+

lemma upd_tims_frame [simp]:
  assumes "\<And>x. sl_next (T x) = sl_next (tims s x)"
  shows "nextp (s\<lparr>tims := T\<rparr>) l p = nextp s l p"
    "(\<And>x. x \<in> set zs \<Longrightarrow> expire (T x) = ek s x) \<Longrightarrow> pending c zs (s\<lparr>tims := T\<rparr>) = pending c zs s"
proof -
  show *: "nextp (s\<lparr>tims := T\<rparr>) l p = nextp s l p" for l p using assms by (cases p) (simp_all add: node_def)
  show "pending c zs (s\<lparr>tims := T\<rparr>) = pending c zs s" if "\<And>x. x \<in> set zs \<Longrightarrow> expire (T x) = ek s x"
    by (rule pending_cong) (use * that in auto)
qed

lemma upd_priv_frame [simp]:
  assumes "\<And>d. pending_head (P d) = pending_head (priv_timer s d)"
  shows "nextp (s\<lparr>priv_timer := P\<rparr>) l p = nextp s l p"
    "(\<And>d. curr_skiplist_depth (P d) = curr_skiplist_depth (priv_timer s d)) \<Longrightarrow> pending c zs (s\<lparr>priv_timer := P\<rparr>) = pending c zs s"
proof -
  show *: "nextp (s\<lparr>priv_timer := P\<rparr>) l p = nextp s l p" for l p using assms by (cases p) (simp_all add: node_def)
  show "pending c zs (s\<lparr>priv_timer := P\<rparr>) = pending c zs s" if "\<And>d. curr_skiplist_depth (P d) = curr_skiplist_depth (priv_timer s d)"
    by (rule pending_cong) (use assms * that in auto)
qed

lemma config_state_ok:
  assumes ok: "tm_ok me zs rs cur s"
  shows "timer_set_config_state me t s =
    (if t \<in> set rs then (None, s)
     else (Some (tim_state (tims s t), tim_owner (tims s t)),
       upd_tim t (\<lambda>k. k\<lparr>tim_state := RTE_TIMER_CONFIG, tim_owner := int me\<rparr>) s))"
  using tm_okD(5,6,8-10) [OF ok, of t] by (auto simp: timer_set_config_state_def Let_def)

text \<open>The steps that starting and stopping share: claiming the timer and taking it off its list.\<close>

definition claimed :: "nat \<Rightarrow> nat \<Rightarrow> 'w timers \<Rightarrow> 'w timers" where
  "claimed me t s =
     (let s1 = upd_tim t (\<lambda>k. k\<lparr>tim_state := RTE_TIMER_CONFIG, tim_owner := int me\<rparr>) s in
      if tim_state (tims s t) = RTE_TIMER_RUNNING then upd_priv me (\<lambda>k. k\<lparr>updated := True\<rparr>) s1 else s1)"

lemma claimed_fields:
  "tim_state (tims (claimed me t s) x) = (if x = t then RTE_TIMER_CONFIG else tim_state (tims s x))"
  "tim_owner (tims (claimed me t s) x) = (if x = t then int me else tim_owner (tims s x))"
  "ek (claimed me t s) x = ek s x" "tim_period (tims (claimed me t s) x) = tim_period (tims s x)"
  "tim_f (tims (claimed me t s) x) = tim_f (tims s x)" "tim_arg (tims (claimed me t s) x) = tim_arg (tims s x)"
  "running_tim (priv_timer (claimed me t s) c) = running_tim (priv_timer s c)" "world (claimed me t s) = world s"
  "updated (priv_timer (claimed me t s) me) \<longleftrightarrow> updated (priv_timer s me) \<or> tim_state (tims s t) = RTE_TIMER_RUNNING"
  "nextp (claimed me t s) l p = nextp s l p" "pending c zs (claimed me t s) = pending c zs s"
  by (auto simp: claimed_def Let_def)

lemmas same_fields = same_timersD(1) [THEN fun_cong] same_timersD(2-)

lemma withdraw_ok:
  assumes ok: "tm_ok me zs rs cur s" and t: "t \<notin> set rs"
  obtains s' where "(if tim_state (tims s t) = RTE_TIMER_PENDING then timer_del t (nat (tim_owner (tims s t))) (claimed me t s)
      else Some (claimed me t s)) = Some s'"
    "same_timers (claimed me t s) s'" "pending me (filter (\<lambda>x. x \<noteq> t) zs) s'" "runlist s' rs"
proof (cases "t \<in> set zs")
  case True
  then have st: "tim_state (tims s t) = RTE_TIMER_PENDING" "nat (tim_owner (tims s t)) = me"
    using tm_okD(7,10) [OF ok, of t] by auto
  have "pending me zs (claimed me t s)" "ek (claimed me t s) t \<noteq> 0"
    using tm_okD(2,11) [OF ok] True by (simp_all add: claimed_fields)
  then obtain s' where "timer_del t me (claimed me t s) = Some s'" "same_timers (claimed me t s) s'"
      "pending me (filter (\<lambda>x. x \<noteq> t) zs) s'" "elsewhere me (set zs) (claimed me t s) s'"
    using pending_del by blast
  moreover from this(4) have "runlist s' rs"
    using tm_okD(3) [OF ok] tm_ok_disjoint(1) [OF ok]
    by (subst runlist_cong [of _ _ s]) (auto simp: elsewhereD(2) claimed_fields)
  ultimately show thesis using that st by simp
next
  case False
  then have "tim_state (tims s t) \<noteq> RTE_TIMER_PENDING" "filter (\<lambda>x. x \<noteq> t) zs = zs"
    using tm_okD(7) [OF ok, of t] by (auto intro!: filter_True)
  moreover have "runlist (claimed me t s) rs"
    using tm_okD(3) [OF ok] by (subst runlist_cong [of _ _ s]) (auto simp: claimed_fields)
  ultimately show thesis
    using that [of "claimed me t s"] tm_okD(2) [OF ok] by (simp add: claimed_fields)
qed

text \<open>A core of its own may be given; the program always does.\<close>

lemma timer_reset_ok:
  fixes s :: "'w timers" and t :: nat and e :: u64
  assumes ok: "tm_ok me zs rs cur s" and e: "e \<noteq> 0"
  defines "e' \<equiv> (ek s)(t := e)"
  obtains s' where "timer_reset me nl rnd t e per (Some me) g a s = Some (if t \<in> set rs then (-1, s) else (0, s'))"
    "t \<notin> set rs \<Longrightarrow> tm_ok me (insert_timer e' t (filter (\<lambda>x. x \<noteq> t) zs)) rs (if cur = Some t then None else cur) s'"
    "t \<notin> set rs \<Longrightarrow> ek s' = e'" "world s' = world s" "running_tim (priv_timer s' me) = running_tim (priv_timer s me)"
    "t \<notin> set rs \<Longrightarrow> updated (priv_timer s' me) \<longleftrightarrow> updated (priv_timer s me) \<or> cur = Some t"
    "\<And>x. t \<notin> set rs \<Longrightarrow> tim_f (tims s' x) = (if x = t then g else tim_f (tims s x)) \<and>
       tim_arg (tims s' x) = (if x = t then a else tim_arg (tims s x)) \<and> tim_period (tims s' x) = (if x = t then per else tim_period (tims s x))"
proof (cases "t \<in> set rs")
  case True
  then have "timer_reset me nl rnd t e per (Some me) g a s = Some (-1, s)"
    using config_state_ok [OF ok, of t] by (simp add: timer_reset_def)
  then show thesis using that [of s] True by simp
next
  case False
  obtain s1 where s1: "(if tim_state (tims s t) = RTE_TIMER_PENDING then timer_del t (nat (tim_owner (tims s t))) (claimed me t s)
      else Some (claimed me t s)) = Some s1" "same_timers (claimed me t s) s1" "pending me (filter (\<lambda>x. x \<noteq> t) zs) s1" "runlist s1 rs"
    using withdraw_ok [OF ok False] .
  define s2 where "s2 = upd_tim t (\<lambda>k. k\<lparr>tim_period := per, expire := e, tim_f := g, tim_arg := a\<rparr>) s1"
  have "pending me (filter (\<lambda>x. x \<noteq> t) zs) s2"
    using s1(3) unfolding s2_def by (subst upd_tims_frame(2)) auto
  then obtain s3 where s3: "timer_add t me rnd s2 = Some s3" "same_timers s2 s3"
      "pending me (insert_timer (ek s2) t (filter (\<lambda>x. x \<noteq> t) zs)) s3" "elsewhere me (insert t (set (filter (\<lambda>x. x \<noteq> t) zs))) s2 s3"
    using pending_add [of me "filter (\<lambda>x. x \<noteq> t) zs" s2 t rnd] by auto
  define s' where "s' = upd_tim t (\<lambda>k. k\<lparr>tim_state := RTE_TIMER_PENDING, tim_owner := int me\<rparr>) s3"
  note f1 = same_fields [OF s1(2)] and f3 = same_fields [OF s3(2)]
  have fields: "ek s' x = e' x" "tim_state (tims s' x) = (if x = t then RTE_TIMER_PENDING else tim_state (tims s x))"
      "tim_owner (tims s' x) = (if x = t then int me else tim_owner (tims s x))" for x
    by (auto simp: s'_def s2_def f1 f3 claimed_fields e'_def)
  have fields': "tim_f (tims s' x) = (if x = t then g else tim_f (tims s x)) \<and>
       tim_arg (tims s' x) = (if x = t then a else tim_arg (tims s x)) \<and> tim_period (tims s' x) = (if x = t then per else tim_period (tims s x))" for x
    by (auto simp: s'_def s2_def f1 f3 claimed_fields)
  have priv: "running_tim (priv_timer s' me) = running_tim (priv_timer s me)" "world s' = world s"
      "updated (priv_timer s' me) \<longleftrightarrow> updated (priv_timer s me) \<or> cur = Some t"
    using tm_okD(8) [OF ok, of t] False by (auto simp: s'_def s2_def f1 f3 claimed_fields)
  have run: "timer_reset me nl rnd t e per (Some me) g a s = Some (0, s')"
    using s1(1) s3(1) config_state_ok [OF ok, of t] False tm_okD(1) [OF ok]
    by (simp add: timer_reset_def claimed_def Let_def s'_def s2_def cong: if_cong)
  have "ek s2 = e'" by (auto simp: s2_def f1 claimed_fields e'_def fun_eq_iff)
  then have pend: "pending me (insert_timer e' t (filter (\<lambda>x. x \<noteq> t) zs)) s'" using s3(3) by (simp add: s'_def)
  have "nextp s' 0 (Tim x) = nextp s1 0 (Tim x)" if "x \<in> set rs" for x
    using that False tm_ok_disjoint(1) [OF ok, of x] elsewhereD(2) [OF s3(4), of x 0] by (auto simp: s'_def s2_def node_def)
  then have "runlist s' rs" using s1(4) runlist_cong by blast
  then have "tm_ok me (insert_timer e' t (filter (\<lambda>x. x \<noteq> t) zs)) rs (if cur = Some t then None else cur) s'"
    unfolding tm_ok_def using pend fields priv(1) False e tm_okD [OF ok] by (auto simp: e'_def)
  then show thesis using that [of s'] run fields fields' priv False by (simp add: fun_eq_iff)
qed

lemma timer_stop_ok:
  assumes ok: "tm_ok me zs rs cur s"
  obtains s' where "rte_timer_stop me t s = Some (if t \<in> set rs then (-1, s) else (0, s'))"
    "t \<notin> set rs \<Longrightarrow> tm_ok me (filter (\<lambda>x. x \<noteq> t) zs) rs (if cur = Some t then None else cur) s'"
    "ek s' = ek s" "world s' = world s" "running_tim (priv_timer s' me) = running_tim (priv_timer s me)"
    "tim_state (tims s' t) = (if t \<in> set rs then RTE_TIMER_RUNNING else RTE_TIMER_STOP)"
    "t \<notin> set rs \<Longrightarrow> updated (priv_timer s' me) \<longleftrightarrow> updated (priv_timer s me) \<or> cur = Some t"
    "\<And>x. tim_f (tims s' x) = tim_f (tims s x) \<and> tim_arg (tims s' x) = tim_arg (tims s x) \<and> tim_period (tims s' x) = tim_period (tims s x)"
proof (cases "t \<in> set rs")
  case True
  then have "rte_timer_stop me t s = Some (-1, s)"
    using config_state_ok [OF ok, of t] by (simp add: rte_timer_stop_def)
  then show thesis using that [of s] True tm_okD(8) [OF ok, of t] by simp
next
  case False
  obtain s1 where s1: "(if tim_state (tims s t) = RTE_TIMER_PENDING then timer_del t (nat (tim_owner (tims s t))) (claimed me t s)
      else Some (claimed me t s)) = Some s1" "same_timers (claimed me t s) s1" "pending me (filter (\<lambda>x. x \<noteq> t) zs) s1" "runlist s1 rs"
    using withdraw_ok [OF ok False] .
  define s' where "s' = upd_tim t (\<lambda>k. k\<lparr>tim_state := RTE_TIMER_STOP, tim_owner := RTE_TIMER_NO_OWNER\<rparr>) s1"
  note f1 = same_fields [OF s1(2)]
  have fields: "ek s' x = ek s x" "tim_state (tims s' x) = (if x = t then RTE_TIMER_STOP else tim_state (tims s x))"
      "tim_owner (tims s' x) = (if x = t then RTE_TIMER_NO_OWNER else tim_owner (tims s x))"
      "tim_f (tims s' x) = tim_f (tims s x) \<and> tim_arg (tims s' x) = tim_arg (tims s x) \<and> tim_period (tims s' x) = tim_period (tims s x)" for x
    by (auto simp: s'_def f1 claimed_fields)
  have priv: "running_tim (priv_timer s' me) = running_tim (priv_timer s me)" "world s' = world s"
      "updated (priv_timer s' me) \<longleftrightarrow> updated (priv_timer s me) \<or> cur = Some t"
    using tm_okD(8) [OF ok, of t] False by (auto simp: s'_def f1 claimed_fields)
  have run: "rte_timer_stop me t s = Some (0, s')"
    using s1(1) config_state_ok [OF ok, of t] False tm_okD(1) [OF ok]
    by (simp add: rte_timer_stop_def claimed_def Let_def s'_def cong: if_cong)
  have "pending me (filter (\<lambda>x. x \<noteq> t) zs) s'" using s1(3) by (simp add: s'_def)
  moreover have "runlist s' rs"
    using s1(4) runlist_cong [of rs s' s1] by (auto simp: s'_def)
  ultimately have "tm_ok me (filter (\<lambda>x. x \<noteq> t) zs) rs (if cur = Some t then None else cur) s'"
    unfolding tm_ok_def using fields priv(1) False tm_okD [OF ok] by auto
  then show thesis using that [of s'] run fields priv False by (simp add: fun_eq_iff)
qed

section \<open>Running\<close>

abbreviation first :: "nat list \<Rightarrow> nat option" where
  "first xs \<equiv> (case xs of [] \<Rightarrow> None | x # _ \<Rightarrow> Some x)"

abbreviation set_running :: "nat \<Rightarrow> nat \<Rightarrow> 'w timers \<Rightarrow> 'w timers" where
  "set_running me t s \<equiv> upd_tim t (\<lambda>k. k\<lparr>tim_state := RTE_TIMER_RUNNING, tim_owner := int me\<rparr>) s"

lemma set_running_all:
  defines "S \<equiv> \<lambda>me xs. fold (set_running me) xs"
  shows "tim_state (tims (S me xs s) x) = (if x \<in> set xs then RTE_TIMER_RUNNING else tim_state (tims s x))"
    "tim_owner (tims (S me xs s) x) = (if x \<in> set xs then int me else tim_owner (tims s x))"
    "ek (S me xs s) x = ek s x" "priv_timer (S me xs s) = priv_timer s" "world (S me xs s) = world s"
    "nextp (S me xs s) l p = nextp s l p" "pending c zs (S me xs s) = pending c zs s"
  unfolding S_def by (induction xs arbitrary: s) auto

lemma set_running_call:
  "tim_f (tims (fold (set_running me) xs s) x) = tim_f (tims s x) \<and> tim_arg (tims (fold (set_running me) xs s) x) = tim_arg (tims s x) \<and>
   tim_period (tims (fold (set_running me) xs s) x) = tim_period (tims s x)"
  by (induction xs arbitrary: s) auto

lemma mark_running_ok:
  assumes "runlist s xs" "distinct xs" "\<And>x. x \<in> set xs \<Longrightarrow> tim_state (tims s x) = RTE_TIMER_PENDING"
  shows "mark_running me (first xs) rf pp s = Some (rf, fold (set_running me) xs s)"
  using assms
proof (induction xs arbitrary: pp s)
  case Nil
  show ?case by (subst mark_running.simps) simp
next
  case (Cons x xs)
  have "runlist (set_running me x s) xs"
    using runlist_next(2) [OF Cons.prems(1)] runlist_cong [of xs "set_running me x s" s] by auto
  then have "mark_running me (first xs) rf (Some x) (set_running me x s) = Some (rf, fold (set_running me) xs (set_running me x s))"
    using Cons.prems(2,3) by (intro Cons.IH) auto
  then show ?case
    using runlist_next(1) [OF Cons.prems(1)] Cons.prems(3) [of x]
    by (subst mark_running.simps) (simp add: timer_set_running_state_def node_def Let_def)
qed

text \<open>
  What a callback may do while \<open>rte_timer_manage\<close> runs it: start and stop timers, itself included, and
  change the rest of the program, as the relation \<open>step\<close> between the world before and after the call of a
  function for a timer with an argument says.
\<close>

definition periods_ok :: "u64 \<Rightarrow> 'w timers \<Rightarrow> bool" where
  "periods_ok now s \<longleftrightarrow> (\<forall>x. tim_period (tims s x) = 0 \<or> now + tim_period (tims s x) \<noteq> 0)"

definition act_safe :: "('w \<Rightarrow> 'w \<Rightarrow> bool) \<Rightarrow> nat \<Rightarrow> u64 \<Rightarrow> nat \<Rightarrow> ('w timers \<Rightarrow> 'w timers option) \<Rightarrow> bool" where
  "act_safe step me now t act \<longleftrightarrow>
     (\<forall>s zs rs. tm_ok me zs rs (if updated (priv_timer s me) then None else Some t) s \<and> periods_ok now s \<longrightarrow>
        (\<exists>s' zs'. act s = Some s' \<and> tm_ok me zs' rs (if updated (priv_timer s' me) then None else Some t) s' \<and>
           (\<forall>x \<in> set rs. tim_f (tims s' x) = tim_f (tims s x) \<and> tim_arg (tims s' x) = tim_arg (tims s x)) \<and>
           periods_ok now s' \<and> step (world s) (world s')))"

definition cb_safe ::
  "nat set \<Rightarrow> (nat \<times> nat \<times> nat \<Rightarrow> 'w \<Rightarrow> 'w \<Rightarrow> bool) \<Rightarrow> nat \<Rightarrow> u64 \<Rightarrow> (nat \<Rightarrow> nat \<Rightarrow> nat \<Rightarrow> 'w timers \<Rightarrow> 'w timers option) \<Rightarrow> bool" where
  "cb_safe F step me now cb \<longleftrightarrow> (\<forall>g\<in>F. \<forall>t a. act_safe (step (g, t, a)) me now t (cb g t a))"

lemma act_safeD:
  assumes "act_safe step me now t act" "tm_ok me zs rs (if updated (priv_timer s me) then None else Some t) s" "periods_ok now s"
  obtains s' zs' where "act s = Some s'" "tm_ok me zs' rs (if updated (priv_timer s' me) then None else Some t) s'"
    "\<forall>x \<in> set rs. tim_f (tims s' x) = tim_f (tims s x) \<and> tim_arg (tims s' x) = tim_arg (tims s x)"
    "periods_ok now s'" "step (world s) (world s')"
  using assms unfolding act_safe_def by blast

text \<open>The world after a sequence of calls.\<close>

primrec runs :: "('c \<Rightarrow> 'w \<Rightarrow> 'w \<Rightarrow> bool) \<Rightarrow> 'c list \<Rightarrow> 'w \<Rightarrow> 'w \<Rightarrow> bool" where
  "runs step [] w w' \<longleftrightarrow> w' = w"
| "runs step (c # cs) w w' \<longleftrightarrow> (\<exists>w1. step c w w1 \<and> runs step cs w1 w')"

lemma timer_del_absent:
  assumes "pending c zs s" "t \<notin> set zs"
  shows "timer_del t c s = Some s"
proof -
  obtain L where L: "sl_ok c L s" "L 0 = zs" using assms(1) by (auto simp: pending_def)
  note links = sl_okD(1) [OF L(1)]
  note D = sl_linksD [OF links]
  let ?d = "curr_skiplist_depth (priv_timer s c)"
  have t: "t \<notin> set (L l)" for l using D(5) [of l] L(2) assms(2) by auto
  obtain prev where prev: "timer_get_prev_entries_for_node t c s = Some prev"
      "\<And>l. l < ?d \<Longrightarrow> \<exists>P Q. L l = P @ Q \<and> prev l = lastp (Head c) P"
    using entries_for_node_ok [OF links, of t] t by blast
  have none: "nextp s l (prev l) \<noteq> Some t" if l: "l < ?d" for l
  proof -
    obtain P Q where "L l = P @ Q" "prev l = lastp (Head c) P" using prev(2) [OF l] by blast
    then show ?thesis using path_next [of s l "Head c" P Q] D(1) [of l] D(7) l t [of l] by (cases Q) auto
  qed
  have "n \<le> ?d \<Longrightarrow> unlink_levels t n prev s = s" for n by (induction n) (auto simp: none)
  moreover have "lower_depth c ?d s = s"
  proof (cases ?d)
    case (Suc n)
    then have "L n \<noteq> []" using D(8) [of n] by simp
    then have "nextp s n (Head c) \<noteq> None" using D(1) [of n] D(7) Suc by (cases "L n") auto
    then show ?thesis using Suc by auto
  qed simp
  moreover have "nextp s 0 (Head c) \<noteq> Some t" using pending_first(1) [OF assms(1)] assms(2) by (cases zs) auto
  ultimately show ?thesis using prev(1) by (simp add: timer_del_def)
qed

lemma tm_ok_start:
  assumes "tm_ok me zs (t # rs) None s"
  shows "tm_ok me zs rs (Some t) (upd_priv me (\<lambda>k. k\<lparr>updated := False, running_tim := Some t\<rparr>) s)"
  using assms runlist_next(2) [of s t rs] runlist_cong [of rs "upd_priv me (\<lambda>k. k\<lparr>updated := False, running_tim := Some t\<rparr>) s" s]
  by (auto simp: tm_ok_def)

lemma tm_ok_finish:
  assumes "tm_ok me zs rs (Some t) s"
  shows "tm_ok me zs rs None (upd_tim t (\<lambda>k. k\<lparr>tim_state := RTE_TIMER_STOP, tim_owner := RTE_TIMER_NO_OWNER\<rparr>) s)"
  using assms tm_ok_disjoint(2,3) [OF assms, of t]
    runlist_cong [of rs "upd_tim t (\<lambda>k. k\<lparr>tim_state := RTE_TIMER_STOP, tim_owner := RTE_TIMER_NO_OWNER\<rparr>) s" s]
  by (auto simp: tm_ok_def)

lemma restart_ok:
  assumes ok: "tm_ok me zs rs (Some t) s" and e: "e \<noteq> 0"
  obtains s' zs' where "timer_reset me nl rnd t e per (Some me) g a
      (upd_tim t (\<lambda>k. k\<lparr>tim_state := RTE_TIMER_PENDING, tim_owner := int me\<rparr>) s) = Some (0, s')"
    "tm_ok me zs' rs None s'" "world s' = world s"
    "\<And>x. x \<in> set rs \<Longrightarrow> tim_f (tims s' x) = tim_f (tims s x) \<and> tim_arg (tims s' x) = tim_arg (tims s x)"
    "\<And>x. tim_period (tims s' x) = (if x = t then per else tim_period (tims s x))"
proof -
  let ?s0 = "upd_tim t (\<lambda>k. k\<lparr>tim_state := RTE_TIMER_STOP, tim_owner := RTE_TIMER_NO_OWNER\<rparr>) s"
    and ?s1 = "upd_tim t (\<lambda>k. k\<lparr>tim_state := RTE_TIMER_PENDING, tim_owner := int me\<rparr>) s"
    and ?s2 = "upd_tim t (\<lambda>k. k\<lparr>tim_state := RTE_TIMER_CONFIG, tim_owner := int me\<rparr>) s"
  have t: "t \<notin> set zs" "t \<notin> set rs" using tm_ok_disjoint(2,3) [OF ok] by auto
  have "pending me zs ?s2" using tm_okD(2) [OF ok] by simp
  then have "timer_del t me ?s2 = Some ?s2" using timer_del_absent t(1) by blast
  then have same: "timer_reset me nl rnd t e per (Some me) g a ?s1 = timer_reset me nl rnd t e per (Some me) g a ?s0"
    by (simp add: timer_reset_def timer_set_config_state_def Let_def)
  show thesis
  proof (rule timer_reset_ok [OF tm_ok_finish [OF ok] e, of nl rnd t per g a])
    fix s'
    let ?zs = "insert_timer ((ek ?s0)(t := e)) t (filter (\<lambda>x. x \<noteq> t) zs)"
    assume r: "timer_reset me nl rnd t e per (Some me) g a ?s0 = Some (if t \<in> set rs then (-1, ?s0) else (0, s'))"
      "t \<notin> set rs \<Longrightarrow> tm_ok me ?zs rs (if None = Some t then None else None) s'" "world s' = world ?s0"
      "\<And>x. t \<notin> set rs \<Longrightarrow> tim_f (tims s' x) = (if x = t then g else tim_f (tims ?s0 x)) \<and>
         tim_arg (tims s' x) = (if x = t then a else tim_arg (tims ?s0 x)) \<and> tim_period (tims s' x) = (if x = t then per else tim_period (tims ?s0 x))"
    show thesis
      by (rule that [of s' ?zs]) (use t(2) same r in auto)
  qed
qed

lemma run_timers_ok:
  assumes safe: "cb_safe F step me now cb"
    and ok: "tm_ok me zs rs None s" "periods_ok now s" "\<And>x. x \<in> set rs \<Longrightarrow> tim_f (tims s x) \<in> F"
  shows "\<exists>s' zs'. run_timers me nl rnd cb now (first rs) s = Some s' \<and> tm_ok me zs' [] None s' \<and>
    running_tim (priv_timer s' me) = None \<and> periods_ok now s' \<and>
    runs step (map (\<lambda>x. (tim_f (tims s x), x, tim_arg (tims s x))) rs) (world s) (world s')"
  using ok
proof (induction rs arbitrary: zs s)
  case Nil
  let ?s = "upd_priv me (\<lambda>k. k\<lparr>running_tim := None\<rparr>) s"
  have "tm_ok me zs [] None ?s" "periods_ok now ?s" using Nil by (auto simp: tm_ok_def periods_ok_def)
  then show ?case by (subst run_timers.simps) auto
next
  case (Cons t rs)
  define s1 where "s1 = upd_priv me (\<lambda>k. k\<lparr>updated := False, running_tim := Some t\<rparr>) s"
  have next_t: "sl_next (tims s t) 0 = first rs" using runlist_next(1) [OF tm_okD(3) [OF Cons.prems(1)]] by (simp add: node_def)
  have s1: "tm_ok me zs rs (Some t) s1" "\<not> updated (priv_timer s1 me)" "tims s1 = tims s" "world s1 = world s" "periods_ok now s1"
    using tm_ok_start [OF Cons.prems(1)] Cons.prems(2) by (simp_all add: s1_def periods_ok_def)
  let ?log = "\<lambda>s xs. map (\<lambda>x. (tim_f (tims s x), x, tim_arg (tims s x))) xs"
  have act: "act_safe (step (tim_f (tims s t), t, tim_arg (tims s t))) me now t (cb (tim_f (tims s t)) t (tim_arg (tims s t)))"
    using safe Cons.prems(3) [of t] by (simp add: cb_safe_def)
  obtain s2 zs2 where s2: "cb (tim_f (tims s t)) t (tim_arg (tims s t)) s1 = Some s2"
      "tm_ok me zs2 rs (if updated (priv_timer s2 me) then None else Some t) s2"
      "\<forall>x \<in> set rs. tim_f (tims s2 x) = tim_f (tims s x) \<and> tim_arg (tims s2 x) = tim_arg (tims s x)"
      "periods_ok now s2" "step (tim_f (tims s t), t, tim_arg (tims s t)) (world s) (world s2)"
    using act_safeD [OF act, of zs rs s1] s1 by auto
  have tail: "\<exists>s' zs'. run_timers me nl rnd cb now (first rs) s3 = Some s' \<and> tm_ok me zs' [] None s' \<and>
      running_tim (priv_timer s' me) = None \<and> periods_ok now s' \<and> runs step (?log s (t # rs)) (world s) (world s')"
    if "tm_ok me zs3 rs None s3" "\<And>x. x \<in> set rs \<Longrightarrow> tim_f (tims s3 x) = tim_f (tims s2 x) \<and> tim_arg (tims s3 x) = tim_arg (tims s2 x)"
      "world s3 = world s2" "periods_ok now s3" for s3 zs3
    using Cons.IH [OF that(1,4)] that(2,3) s2(3,5) Cons.prems(3) by (auto cong: map_cong)
  note run = run_timers.simps [of me nl rnd cb now "first (t # rs)" s]
  show ?case
  proof (cases "updated (priv_timer s2 me)")
    case True
    then show ?thesis using tail [of zs2 s2] s2(1,2,4) next_t by (subst run) (simp add: s1_def)
  next
    case False
    show ?thesis
    proof (cases "tim_period (tims s2 t) = 0")
      case True
      let ?s3 = "upd_tim t (\<lambda>k. k\<lparr>tim_state := RTE_TIMER_STOP, tim_owner := RTE_TIMER_NO_OWNER\<rparr>) s2"
      show ?thesis
        using tail [of zs2 ?s3] tm_ok_finish [of me zs2 rs t s2] s2(1,2,4) next_t True False
        by (subst run) (simp add: s1_def periods_ok_def)
    next
      case period: False
      then have "now + tim_period (tims s2 t) \<noteq> 0" using s2(4) by (auto simp: periods_ok_def)
      from False s2(2) have "tm_ok me zs2 rs (Some t) s2" by simp
      from restart_ok [OF this \<open>now + _ \<noteq> 0\<close>] obtain s3 zs3 where
        "timer_reset me nl (rnd t) t (now + tim_period (tims s2 t)) (tim_period (tims s2 t)) (Some me) (tim_f (tims s2 t)) (tim_arg (tims s2 t))
          (upd_tim t (\<lambda>k. k\<lparr>tim_state := RTE_TIMER_PENDING, tim_owner := int me\<rparr>) s2) = Some (0, s3)"
        "tm_ok me zs3 rs None s3" "world s3 = world s2"
        "\<And>x. x \<in> set rs \<Longrightarrow> tim_f (tims s3 x) = tim_f (tims s2 x) \<and> tim_arg (tims s3 x) = tim_arg (tims s2 x)"
        "\<And>x. tim_period (tims s3 x) = (if x = t then tim_period (tims s2 t) else tim_period (tims s2 x))" by blast
      moreover from this(5) s2(4) have "periods_ok now s3" by (simp add: periods_ok_def)
      ultimately show ?thesis using tail [of zs3 s3] s2(1) next_t period False by (subst run) (simp add: s1_def)
    qed
  qed
qed

definition idle :: "nat \<Rightarrow> nat list \<Rightarrow> 'w timers \<Rightarrow> bool" where
  "idle me zs s \<longleftrightarrow> tm_ok me zs [] None s \<and> running_tim (priv_timer s me) = None"

lemma expired_split:
  assumes ok: "idle me zs s" and z: "zs = h # zs'" and h: "ek s h \<le> now"
  defines "E \<equiv> filter (\<lambda>x. ek s x \<le> now) zs" and "M \<equiv> filter (\<lambda>x. now < ek s x) zs"
  obtains s' where "rte_timer_manage me nl rnd cb now s = run_timers me nl rnd cb now (first E) s'"
    "tm_ok me M E None s'" "world s' = world s" "\<And>x. tim_f (tims s' x) = tim_f (tims s x) \<and> tim_arg (tims s' x) = tim_arg (tims s x) \<and> tim_period (tims s' x) = tim_period (tims s x)"
proof -
  have tm: "tm_ok me zs [] None s" and idle: "running_tim (priv_timer s me) = None" using ok by (simp_all add: idle_def)
  note p = tm_okD(2) [OF tm]
  have E: "E = h # filter (\<lambda>x. ek s x \<le> now) zs'" using z h by (simp add: E_def)
  obtain prev s1 where s1: "timer_get_prev_entries now me s = Some prev"
      "s1 = split_levels me (curr_skiplist_depth (priv_timer s me)) prev s" "same_timers s s1"
      "pending me M (upd_node (Head me) (\<lambda>k. k\<lparr>expire := (case M of [] \<Rightarrow> 0 | x # _ \<Rightarrow> ek s x)\<rparr>) s1)"
      "\<And>x es. E = x # es \<Longrightarrow> path s1 0 (Tim x) es"
    using pending_split [OF p, of now] unfolding E_def M_def by metis
  define s2 where "s2 = fold (set_running me) E s1"
  define s3 where "s3 = upd_node (Head me) (\<lambda>k. k\<lparr>expire := (case nextp s2 0 (Head me) of None \<Rightarrow> 0 | Some q \<Rightarrow> ek s2 q)\<rparr>) s2"
  note f1 = same_fields [OF s1(3)] and f2 = set_running_all [where me = me and xs = E and s = s1, folded s2_def]
  have ch: "runlist s1 E" using s1(5) E by simp
  have dist: "distinct E" using pending_sorted [OF p] by (simp add: E_def)
  have "mark_running me (first E) (first E) None s1 = Some (first E, s2)"
    unfolding s2_def using tm_okD(7) [OF tm] by (intro mark_running_ok ch dist) (auto simp: f1 E_def)
  then have "rte_timer_manage me nl rnd cb now s = run_timers me nl rnd cb now (first E) s3"
    using pending_first [OF p] tm_okD(1) [OF tm] z h s1(1) E
    by (simp add: rte_timer_manage_def Let_def s1(2) [symmetric] s3_def leD)
  moreover have "nextp s2 0 (Head me) = first M"
    using pending_first(1) [OF s1(4)] f2(6) by simp
  then have head: "s3 = upd_node (Head me) (\<lambda>k. k\<lparr>expire := (case M of [] \<Rightarrow> 0 | x # _ \<Rightarrow> ek s x)\<rparr>) s2"
    by (simp add: s3_def f1 f2 split: list.splits)
  have "pending me M s3"
    by (rule pending_cong [THEN iffD2, OF _ _ _ _ s1(4)]) (simp_all add: head f2, simp_all add: upd_node_def f2)
  moreover have "runlist s3 E" using ch runlist_cong [of E s3 s1] f2(6) by (simp add: head)
  moreover have "tims s3 = tims s2" "running_tim (priv_timer s3 me) = None" "world s3 = world s"
    using idle by (simp_all add: s3_def upd_node_def f1 f2)
  moreover have "tim_f (tims s2 x) = tim_f (tims s x) \<and> tim_arg (tims s2 x) = tim_arg (tims s x) \<and> tim_period (tims s2 x) = tim_period (tims s x)" for x
    using set_running_call [of me E s1 x] by (simp add: s2_def f1)
  moreover have "x \<in> set M \<longleftrightarrow> x \<in> set zs \<and> x \<notin> set E" for x by (auto simp: M_def E_def)
  moreover have "set E \<subseteq> set zs" by (auto simp: E_def)
  ultimately show thesis
    using that [of s3] tm_okD [OF tm] dist by (auto simp: tm_ok_def f1 f2)
qed

lemma manage_ok:
  assumes "cb_safe F step me now cb" "idle me zs s" "periods_ok now s" "\<And>x. x \<in> set zs \<Longrightarrow> tim_f (tims s x) \<in> F"
  shows "\<exists>s' zs'. rte_timer_manage me nl rnd cb now s = Some s' \<and> idle me zs' s' \<and> periods_ok now s' \<and>
    runs step (map (\<lambda>x. (tim_f (tims s x), x, tim_arg (tims s x))) (takeWhile (\<lambda>x. ek s x \<le> now) zs)) (world s) (world s')"
proof -
  have ok: "tm_ok me zs [] None s" using assms(2) by (simp add: idle_def)
  note p = tm_okD(2) [OF ok]
  have me: "me < 128" using tm_okD(1) [OF ok] .
  show ?thesis
  proof (cases "zs = [] \<or> now < ek s (hd zs)")
    case True
    then have "rte_timer_manage me nl rnd cb now s = Some s" "takeWhile (\<lambda>x. ek s x \<le> now) zs = []"
      using pending_first [OF p] me by (cases zs; auto simp: rte_timer_manage_def)+
    then show ?thesis using assms(2,3) by auto
  next
    case False
    then obtain h zs0 where z: "zs = h # zs0" "ek s h \<le> now" by (cases zs) auto
    show ?thesis
    proof (rule expired_split [OF assms(2) z, of nl rnd cb])
      let ?E = "filter (\<lambda>x. ek s x \<le> now) zs" and ?M = "filter (\<lambda>x. now < ek s x) zs"
      fix s' assume r: "rte_timer_manage me nl rnd cb now s = run_timers me nl rnd cb now (first ?E) s'" "tm_ok me ?M ?E None s'"
        "world s' = world s" "\<And>x. tim_f (tims s' x) = tim_f (tims s x) \<and> tim_arg (tims s' x) = tim_arg (tims s x) \<and> tim_period (tims s' x) = tim_period (tims s x)"
      have "takeWhile (\<lambda>x. ek s x \<le> now) zs = ?E" using sorted_upto_filter(1) pending_sorted [OF p] by blast
      moreover have "periods_ok now s'" using assms(3) r(4) by (simp add: periods_ok_def)
      ultimately show ?thesis using run_timers_ok [OF assms(1) r(2), of nl rnd] r(1,3,4) assms(4) by (auto simp: idle_def)
    qed
  qed
qed

section \<open>What callbacks are made of\<close>

lemma safe_bind:
  assumes "act_safe R me now t f" "act_safe S me now t g"
  shows "act_safe (R OO S) me now t (\<lambda>s. Option.bind (f s) g)"
  unfolding act_safe_def
proof (intro allI impI, elim conjE)
  fix s :: "'a timers" and zs rs
  assume s: "tm_ok me zs rs (if updated (priv_timer s me) then None else Some t) s" "periods_ok now s"
  obtain s1 zs1 where s1: "f s = Some s1" "tm_ok me zs1 rs (if updated (priv_timer s1 me) then None else Some t) s1"
    "\<forall>x \<in> set rs. tim_f (tims s1 x) = tim_f (tims s x) \<and> tim_arg (tims s1 x) = tim_arg (tims s x)"
    "periods_ok now s1" "R (world s) (world s1)" using act_safeD [OF assms(1) s] .
  obtain s2 zs2 where "g s1 = Some s2" "tm_ok me zs2 rs (if updated (priv_timer s2 me) then None else Some t) s2"
    "\<forall>x \<in> set rs. tim_f (tims s2 x) = tim_f (tims s1 x) \<and> tim_arg (tims s2 x) = tim_arg (tims s1 x)"
    "periods_ok now s2" "S (world s1) (world s2)" using act_safeD [OF assms(2) s1(2,4)] .
  then show "\<exists>s' zs'. Option.bind (f s) g = Some s' \<and> tm_ok me zs' rs (if updated (priv_timer s' me) then None else Some t) s' \<and>
      (\<forall>x \<in> set rs. tim_f (tims s' x) = tim_f (tims s x) \<and> tim_arg (tims s' x) = tim_arg (tims s x)) \<and>
      periods_ok now s' \<and> (R OO S) (world s) (world s')"
    using s1 by auto
qed

lemma tm_ok_world [simp]: "tm_ok me zs rs cur (s\<lparr>world := w\<rparr>) = tm_ok me zs rs cur s"
proof -
  have "pending me zs (s\<lparr>world := w\<rparr>) = pending me zs s" by (rule pending_cong) auto
  moreover have "runlist (s\<lparr>world := w\<rparr>) rs = runlist s rs" by (rule runlist_cong) auto
  ultimately show ?thesis by (simp add: tm_ok_def)
qed

lemma safe_world: "act_safe (\<lambda>w w'. w' = h w) me now t (\<lambda>s. Some (s\<lparr>world := h (world s)\<rparr>))"
  by (auto simp: act_safe_def periods_ok_def)

lemma safe_weaken: "act_safe R me now t f \<Longrightarrow> (\<And>w w'. R w w' \<Longrightarrow> S w w') \<Longrightarrow> act_safe S me now t f"
  unfolding act_safe_def by blast

lemma safe_reset:
  assumes "e \<noteq> 0" "per = 0 \<or> now + per \<noteq> 0"
  shows "act_safe (\<lambda>w w'. w' = w) me now t (\<lambda>s. map_option snd (timer_reset me nl rnd u e per (Some me) g a s))"
  unfolding act_safe_def
proof (intro allI impI, elim conjE)
  fix s :: "'a timers" and zs rs
  assume s: "tm_ok me zs rs (if updated (priv_timer s me) then None else Some t) s" "periods_ok now s"
  show "\<exists>s' zs'. map_option snd (timer_reset me nl rnd u e per (Some me) g a s) = Some s' \<and>
      tm_ok me zs' rs (if updated (priv_timer s' me) then None else Some t) s' \<and>
      (\<forall>x \<in> set rs. tim_f (tims s' x) = tim_f (tims s x) \<and> tim_arg (tims s' x) = tim_arg (tims s x)) \<and>
      periods_ok now s' \<and> world s' = world s"
  proof (cases "u \<in> set rs")
    case True
    then have "timer_reset me nl rnd u e per (Some me) g a s = Some (-1, s)"
      using timer_reset_ok [OF s(1) assms(1), of nl rnd u per g a] by auto
    then show ?thesis using s by auto
  next
    case False
    let ?zs = "insert_timer ((ek s)(u := e)) u (filter (\<lambda>x. x \<noteq> u) zs)"
    show ?thesis
      by (rule timer_reset_ok [OF s(1) assms(1), of nl rnd u per g a], rule exI, rule exI [of _ ?zs])
        (use False s(2) assms(2) in \<open>auto simp: periods_ok_def split: if_splits\<close>)
  qed
qed

lemma safe_stop: "act_safe (\<lambda>w w'. w' = w) me now t (\<lambda>s. map_option snd (rte_timer_stop me u s))"
  unfolding act_safe_def
proof (intro allI impI, elim conjE)
  fix s :: "'a timers" and zs rs
  assume s: "tm_ok me zs rs (if updated (priv_timer s me) then None else Some t) s" "periods_ok now s"
  show "\<exists>s' zs'. map_option snd (rte_timer_stop me u s) = Some s' \<and>
      tm_ok me zs' rs (if updated (priv_timer s' me) then None else Some t) s' \<and>
      (\<forall>x \<in> set rs. tim_f (tims s' x) = tim_f (tims s x) \<and> tim_arg (tims s' x) = tim_arg (tims s x)) \<and>
      periods_ok now s' \<and> world s' = world s"
  proof (cases "u \<in> set rs")
    case True
    then have "rte_timer_stop me u s = Some (-1, s)" using timer_stop_ok [OF s(1), of u] by auto
    then show ?thesis using s by auto
  next
    case False
    show ?thesis
      by (rule timer_stop_ok [OF s(1), of u], rule exI, rule exI [of _ "filter (\<lambda>x. x \<noteq> u) zs"])
        (use False s(2) in \<open>auto simp: periods_ok_def split: if_splits\<close>)
  qed
qed

lemma boot_fields [simp]:
  fixes w :: 'a
  defines "s \<equiv> rte_timer_subsystem_init (timers_boot w)"
  shows "tim_state (tims s x) = RTE_TIMER_STOP" "tim_period (tims s x) = 0" "tim_f (tims s x) = 0" "tim_arg (tims s x) = 0" "ek s x = 0"
    "running_tim (priv_timer s c) = None" "world s = w"
proof -
  have "tims (fold (\<lambda>c. upd_priv c (\<lambda>k. k\<lparr>prev_lcore := c\<rparr>)) cs s) = tims s"
    "running_tim (priv_timer (fold (\<lambda>c. upd_priv c (\<lambda>k. k\<lparr>prev_lcore := c\<rparr>)) cs s) c) = running_tim (priv_timer s c)"
    "world (fold (\<lambda>c. upd_priv c (\<lambda>k. k\<lparr>prev_lcore := c\<rparr>)) cs s) = world s" for cs and s :: "'a timers"
    by (induction cs arbitrary: s) auto
  then show "tim_state (tims s x) = RTE_TIMER_STOP" "tim_period (tims s x) = 0" "tim_f (tims s x) = 0" "tim_arg (tims s x) = 0" "ek s x = 0"
    "running_tim (priv_timer s c) = None" "world s = w"
    by (simp_all add: s_def rte_timer_subsystem_init_def timers_boot_def Let_def)
qed

lemma idle_boot: "me < 128 \<Longrightarrow> idle me [] (rte_timer_subsystem_init (timers_boot w))"
  using pending_boot [of me w] by (simp add: idle_def tm_ok_def)

text \<open>Starting a timer outside \<open>rte_timer_manage\<close>.\<close>

lemma idle_reset:
  assumes "idle me zs s" "e \<noteq> 0"
  obtains s' where "timer_reset me nl rnd t e per (Some me) g a s = Some (0, s')"
    "idle me (insert_timer ((ek s)(t := e)) t (filter (\<lambda>x. x \<noteq> t) zs)) s'" "ek s' = (ek s)(t := e)" "world s' = world s"
    "\<And>x. tim_f (tims s' x) = (if x = t then g else tim_f (tims s x))" "\<And>x. tim_arg (tims s' x) = (if x = t then a else tim_arg (tims s x))"
    "\<And>x. tim_period (tims s' x) = (if x = t then per else tim_period (tims s x))"
proof -
  have ok: "tm_ok me zs [] None s" using assms(1) by (simp add: idle_def)
  show thesis
  proof (rule timer_reset_ok [OF ok assms(2), of nl rnd t per g a])
    fix s' assume "timer_reset me nl rnd t e per (Some me) g a s = Some (if t \<in> set [] then (-1, s) else (0, s'))"
      "t \<notin> set [] \<Longrightarrow> tm_ok me (insert_timer ((ek s)(t := e)) t (filter (\<lambda>x. x \<noteq> t) zs)) [] (if None = Some t then None else None) s'"
      "t \<notin> set [] \<Longrightarrow> ek s' = (ek s)(t := e)" "world s' = world s" "running_tim (priv_timer s' me) = running_tim (priv_timer s me)"
      "\<And>x. t \<notin> set [] \<Longrightarrow> tim_f (tims s' x) = (if x = t then g else tim_f (tims s x)) \<and>
         tim_arg (tims s' x) = (if x = t then a else tim_arg (tims s x)) \<and> tim_period (tims s' x) = (if x = t then per else tim_period (tims s x))"
    then show thesis using that [of s'] assms(1) by (simp add: idle_def)
  qed
qed

text \<open>
  C29. A round of \<open>rte_timer_manage\<close> on its core returns, and has called the function of exactly the timers whose
  expiry has come, each once with its own argument, oldest expiry first, even if the functions start and stop
  timers, themselves and each other. Afterwards the status of every timer again agrees with the list it is in.
\<close>

theorem manage_runs_expired:
  assumes "cb_safe F step me now cb" "idle me zs s" "periods_ok now s" "\<forall>x \<in> set zs. tim_f (tims s x) \<in> F"
  shows "\<exists>s' zs'. rte_timer_manage me nl rnd cb now s = Some s' \<and> idle me zs' s' \<and>
    runs step (map (\<lambda>x. (tim_f (tims s x), x, tim_arg (tims s x))) (takeWhile (\<lambda>x. ek s x \<le> now) zs)) (world s) (world s')"
  using manage_ok [OF assms(1-3), of nl rnd] assms(4) by auto

theorem manage_runs_expired_witness:
  "let s0 = rte_timer_subsystem_init (timers_boot []); nl = (\<lambda>_. 0); rnd = (\<lambda>_. 6) in
   \<exists>s s'. timer_reset 0 nl 6 1 5 0 (Some 0) 3 7 s0 = Some (0, s) \<and>
     rte_timer_manage 0 nl rnd (\<lambda>g t a s. Some (s\<lparr>world := world s @ [(g, t, a)]\<rparr>)) 5 s = Some s' \<and> world s' = [(3, 1, 7)]"
proof -
  let ?s0 = "rte_timer_subsystem_init (timers_boot [])" and ?nl = "\<lambda>_. 0 :: nat" and ?rnd = "\<lambda>_. 6 :: u64"
    and ?cb = "\<lambda>g t a s. Some (s\<lparr>world := world s @ [(g :: nat, t :: nat, a :: nat)]\<rparr>)"
  have safe: "cb_safe UNIV (\<lambda>c w w'. w' = w @ [c]) 0 5 ?cb"
    by (simp add: cb_safe_def safe_world [where h = "\<lambda>w. w @ [c]" for c])
  have boot: "idle 0 [] ?s0" by (rule idle_boot) simp
  show ?thesis
  proof (rule idle_reset [OF boot, of 5 ?nl 6 1 0 3 7])
    fix s :: "(nat \<times> nat \<times> nat) list timers"
    assume s: "timer_reset 0 ?nl 6 1 5 0 (Some 0) 3 7 ?s0 = Some (0, s)"
      "idle 0 (insert_timer ((ek ?s0)(1 := 5)) 1 (filter (\<lambda>x. x \<noteq> 1) [])) s" "ek s = (ek ?s0)(1 := 5)" "world s = world ?s0"
      "\<And>x. tim_f (tims s x) = (if x = 1 then 3 else tim_f (tims ?s0 x))" "\<And>x. tim_arg (tims s x) = (if x = 1 then 7 else tim_arg (tims ?s0 x))"
      "\<And>x. tim_period (tims s x) = (if x = 1 then 0 else tim_period (tims ?s0 x))"
    have one: "idle 0 [1] s" using s(2) by (simp add: insert_timer_def)
    have "periods_ok 5 s" "ek s 1 = 5" using s(7) fun_cong [OF s(3), of 1] by (simp_all add: periods_ok_def)
    with manage_runs_expired [OF safe one, of ?nl ?rnd] s show ?thesis by auto
  qed simp
qed

end
