(* ===== verification/Timer_Porting.thy ===== *)
theory Timer_Porting
  imports Rte_Timer_Run "HOL-Library.Signed_Division"
begin

unbundle bit_operations_syntax

text \<open>
  Timers and time as the ported stack sees them: \<open>porting/timer_porting.c\<close> (kernel timers),
  \<open>porting/tasklet_workqueues_porting.c\<close> (tasklets and delayed work) and \<open>porting/timing_porting.c\<close> (the
  clock \<open>jiffies\<close> and the conversions of time). A kernel timer and the \<open>rte_timer\<close> inside it have the same
  number; a delayed work has the number of its timer. The functions of the stack that timers call are
  arguments: \<open>call_function\<close> and \<open>call_work\<close>.
\<close>

section \<open>State\<close>

abbreviation (input) HZ :: u64 where "HZ \<equiv> 1000"

record timer_list =
  tl_expires :: u64
  tl_function :: nat
  tl_data :: u64

record 'k port =
  jiffies :: u64
  timer_lists :: "nat \<Rightarrow> timer_list"
  work_func :: "nat \<Rightarrow> nat"
  stack_state :: 'k

text \<open>Core, cycle counter and random numbers of one moment, and the stack's functions.\<close>

record 'k port_env =
  lcore_id :: nat
  lcore_enabled :: "nat \<Rightarrow> bool"
  next_lcore :: "nat option \<Rightarrow> nat"
  rand_of :: "nat \<Rightarrow> u64"
  cycles :: u64
  timer_hz :: u64
  call_function :: "nat \<Rightarrow> u64 \<Rightarrow> 'k port timers \<Rightarrow> 'k port timers option"
  call_work :: "nat \<Rightarrow> nat \<Rightarrow> 'k port timers \<Rightarrow> 'k port timers option"

text \<open>The callbacks this code installs, by number, and the timer of the clock.\<close>

abbreviation (input) timer_expiry_cbk_p :: nat where "timer_expiry_cbk_p \<equiv> 0"
abbreviation (input) delayed_work_expiry_cbk_p :: nat where "delayed_work_expiry_cbk_p \<equiv> 1"
abbreviation (input) systick_expiry_cbk_p :: nat where "systick_expiry_cbk_p \<equiv> 2"

definition systick :: nat where "systick = 0"

definition reset_single :: "'k port_env \<Rightarrow> nat \<Rightarrow> nat \<Rightarrow> u64 \<Rightarrow> nat \<Rightarrow> nat \<Rightarrow> 'k port timers \<Rightarrow> (int \<times> 'k port timers) option" where
  "reset_single E core t ticks fct ar =
     rte_timer_reset (lcore_id E) (next_lcore E) (lcore_enabled E) (rand_of E t) (cycles E) t ticks SINGLE (Some core) fct ar"

section \<open>Kernel timers\<close>

definition del_timer :: "'k port_env \<Rightarrow> nat \<Rightarrow> 'k port timers \<Rightarrow> (int \<times> 'k port timers) option" where
  "del_timer E t s =
     (if rte_timer_pending t s
      then do { (r, s1) \<leftarrow> rte_timer_stop (lcore_id E) t s; Some (if r = 0 then 1 else 0, s1) }
      else Some (0, s))"

definition del_timer_sync :: "'k port_env \<Rightarrow> nat \<Rightarrow> 'k port timers \<Rightarrow> (int \<times> 'k port timers) option" where
  "del_timer_sync E t s =
     (if rte_timer_pending t s then map_option (Pair 1) (rte_timer_stop_sync (lcore_id E) t s) else Some (0, s))"

definition timer_expiry_cbk :: "'k port_env \<Rightarrow> nat \<Rightarrow> 'k port timers \<Rightarrow> 'k port timers option" where
  "timer_expiry_cbk E ar s = (let k = timer_lists (world s) ar in call_function E (tl_function k) (tl_data k) s)"

definition mod_timer :: "'k port_env \<Rightarrow> nat \<Rightarrow> u64 \<Rightarrow> 'k port timers \<Rightarrow> (int \<times> 'k port timers) option" where
  "mod_timer E t expires s =
     (let pend = rte_timer_pending t s in
      do { (r, s1) \<leftarrow> reset_single E (lcore_id E) t (timer_hz E * (expires - jiffies (world s)) div HZ) timer_expiry_cbk_p t s;
           Some (if r \<noteq> 0 \<or> pend then 1 else 0, s1) })"

definition add_timer :: "'k port_env \<Rightarrow> nat \<Rightarrow> 'k port timers \<Rightarrow> 'k port timers option" where
  "add_timer E t s = map_option snd (mod_timer E t (tl_expires (timer_lists (world s) t)) s)"

definition init_timer_key :: "nat \<Rightarrow> 'w timers \<Rightarrow> 'w timers" where
  "init_timer_key t = rte_timer_init t"

section \<open>Tasklets and delayed work\<close>

record tasklet_struct =
  tasklet_next :: "nat option"
  tasklet_state :: u64
  tasklet_count :: int
  tasklet_func :: nat
  tasklet_data :: u64

definition tasklet_init :: "nat \<Rightarrow> u64 \<Rightarrow> tasklet_struct" where
  "tasklet_init fct dat = \<lparr>tasklet_next = None, tasklet_state = 0, tasklet_count = 0, tasklet_func = fct, tasklet_data = dat\<rparr>"

definition tasklet_schedule :: "'k port_env \<Rightarrow> tasklet_struct \<Rightarrow> 'k port timers \<Rightarrow> 'k port timers option" where
  "tasklet_schedule E t = call_function E (tasklet_func t) (tasklet_data t)"

definition delayed_work_timer_fn :: "'k port_env \<Rightarrow> nat \<Rightarrow> 'k port timers \<Rightarrow> 'k port timers option" where
  "delayed_work_timer_fn E wk s = call_work E (work_func (world s) wk) wk s"

definition queue_work_on :: "'k port_env \<Rightarrow> nat \<Rightarrow> 'k port timers \<Rightarrow> (bool \<times> 'k port timers) option" where
  "queue_work_on E wk s = map_option (Pair True) (delayed_work_timer_fn E wk s)"

definition delayed_work_expiry_cbk :: "'k port_env \<Rightarrow> nat \<Rightarrow> 'k port timers \<Rightarrow> 'k port timers option" where
  "delayed_work_expiry_cbk E ar = delayed_work_timer_fn E ar"

abbreviation set_expires :: "nat \<Rightarrow> u64 \<Rightarrow> 'k port \<Rightarrow> 'k port" where
  "set_expires t e w \<equiv> w\<lparr>timer_lists := (timer_lists w)(t := (timer_lists w t)\<lparr>tl_expires := e\<rparr>)\<rparr>"

definition queue_delayed_work_on :: "'k port_env \<Rightarrow> nat \<Rightarrow> u64 \<Rightarrow> 'k port timers \<Rightarrow> (bool \<times> 'k port timers) option" where
  "queue_delayed_work_on E wk delay s =
     (let e = jiffies (world s) + delay;
          s1 = s\<lparr>world := set_expires wk e (world s)\<rparr> in
      do { (r, s2) \<leftarrow> reset_single E (lcore_id E) wk (timer_hz E * e) delayed_work_expiry_cbk_p wk s1;
           Some (r = 0, s2) })"

definition mod_delayed_work_on :: "'k port_env \<Rightarrow> nat \<Rightarrow> u64 \<Rightarrow> 'k port timers \<Rightarrow> (bool \<times> 'k port timers) option" where
  "mod_delayed_work_on E wk delay s =
     (let e = jiffies (world s) + delay;
          s1 = s\<lparr>world := set_expires wk e (world s)\<rparr> in
      do { (r, s2) \<leftarrow> reset_single E (lcore_id E) wk (timer_hz E * e) delayed_work_expiry_cbk_p wk s1;
           Some (r = 0, s2) })"

definition cancel_delayed_work :: "'k port_env \<Rightarrow> nat \<Rightarrow> 'k port timers \<Rightarrow> (bool \<times> 'k port timers) option" where
  "cancel_delayed_work E wk s = do { (_, s1) \<leftarrow> rte_timer_stop (lcore_id E) wk s; Some (True, s1) }"

definition cancel_delayed_work_sync :: "'k port_env \<Rightarrow> nat \<Rightarrow> 'k port timers \<Rightarrow> (bool \<times> 'k port timers) option" where
  "cancel_delayed_work_sync E wk s = map_option (Pair True) (rte_timer_stop_sync (lcore_id E) wk s)"

section \<open>The clock\<close>

definition systick_expiry_cbk :: "'k port_env \<Rightarrow> 'k port timers \<Rightarrow> 'k port timers option" where
  "systick_expiry_cbk E s =
     map_option snd (reset_single E (lcore_id E) systick (timer_hz E div 1000) systick_expiry_cbk_p 0
       (s\<lparr>world := (world s)\<lparr>jiffies := jiffies (world s) + 1\<rparr>\<rparr>))"

definition init_systick :: "'k port_env \<Rightarrow> nat \<Rightarrow> 'k port timers \<Rightarrow> 'k port timers option" where
  "init_systick E core_id s =
     map_option snd (reset_single E core_id systick (timer_hz E div 1000) systick_expiry_cbk_p 0 (rte_timer_init systick s))"

text \<open>A call through the function pointer of a timer.\<close>

definition port_cb :: "'k port_env \<Rightarrow> nat \<Rightarrow> nat \<Rightarrow> nat \<Rightarrow> 'k port timers \<Rightarrow> 'k port timers option" where
  "port_cb E g t ar s =
     (if g = timer_expiry_cbk_p then timer_expiry_cbk E ar s
      else if g = delayed_work_expiry_cbk_p then delayed_work_expiry_cbk E ar s
      else if g = systick_expiry_cbk_p then systick_expiry_cbk E s
      else None)"

section \<open>Conversions\<close>

definition jiffies_to_usecs :: "u64 \<Rightarrow> u32" where
  "jiffies_to_usecs j = ucast (j div 1000)"

definition msecs_to_jiffies :: "u32 \<Rightarrow> u64" where
  "msecs_to_jiffies m = ucast m"

definition usecs_to_jiffies :: "u32 \<Rightarrow> u64" where
  "usecs_to_jiffies u = ucast (u * 1000)"

definition jiffies_to_msecs :: "u64 \<Rightarrow> u32" where
  "jiffies_to_msecs j = ucast j"

text \<open>
  Division of 64 by 32 bits with the instruction \<open>divl\<close>, which divides the pair of a high and a low
  word and traps (\<open>None\<close>) when the divisor is 0 or the quotient does not fit.
\<close>

definition divl :: "u32 \<Rightarrow> u32 \<Rightarrow> u32 \<Rightarrow> (u32 \<times> u32) option" where
  "divl hi lo d =
     (let n = unat hi * 2 ^ 32 + unat lo in
      if d = 0 \<or> n div unat d \<ge> 2 ^ 32 then None else Some (of_nat (n div unat d), of_nat (n mod unat d)))"

definition div_u64_rem :: "u64 \<Rightarrow> u32 \<Rightarrow> (u64 \<times> u32) option" where
  "div_u64_rem dividend divisor =
     (let upper = (ucast (drop_bit 32 dividend) :: u32); lo = (ucast dividend :: u32) in
      do { (hi_q, upper1) \<leftarrow> (if upper \<ge> divisor
                              then (if divisor = 0 then None else Some (upper div divisor, upper mod divisor))
                              else Some (0, upper));
           (lo_q, r) \<leftarrow> divl upper1 lo divisor;
           Some (push_bit 32 (ucast hi_q) OR ucast lo_q, r) })"

definition div_u64 :: "u64 \<Rightarrow> u32 \<Rightarrow> u64 option" where
  "div_u64 dividend divisor = map_option fst (div_u64_rem dividend divisor)"

definition jiffies_to_clock_t :: "u64 \<Rightarrow> u64 option" where
  "jiffies_to_clock_t x = div_u64 (x * 1000000) 10000000"

definition abs32 :: "u32 \<Rightarrow> u32" where
  "abs32 d = (if sint d < 0 then - d else d)"

definition div_s64_rem :: "u64 \<Rightarrow> u32 \<Rightarrow> (u64 \<times> u32) option" where
  "div_s64_rem dividend divisor =
     (if sint dividend < 0
      then do { (q, r) \<leftarrow> div_u64_rem (- dividend) (abs32 divisor); Some (if sint divisor > 0 then - q else q, - r) }
      else do { (q, r) \<leftarrow> div_u64_rem dividend (abs32 divisor); Some (if sint divisor < 0 then - q else q, r) })"

abbreviation (input) NSEC_PER_SEC :: "'a :: len word" where "NSEC_PER_SEC \<equiv> 1000000000"

record timespec =
  tv_sec :: u64
  tv_nsec :: u64

record kernel_timeval =
  tval_sec :: u64
  tval_usec :: u64

definition ns_to_timespec :: "u64 \<Rightarrow> timespec option" where
  "ns_to_timespec nsec =
     (if nsec = 0 then Some \<lparr>tv_sec = 0, tv_nsec = 0\<rparr>
      else do { (q, r) \<leftarrow> div_s64_rem nsec NSEC_PER_SEC;
                Some (if sint r < 0 then \<lparr>tv_sec = q - 1, tv_nsec = scast (r + NSEC_PER_SEC)\<rparr>
                      else \<lparr>tv_sec = q, tv_nsec = scast r\<rparr>) })"

definition ns_to_timeval :: "u64 \<Rightarrow> kernel_timeval option" where
  "ns_to_timeval nsec =
     map_option (\<lambda>ts. \<lparr>tval_sec = tv_sec ts, tval_usec = word_of_int (sint (tv_nsec ts) sdiv 1000)\<rparr>) (ns_to_timespec nsec)"

section \<open>Rounding\<close>

definition time_is_after_jiffies :: "u64 \<Rightarrow> u64 \<Rightarrow> bool" where
  "time_is_after_jiffies now a \<longleftrightarrow> sint (now - a) < 0"

definition round_jiffies_common :: "u64 \<Rightarrow> u64 \<Rightarrow> u32 \<Rightarrow> bool \<Rightarrow> u64" where
  "round_jiffies_common now j cpu force_up =
     (let skew = (scast (cpu * 3) :: u64);
          j1 = j + skew;
          rm = (ucast (j1 mod HZ) :: u32);
          j2 = (if sint rm < 250 \<and> \<not> force_up then j1 - scast rm else j1 - scast rm + HZ);
          j3 = j2 - skew in
      if time_is_after_jiffies now j3 then j3 else j)"

definition round_jiffies_relative_on :: "u64 \<Rightarrow> u64 \<Rightarrow> u32 \<Rightarrow> u64" where
  "round_jiffies_relative_on now j cpu = round_jiffies_common now (j + now) cpu False - now"

definition round_jiffies_relative :: "u32 \<Rightarrow> u64 \<Rightarrow> u64 \<Rightarrow> u64" where
  "round_jiffies_relative smp_processor_id now j = round_jiffies_relative_on now j smp_processor_id"

section \<open>Division and conversion are exact\<close>

lemma join_words: "push_bit 32 (ucast (a :: u32)) OR ucast (b :: u32) = (of_nat (unat a * 2 ^ 32 + unat b) :: u64)"
proof -
  have "push_bit 32 (ucast a) OR ucast b = push_bit 32 (ucast a :: u64) + ucast b"
    by (rule disjunctive_add [symmetric]) (auto simp: bit_simps dest: bit_imp_le_length)
  moreover have "push_bit 32 (ucast a :: u64) = of_nat (unat a * 2 ^ 32)" by (simp add: push_bit_eq_mult mult.commute)
  moreover have "(ucast b :: u64) = of_nat (unat b)" by simp
  ultimately show ?thesis by (metis of_nat_add)
qed

lemma two_step_division:
  fixes U l d K :: nat
  assumes "0 < d" "l < K"
  shows "((U mod d) * K + l) div d < K" "(U * K + l) div d = (U div d) * K + ((U mod d) * K + l) div d"
    "(U * K + l) mod d = ((U mod d) * K + l) mod d"
proof -
  have "(U mod d) * K + l < (U mod d + 1) * K" using assms(2) by simp
  also have "\<dots> \<le> d * K" using assms(1) by (intro mult_right_mono) (auto simp: Suc_le_eq)
  finally show "((U mod d) * K + l) div d < K" by (simp add: div_less_iff_less_mult assms(1) mult.commute)
  have "U * K + l = (U div d * d + U mod d) * K + l" by simp
  also have "\<dots> = ((U div d) * K) * d + ((U mod d) * K + l)" unfolding add_mult_distrib by (simp add: mult_ac)
  finally have *: "U * K + l = ((U div d) * K) * d + ((U mod d) * K + l)" .
  show "(U * K + l) div d = (U div d) * K + ((U mod d) * K + l) div d" "(U * K + l) mod d = ((U mod d) * K + l) mod d"
    unfolding * using assms(1) by simp_all
qed

lemma div_u64_rem_ok:
  assumes "d \<noteq> 0"
  shows "div_u64_rem n d = Some (of_nat (unat n div unat d), of_nat (unat n mod unat d))"
proof -
  define U l where "U = (ucast (drop_bit 32 n) :: u32)" and "l = (ucast n :: u32)"
  have "unat n div 2 ^ 32 < 2 ^ 32" using unsigned_less [of n] by (simp add: div_less_iff_less_mult)
  then have "unat U = unat n div 2 ^ 32" "unat l = unat n mod 2 ^ 32"
    by (simp_all add: U_def l_def unsigned_ucast_eq take_bit_eq_mod drop_bit_eq_div unat_div_distrib)
  then have U: "unat n = unat U * 2 ^ 32 + unat l" by simp
  have d: "0 < unat d" using assms by (simp add: unat_gt_0)
  have l: "unat l < 2 ^ 32" using unsigned_less [of l, where ?'a = nat] by simp
  note two = two_step_division [OF d l, of "unat U"]
  let ?q = "((unat U mod unat d) * 2 ^ 32 + unat l) div unat d"
  have q: "(if U \<ge> d then (if d = 0 then None else Some (U div d, U mod d)) else Some (0, U)) = Some (U div d, U mod d)"
    using assms by (auto simp: not_le word_unat_eq_iff unat_div_distrib unat_mod_distrib word_less_nat_alt)
  have "divl (U mod d) l d = Some (of_nat (((unat U mod unat d) * 2 ^ 32 + unat l) div unat d),
      of_nat (((unat U mod unat d) * 2 ^ 32 + unat l) mod unat d))"
    using two(1) assms by (simp add: divl_def Let_def unat_mod_distrib)
  moreover have "push_bit 32 (ucast (U div d)) OR ucast (of_nat ?q :: u32) = (of_nat (unat U div unat d * 2 ^ 32 + ?q) :: u64)"
    using two(1) unfolding join_words by (simp only: unat_div_distrib unat_of_nat) (simp add: take_bit_nat_eq_self)
  ultimately show ?thesis
    unfolding div_u64_rem_def U_def [symmetric] l_def [symmetric] Let_def q U two(2,3) by simp
qed

lemma sint_of_int_bounds: "- (2 ^ 63) \<le> k \<Longrightarrow> k < 2 ^ 63 \<Longrightarrow> sint (word_of_int k :: u64) = k"
  "- (2 ^ 31) \<le> k \<Longrightarrow> k < 2 ^ 31 \<Longrightarrow> sint (word_of_int k :: u32) = k"
  by (simp_all add: signed_of_int signed_take_bit_int_eq_self)

lemma sint_scast_up: "sint (scast (r :: u32) :: u64) = sint r"
  by (simp add: signed_scast_eq signed_take_bit_int_eq_self [OF order.trans [OF _ sint_greater_eq]] order.strict_trans2 [OF sint_less])

lemma unat_sint: "0 \<le> sint (n :: u64) \<Longrightarrow> int (unat n) = sint n" "sint (n :: u64) < 0 \<Longrightarrow> int (unat (- n)) = - sint n"
proof -
  have n: "n = word_of_int (sint n)" "- (2 ^ 63) \<le> sint n" "sint n < 2 ^ 63"
    using sint_greater_eq [of n] sint_less [of n] by simp_all
  have u: "int (unat (word_of_int k :: u64)) = k" if "0 \<le> k" "k \<le> 2 ^ 63" for k
    using that by (simp add: unsigned_of_int take_bit_int_eq_self)
  show "int (unat n) = sint n" if "0 \<le> sint n" using u [of "sint n"] that n by simp
  have "- n = word_of_int (- sint n)" by simp
  then show "int (unat (- n)) = - sint n" if "sint n < 0" using u [of "- sint n"] that n(2) by simp
qed

lemma div_s64_rem_ok:
  "div_s64_rem n NSEC_PER_SEC =
     (if sint n < 0 then Some (word_of_int (- (- sint n div 10 ^ 9)), word_of_int (- (- sint n mod 10 ^ 9)))
      else Some (word_of_int (sint n div 10 ^ 9), word_of_int (sint n mod 10 ^ 9)))"
proof -
  have w: "of_nat (k div 1000000000) = (word_of_int (int k div 10 ^ 9) :: u64)"
    "of_nat (k mod 1000000000) = (word_of_int (int k mod 10 ^ 9) :: u32)" for k
    using of_int_of_nat_eq [of "k div 1000000000", where ?'a = u64] of_int_of_nat_eq [of "k mod 1000000000", where ?'a = u32]
    by (simp_all add: zdiv_int zmod_int)
  show ?thesis
    using unat_sint [of n] by (simp add: div_s64_rem_def abs32_def div_u64_rem_ok w)
qed

definition norm_timespec :: "u64 \<Rightarrow> u32 \<Rightarrow> timespec" where
  "norm_timespec q r = (if sint r < 0 then \<lparr>tv_sec = q - 1, tv_nsec = scast (r + NSEC_PER_SEC)\<rparr> else \<lparr>tv_sec = q, tv_nsec = scast r\<rparr>)"

lemma timespec_parts:
  assumes "- (2 ^ 62) \<le> q" "q < 2 ^ 62" "- (10 ^ 9) < r" "r < 10 ^ 9"
  defines "ts \<equiv> norm_timespec (word_of_int q) (word_of_int r)"
  shows "0 \<le> sint (tv_nsec ts)" "sint (tv_nsec ts) < 1000000000" "sint (tv_sec ts) * 1000000000 + sint (tv_nsec ts) = q * 10 ^ 9 + r"
proof -
  have "sint (word_of_int r :: u32) = r" "sint (word_of_int q :: u64) = q" "sint (word_of_int q - 1 :: u64) = q - 1"
    "r < 0 \<Longrightarrow> sint (word_of_int r + NSEC_PER_SEC :: u32) = r + 10 ^ 9"
    using assms sint_of_int_bounds(1) [of q] sint_of_int_bounds(1) [of "q - 1"] sint_of_int_bounds(2) [of r]
      sint_of_int_bounds(2) [of "r + 10 ^ 9"] by simp_all
  then show "0 \<le> sint (tv_nsec ts)" "sint (tv_nsec ts) < 1000000000" "sint (tv_sec ts) * 1000000000 + sint (tv_nsec ts) = q * 10 ^ 9 + r"
    using assms(3,4) by (auto simp: ts_def norm_timespec_def sint_scast_up)
qed

text \<open>
  C32. The conversion of nanoseconds to seconds and nanoseconds is exact for every 64-bit value, negative
  ones included: the division in two 32-bit steps never traps, the nanoseconds lie between 0 and 999999999, and
  seconds and nanoseconds together are the value converted.
\<close>

theorem ns_to_timespec_exact:
  "\<exists>ts. ns_to_timespec n = Some ts \<and> 0 \<le> sint (tv_nsec ts) \<and> sint (tv_nsec ts) < 1000000000 \<and>
     sint (tv_sec ts) * 1000000000 + sint (tv_nsec ts) = sint n"
proof -
  have b: "- (2 ^ 63) \<le> sint n" "sint n < 2 ^ 63" using sint_greater_eq [of n] sint_less [of n] by simp_all
  define q r where "q = (if sint n < 0 then - (- sint n div 10 ^ 9) else sint n div 10 ^ 9)"
    and "r = (if sint n < 0 then - (- sint n mod 10 ^ 9) else sint n mod 10 ^ 9)"
  have "q * 10 ^ 9 + r = sint n" by (simp add: q_def r_def minus_div_mult_eq_mod [symmetric])
  moreover have "- (10 ^ 9) < r" "r < 10 ^ 9" by (auto simp: r_def)
  ultimately have qr: "q * 10 ^ 9 + r = sint n" "- (10 ^ 9) < r" "r < 10 ^ 9" .
  then have "- (2 ^ 62) \<le> q" "q < 2 ^ 62" using b by auto
  note parts = timespec_parts [OF this qr(2,3), unfolded qr(1)]
  have "n \<noteq> 0 \<Longrightarrow> ns_to_timespec n = Some (norm_timespec (word_of_int q) (word_of_int r))"
    by (simp add: ns_to_timespec_def div_s64_rem_ok norm_timespec_def q_def r_def)
  then show ?thesis using parts by (cases "n = 0") (auto simp: ns_to_timespec_def)
qed

section \<open>Starting kernel timers\<close>

lemma idleD: "idle me zs s \<Longrightarrow> tm_ok me zs [] None s" "idle me zs s \<Longrightarrow> rte_timer_pending t s \<longleftrightarrow> t \<in> set zs"
  by (auto simp: idle_def rte_timer_pending_def dest: tm_okD(7))

lemma idle_init:
  assumes "idle me zs s" "t \<notin> set zs"
  shows "idle me zs (rte_timer_init t s)"
  using assms by (auto simp: idle_def tm_ok_def rte_timer_init_def)

lemma reset_single_ok:
  fixes E t ticks and s :: "'k port timers"
  defines "me \<equiv> lcore_id E" and "e \<equiv> (ek s)(t := cycles E + ticks)"
  assumes ok: "idle me zs s" and en: "lcore_enabled E me" and t: "cycles E + ticks \<noteq> 0"
  obtains s' where "reset_single E me t ticks g a s = Some (0, s')" "idle me (insert_timer e t (filter (\<lambda>x. x \<noteq> t) zs)) s'"
    "ek s' = e" "world s' = world s"
proof -
  have run: "reset_single E me t ticks g a s =
      timer_reset me (next_lcore E) (rand_of E t) t (cycles E + ticks) 0 (Some me) g a s"
    using en by (simp add: reset_single_def rte_timer_reset_def me_def)
  show thesis
  proof (rule timer_reset_ok [OF idleD(1) [OF ok] t, of "next_lcore E" "rand_of E t" t 0 g a])
    fix s' assume "timer_reset me (next_lcore E) (rand_of E t) t (cycles E + ticks) 0 (Some me) g a s =
        Some (if t \<in> set [] then (-1, s) else (0, s'))"
      "t \<notin> set [] \<Longrightarrow> tm_ok me (insert_timer ((ek s)(t := cycles E + ticks)) t (filter (\<lambda>x. x \<noteq> t) zs)) [] (if None = Some t then None else None) s'"
      "t \<notin> set [] \<Longrightarrow> ek s' = (ek s)(t := cycles E + ticks)" "world s' = world s" "running_tim (priv_timer s' me) = running_tim (priv_timer s me)"
    then show thesis using that [of s'] ok run by (simp add: idle_def e_def)
  qed
qed

lemma del_timer_ok:
  assumes ok: "idle (lcore_id E) zs s"
  obtains s' where "del_timer E t s = Some (if t \<in> set zs then 1 else 0, s')" "idle (lcore_id E) (filter (\<lambda>x. x \<noteq> t) zs) s'" "world s' = world s"
proof (cases "t \<in> set zs")
  case True
  show thesis
  proof (rule timer_stop_ok [OF idleD(1) [OF ok], of t])
    fix s' assume "rte_timer_stop (lcore_id E) t s = Some (if t \<in> set [] then (-1, s) else (0, s'))"
      "t \<notin> set [] \<Longrightarrow> tm_ok (lcore_id E) (filter (\<lambda>x. x \<noteq> t) zs) [] (if None = Some t then None else None) s'"
      "world s' = world s" "running_tim (priv_timer s' (lcore_id E)) = running_tim (priv_timer s (lcore_id E))"
    then show thesis
      using that [of s'] True ok idleD(2) [OF ok, of t] by (simp add: del_timer_def idle_def)
  qed
next
  case False
  then have "filter (\<lambda>x. x \<noteq> t) zs = zs" by (auto intro: filter_True)
  then show thesis using that [of s] ok idleD(2) [OF ok, of t] False by (simp add: del_timer_def)
qed

lemma due_iff:
  assumes "idle me zs s" "t \<in> set zs"
  shows "t \<in> set (takeWhile (\<lambda>x. ek s x \<le> now) zs) \<longleftrightarrow> ek s t \<le> now"
  using sorted_upto_filter(1) pending_sorted [OF tm_okD(2) [OF idleD(1) [OF assms(1)]]] assms(2) by fastforce

lemma mod_timer_ok:
  fixes E t expires and s :: "'k port timers"
  defines "me \<equiv> lcore_id E" and "e \<equiv> cycles E + timer_hz E * (expires - jiffies (world s)) div HZ"
  assumes ok: "idle me zs s" and en: "lcore_enabled E me" and e0: "e \<noteq> 0"
  obtains s' where "mod_timer E t expires s = Some (if t \<in> set zs then 1 else 0, s')"
    "idle me (insert_timer ((ek s)(t := e)) t (filter (\<lambda>x. x \<noteq> t) zs)) s'" "ek s' t = e" "world s' = world s"
proof (rule reset_single_ok [where E = E and zs = zs and s = s and t = t
    and ticks = "timer_hz E * (expires - jiffies (world s)) div HZ" and g = timer_expiry_cbk_p and a = t])
  fix s' assume r: "reset_single E (lcore_id E) t (timer_hz E * (expires - jiffies (world s)) div HZ) timer_expiry_cbk_p t s = Some (0, s')"
    "idle (lcore_id E) (insert_timer ((ek s)(t := cycles E + timer_hz E * (expires - jiffies (world s)) div HZ)) t (filter (\<lambda>x. x \<noteq> t) zs)) s'"
    "ek s' = (ek s)(t := cycles E + timer_hz E * (expires - jiffies (world s)) div HZ)" "world s' = world s"
  show thesis
    using that [of s'] r idleD(2) [OF ok, of t] fun_cong [OF r(3), of t] by (auto simp: mod_timer_def me_def e_def Let_def)
qed (use ok en e0 in \<open>simp_all add: me_def e_def\<close>)

lemma unat_uminus: "unat (x :: u64) \<noteq> 0 \<Longrightarrow> unat (- x) = 2 ^ 64 - unat x"
proof -
  assume x: "unat x \<noteq> 0"
  have lt: "unat x < 2 ^ 64" using unsigned_less [of x, where ?'a = nat] by simp
  then have "(of_nat (2 ^ 64 - unat x) :: u64) = - x" by (subst of_nat_diff) auto
  then have "unat (- x) = unat (of_nat (2 ^ 64 - unat x) :: u64)" by simp
  also have "\<dots> = 2 ^ 64 - unat x" using x lt by (simp only: unat_of_nat) (simp add: take_bit_nat_eq_self)
  finally show ?thesis .
qed

lemma delay_exact:
  fixes hz d :: u64
  assumes "unat hz * d' < 2 ^ 64" "unat d = d'" "unat c + unat hz * d' div 1000 < 2 ^ 64"
  shows "unat (c + hz * d div HZ) = unat c + unat hz * d' div 1000"
proof -
  have "unat (hz * d) = unat hz * d'" using assms(1,2) unat_mult_lem [of hz d] by simp
  then have "unat (hz * d div HZ) = unat hz * d' div 1000" by (simp add: unat_div_distrib)
  then show ?thesis using assms(3) unat_add_lem [of c "hz * d div HZ"] by simp
qed

text \<open>A small machine to try the theorems on: one core, 3 MHz, and a stack whose functions do nothing.\<close>

definition demo_env :: "u64 \<Rightarrow> unit port_env" where
  "demo_env c = \<lparr>lcore_id = 0, lcore_enabled = (\<lambda>_. True), next_lcore = (\<lambda>_. 0), rand_of = (\<lambda>_. 6), cycles = c, timer_hz = 3000000,
     call_function = (\<lambda>_ _. Some), call_work = (\<lambda>_ _. Some)\<rparr>"

definition demo_timers :: "unit port timers" where
  "demo_timers = rte_timer_subsystem_init (timers_boot \<lparr>jiffies = 10, timer_lists = (\<lambda>_. \<lparr>tl_expires = 0, tl_function = 0, tl_data = 0\<rparr>),
     work_func = (\<lambda>_. 0), stack_state = ()\<rparr>)"

lemma demo_simps [simp]:
  "lcore_id (demo_env c) = 0" "lcore_enabled (demo_env c) = (\<lambda>_. True)" "cycles (demo_env c) = c" "timer_hz (demo_env c) = 3000000"
  "jiffies (world demo_timers) = 10" "idle 0 [] demo_timers" "ek demo_timers x = 0" "tim_period (tims demo_timers x) = 0"
  using idle_boot [of 0] by (simp_all add: demo_env_def demo_timers_def)

text \<open>
  C30. Starting a kernel timer for a jiffy that is not in the past: the call says whether the timer was
  pending, the timer is then pending to the cycle at that many jiffies from now, so that exactly the rounds of \<open>rte_timer_manage\<close>
  from that cycle on find it expired; deleting it again takes it off the list and reports that it was there.
\<close>

theorem mod_timer_due:
  fixes E and s :: "'k port timers" and t expires
  defines "me \<equiv> lcore_id E" and "wait \<equiv> unat (timer_hz E) * (unat expires - unat (jiffies (world s)))"
  assumes "idle me zs s" "lcore_enabled E me" "jiffies (world s) \<le> expires" "0 < unat (cycles E)"
    "wait < 2 ^ 64" "unat (cycles E) + wait div 1000 < 2 ^ 64"
  shows "\<exists>s' zs'. mod_timer E t expires s = Some (if t \<in> set zs then 1 else 0, s') \<and> idle me zs' s' \<and>
    (\<forall>now. t \<in> set (takeWhile (\<lambda>x. ek s' x \<le> now) zs') \<longleftrightarrow> unat (cycles E) + wait div 1000 \<le> unat now) \<and>
    (\<exists>s''. del_timer E t s' = Some (1, s'') \<and> idle me (filter (\<lambda>x. x \<noteq> t) zs) s'')"
proof -
  let ?e = "cycles E + timer_hz E * (expires - jiffies (world s)) div HZ"
  have d: "unat (expires - jiffies (world s)) = unat expires - unat (jiffies (world s))" using assms(5) by (simp add: unat_sub)
  then have e: "unat ?e = unat (cycles E) + wait div 1000"
    using delay_exact [OF _ d] assms(7,8) unfolding wait_def by blast
  then have "?e \<noteq> 0" using assms(6) by auto
  from mod_timer_ok [OF assms(3,4) [unfolded me_def] this] obtain s' where
    s': "mod_timer E t expires s = Some (if t \<in> set zs then 1 else 0, s')"
      "idle me (insert_timer ((ek s)(t := ?e)) t (filter (\<lambda>x. x \<noteq> t) zs)) s'" "ek s' t = ?e" unfolding me_def by blast
  let ?zs = "insert_timer ((ek s)(t := ?e)) t (filter (\<lambda>x. x \<noteq> t) zs)"
  have "filter (\<lambda>x. x \<noteq> t) ?zs = filter (\<lambda>x. x \<noteq> t) zs"
    by (rule insert_timer_remove) (use pending_sorted [OF tm_okD(2) [OF idleD(1) [OF assms(3)]]] in \<open>auto simp: sorted_filter\<close>)
  then obtain s'' where "del_timer E t s' = Some (1, s'')" "idle me (filter (\<lambda>x. x \<noteq> t) zs) s''"
    using del_timer_ok [OF s'(2) [unfolded me_def], of t] unfolding me_def by auto
  moreover have "t \<in> set (takeWhile (\<lambda>x. ek s' x \<le> now) ?zs) \<longleftrightarrow> unat (cycles E) + wait div 1000 \<le> unat now" for now
    using due_iff [OF s'(2), of t now] s'(3) e by (simp add: word_le_nat_alt)
  ultimately show ?thesis using s' by blast
qed

theorem mod_timer_due_witness:
  "\<exists>s' zs'. mod_timer (demo_env 100) 1 12 demo_timers = Some (0, s') \<and> idle 0 zs' s' \<and>
    (\<forall>now. 1 \<in> set (takeWhile (\<lambda>x. ek s' x \<le> now) zs') \<longleftrightarrow> 6100 \<le> unat now)"
proof -
  have "jiffies (world demo_timers) \<le> 12" by simp
  with mod_timer_due [where E = "demo_env 100" and s = demo_timers and zs = "[]" and t = 1 and expires = 12]
  show ?thesis by auto
qed

text \<open>
  A kernel timer that is started for a jiffy in the past does not expire at once: the difference of
  unsigned numbers wraps around, and the timer waits for up to 2^64/1000 cycles, some two months at 3 GHz.
\<close>

theorem mod_timer_past_waits:
  fixes E and s :: "'k port timers" and t expires
  defines "me \<equiv> lcore_id E" and "late \<equiv> unat (timer_hz E) * (unat (jiffies (world s)) - unat expires)"
  assumes "idle me zs s" "lcore_enabled E me" "expires < jiffies (world s)" "0 < late" "late \<le> 2 ^ 63"
    "0 < unat (cycles E)" "unat (cycles E) \<le> 2 ^ 63"
  shows "\<exists>s' zs'. mod_timer E t expires s = Some (if t \<in> set zs then 1 else 0, s') \<and> idle me zs' s' \<and> t \<in> set zs' \<and>
    unat (ek s' t) = unat (cycles E) + (2 ^ 64 - late) div 1000 \<and> unat (ek s' t) > unat (cycles E) + 2 ^ 53 - 1"
proof -
  let ?j = "jiffies (world s)" and ?e = "cycles E + timer_hz E * (expires - jiffies (world s)) div HZ"
  have "timer_hz E * (expires - ?j) = - (timer_hz E * (?j - expires))" by (simp add: algebra_simps)
  moreover have "unat (timer_hz E * (?j - expires)) = late"
    using assms(5,7) unat_mult_lem [of "timer_hz E" "?j - expires"] by (simp add: late_def unat_sub)
  ultimately have "unat (timer_hz E * (expires - ?j)) = 2 ^ 64 - late"
    using unat_uminus [of "timer_hz E * (?j - expires)"] assms(6) by simp
  then have "unat (timer_hz E * (expires - ?j) div HZ) = (2 ^ 64 - late) div 1000" by (simp add: unat_div_distrib)
  moreover have "(2 ^ 64 - late) div 1000 \<le> 2 ^ 64 div 1000" by (rule div_le_mono) simp
  ultimately have e: "unat ?e = unat (cycles E) + (2 ^ 64 - late) div 1000"
    using assms(9) unat_add_lem [of "cycles E" "timer_hz E * (expires - ?j) div HZ"] by simp
  then have "?e \<noteq> 0" using assms(8) by auto
  from mod_timer_ok [OF assms(3,4) [unfolded me_def] this] obtain s' where
    s': "mod_timer E t expires s = Some (if t \<in> set zs then 1 else 0, s')"
      "idle me (insert_timer ((ek s)(t := ?e)) t (filter (\<lambda>x. x \<noteq> t) zs)) s'" "ek s' t = ?e" unfolding me_def by blast
  moreover have "2 ^ 53 \<le> (2 ^ 64 - late) div 1000" using assms(7) by (simp add: less_eq_div_iff_mult_less_eq)
  ultimately show ?thesis using e by (intro exI [of _ s']) auto
qed

theorem mod_timer_past_waits_witness:
  "\<exists>s' zs'. mod_timer (demo_env 100) 1 7 demo_timers = Some (0, s') \<and> idle 0 zs' s' \<and> 1 \<in> set zs' \<and> unat (ek s' 1) > 100 + 2 ^ 53 - 1"
proof -
  have "7 < jiffies (world demo_timers)" by simp
  with mod_timer_past_waits [where E = "demo_env 100" and s = demo_timers and zs = "[]" and t = 1 and expires = 7]
  show ?thesis by auto
qed

section \<open>The clock\<close>

abbreviation keeps_jiffies :: "'k port \<Rightarrow> 'k port \<Rightarrow> bool" where
  "keeps_jiffies w w' \<equiv> jiffies w' = jiffies w"

text \<open>What the functions that the stack hands to its timers may do: use timers, and not set the clock.\<close>

definition stack_timers_ok :: "'k port_env \<Rightarrow> u64 \<Rightarrow> bool" where
  "stack_timers_ok E now \<longleftrightarrow>
     (\<forall>g d t. act_safe keeps_jiffies (lcore_id E) now t (call_function E g d)) \<and>
     (\<forall>g wk t. act_safe keeps_jiffies (lcore_id E) now t (call_work E g wk))"

definition port_step :: "nat \<times> nat \<times> nat \<Rightarrow> 'k port \<Rightarrow> 'k port \<Rightarrow> bool" where
  "port_step c w w' \<longleftrightarrow> jiffies w' = jiffies w + (if fst c = systick_expiry_cbk_p then 1 else 0)"

lemma safe_systick:
  assumes "lcore_enabled E (lcore_id E)" "cycles E + timer_hz E div 1000 \<noteq> 0"
  shows "act_safe (\<lambda>w w'. w' = w\<lparr>jiffies := jiffies w + 1\<rparr>) (lcore_id E) now t (systick_expiry_cbk E)"
proof -
  have "systick_expiry_cbk E = (\<lambda>s. Option.bind (Some (s\<lparr>world := (world s)\<lparr>jiffies := jiffies (world s) + 1\<rparr>\<rparr>))
      (\<lambda>s. map_option snd (timer_reset (lcore_id E) (next_lcore E) (rand_of E systick) systick (cycles E + timer_hz E div 1000) 0
        (Some (lcore_id E)) systick_expiry_cbk_p 0 s)))"
    using assms(1) by (simp add: fun_eq_iff systick_expiry_cbk_def reset_single_def rte_timer_reset_def)
  moreover note safe_bind [OF safe_world [where h = "\<lambda>w :: 'a port. w\<lparr>jiffies := jiffies w + 1\<rparr>"] safe_reset [OF assms(2), of 0]]
  moreover have "(\<lambda>w w'. w' = h w) OO (\<lambda>w w'. w' = w) = (\<lambda>w w'. w' = h w)" for h :: "'a port \<Rightarrow> 'a port" by auto
  ultimately show ?thesis by simp
qed

lemma safe_call:
  assumes "\<And>s. f s = g (world s) s" "\<And>w. act_safe R me now t (g w)"
  shows "act_safe R me now t f"
  using assms unfolding act_safe_def by metis

lemma port_cb_safe:
  assumes "stack_timers_ok E now" "lcore_enabled E (lcore_id E)" "cycles E + timer_hz E div 1000 \<noteq> 0"
  shows "cb_safe {0, 1, 2} port_step (lcore_id E) now (port_cb E)"
proof -
  let ?S = "\<lambda>R t f. act_safe R (lcore_id E) now t f"
  have "?S keeps_jiffies t (timer_expiry_cbk E a)" for t a
    by (rule safe_call [where g = "\<lambda>w. call_function E (tl_function (timer_lists w a)) (tl_data (timer_lists w a))"])
      (use assms(1) in \<open>simp_all add: timer_expiry_cbk_def Let_def stack_timers_ok_def\<close>)
  moreover have "?S keeps_jiffies t (delayed_work_expiry_cbk E a)" for t a
    by (rule safe_call [where g = "\<lambda>w. call_work E (work_func w a) a"])
      (use assms(1) in \<open>simp_all add: delayed_work_expiry_cbk_def delayed_work_timer_fn_def stack_timers_ok_def\<close>)
  moreover have "?S (\<lambda>w w'. jiffies w' = jiffies w + 1) t (systick_expiry_cbk E)" for t
    by (rule safe_weaken [OF safe_systick [OF assms(2,3)]]) simp
  moreover have "port_cb E 0 t a = timer_expiry_cbk E a" "port_cb E 1 t a = delayed_work_expiry_cbk E a" "port_cb E 2 t a = systick_expiry_cbk E"
      "port_step (0, t, a) = (keeps_jiffies :: 'a port \<Rightarrow> _)" "port_step (1, t, a) = (keeps_jiffies :: 'a port \<Rightarrow> _)"
      "port_step (2, t, a) = (\<lambda>(w :: 'a port) w'. jiffies w' = jiffies w + 1)" for t a
    by (simp_all add: fun_eq_iff port_cb_def port_step_def)
  ultimately show ?thesis by (simp add: cb_safe_def)
qed

lemma filter_eq_length: "distinct xs \<Longrightarrow> length (filter (\<lambda>x. x = a) xs) = (if a \<in> set xs then 1 else 0)"
  by (induction xs) (auto simp: filter_empty_conv)

lemma port_runs_jiffies:
  "runs port_step cs w w' \<Longrightarrow> jiffies w' = jiffies w + of_nat (length (filter (\<lambda>c. fst c = systick_expiry_cbk_p) cs))"
  by (induction cs arbitrary: w) (auto simp: port_step_def)

text \<open>
  C31. The clock: a round of \<open>rte_timer_manage\<close> in which the clock's timer is due advances \<open>jiffies\<close> by exactly one,
  however late the round is, and a round in which it is not due leaves it alone, whatever the other timers do.
\<close>

theorem clock_ticks:
  fixes E and s :: "'k port timers"
  defines "me \<equiv> lcore_id E"
  assumes "stack_timers_ok E now" "lcore_enabled E me" "cycles E + timer_hz E div 1000 \<noteq> 0"
    "idle me zs s" "periods_ok now s" "systick \<in> set zs"
    "\<forall>x \<in> set zs. tim_f (tims s x) \<in> {timer_expiry_cbk_p, delayed_work_expiry_cbk_p, systick_expiry_cbk_p} \<and>
       (tim_f (tims s x) = systick_expiry_cbk_p \<longleftrightarrow> x = systick)"
  shows "\<exists>s' zs'. rte_timer_manage me (next_lcore E) (rand_of E) (port_cb E) now s = Some s' \<and> idle me zs' s' \<and>
    jiffies (world s') = jiffies (world s) + (if ek s systick \<le> now then 1 else 0)"
proof -
  let ?X = "takeWhile (\<lambda>x. ek s x \<le> now) zs"
  have F: "tim_f (tims s x) \<in> {0, 1, 2}" "tim_f (tims s x) = 2 \<longleftrightarrow> x = systick" if "x \<in> set zs" for x
    using bspec [OF assms(8) that] by blast+
  from manage_ok [OF port_cb_safe [OF assms(2,3) [unfolded me_def] assms(4)] assms(5) [unfolded me_def] assms(6) F(1), of "next_lcore E" "rand_of E"]
  obtain s' zs' where s': "rte_timer_manage me (next_lcore E) (rand_of E) (port_cb E) now s = Some s'" "idle me zs' s'"
      "runs port_step (map (\<lambda>x. (tim_f (tims s x), x, tim_arg (tims s x))) ?X) (world s) (world s')"
    unfolding me_def by blast
  have "distinct ?X" using pending_sorted [OF tm_okD(2) [OF idleD(1) [OF assms(5)]]] by simp
  have "filter (\<lambda>x. tim_f (tims s x) = 2) ?X = filter (\<lambda>x. x = systick) ?X"
    by (rule filter_cong) (auto dest!: set_takeWhileD simp: F(2))
  also have "length \<dots> = (if systick \<in> set ?X then 1 else 0)"
    using \<open>distinct ?X\<close> by (rule filter_eq_length)
  also have "systick \<in> set ?X \<longleftrightarrow> ek s systick \<le> now" using due_iff [OF assms(5,7)] .
  finally have "length (filter (\<lambda>x. tim_f (tims s x) = 2) ?X) = (if ek s systick \<le> now then 1 else 0)" .
  then have "jiffies (world s') = jiffies (world s) + (if ek s systick \<le> now then 1 else 0)"
    using port_runs_jiffies [OF s'(3)] by (simp add: filter_map o_def)
  then show ?thesis using s'(1,2) by blast
qed

theorem clock_ticks_witness:
  "\<exists>s s'. init_systick (demo_env 100) 0 demo_timers = Some s \<and>
    rte_timer_manage 0 (next_lcore (demo_env 9000)) (rand_of (demo_env 9000)) (port_cb (demo_env 9000)) 9000 s = Some s' \<and>
    jiffies (world s') = 11"
proof -
  let ?E = "demo_env 9000"
  have stack: "stack_timers_ok ?E 9000" by (simp add: stack_timers_ok_def demo_env_def act_safe_def) blast
  let ?s0 = "rte_timer_init systick demo_timers"
  have run: "init_systick (demo_env 100) 0 demo_timers =
      map_option snd (timer_reset 0 (\<lambda>_. 0) 6 systick 3100 0 (Some 0) systick_expiry_cbk_p 0 ?s0)"
    by (simp add: init_systick_def reset_single_def rte_timer_reset_def demo_env_def)
  have "idle 0 [] ?s0" by (rule idle_init) simp_all
  then show ?thesis
  proof (rule idle_reset [where e = 3100 and nl = "\<lambda>_. 0" and rnd = 6 and t = systick and per = 0 and g = systick_expiry_cbk_p and a = 0])
    fix s assume s: "timer_reset 0 (\<lambda>_. 0) 6 systick 3100 0 (Some 0) systick_expiry_cbk_p 0 ?s0 = Some (0, s)"
      "idle 0 (insert_timer ((ek ?s0)(systick := 3100)) systick (filter (\<lambda>x. x \<noteq> systick) [])) s"
      "ek s = (ek ?s0)(systick := 3100)" "world s = world ?s0"
      "\<And>x. tim_f (tims s x) = (if x = systick then systick_expiry_cbk_p else tim_f (tims ?s0 x))"
      "\<And>x. tim_period (tims s x) = (if x = systick then 0 else tim_period (tims ?s0 x))"
    have one: "idle 0 [systick] s" using s(2) by (simp add: insert_timer_def)
    have "periods_ok 9000 s" "ek s systick = 3100" "jiffies (world s) = 10"
      using s(4,6) fun_cong [OF s(3), of systick] by (simp_all add: periods_ok_def rte_timer_init_def)
    with clock_ticks [of ?E 9000 "[systick]" s] stack one s(1,5) show ?thesis by (auto simp: run)
  qed simp
qed

end
