(* ===== verification/Port_Config.thy ===== *)
theory Port_Config
  imports Prelude
begin

text \<open>
  The start of the ports in \<open>porting/libinit.c\<close> and the naming and addressing of devices in \<open>drivers/net/dpdk/device.c\<close>
  and \<open>dpdk_sw_loop.c\<close>: the configuration file is read into a table, every enabled port is started, and every port of the table
  gets a network device with its addresses. What DPDK and the stack are asked to do is a trace of calls; \<open>ans h c\<close> says
  whether call \<open>c\<close> succeeds after the calls \<open>h\<close>. \<open>None\<close> stands for leaving the program and for undefined behaviour.
\<close>

section \<open>The configuration file\<close>

abbreviation (input) DEV_CONFIG_SIZE :: nat where "DEV_CONFIG_SIZE \<equiv> 128"

record dpdk_dev_config_t =
  cfg_port :: int
  ip_addr_str :: string
  ip_mask_str :: string

definition isspace :: "char \<Rightarrow> bool" where
  "isspace c \<longleftrightarrow> of_char c \<in> {9, 10, 11, 12, 13, 32 :: nat}"

definition isdigit :: "char \<Rightarrow> bool" where
  "isdigit c \<longleftrightarrow> of_char c \<in> {48..57 :: nat}"

definition digit_val :: "char \<Rightarrow> int" where
  "digit_val c = int (of_char c) - 48"

text \<open>
  The conversions of \<open>fscanf\<close>. White space is skipped first; \<open>Scan_eof\<close> when the input ends there, \<open>Scan_fail\<close> when it does not
  match. A number beyond the range of an \<open>int\<close> is undefined, and so is a word that does not fit its array of 20 characters.
\<close>

datatype 'a scan = Scan_eof | Scan_fail string | Scan_ok 'a string

definition scan_d :: "string \<Rightarrow> int scan option" where
  "scan_d inp =
     (let inp = dropWhile isspace inp in
      if inp = [] then Some Scan_eof
      else let neg = (hd inp = CHR ''-'');
               body = (if neg \<or> hd inp = CHR ''+'' then tl inp else inp);
               ds = takeWhile isdigit body;
               v = foldl (\<lambda>a c. 10 * a + digit_val c) 0 ds;
               v = (if neg then - v else v) in
           if ds = [] then Some (Scan_fail body)
           else if v \<in> {- (2 ^ 31)..<2 ^ 31} then Some (Scan_ok v (dropWhile isdigit body)) else None)"

definition scan_s :: "string \<Rightarrow> string scan option" where
  "scan_s inp =
     (let inp = dropWhile isspace inp; w = takeWhile (\<lambda>c. \<not> isspace c) inp in
      if inp = [] then Some Scan_eof
      else if length w < 20 then Some (Scan_ok w (dropWhile (\<lambda>c. \<not> isspace c) inp)) else None)"

text \<open>One \<open>fscanf\<close> for a port number, an address and a mask: its result, the entry it has filled as far as it came, and the
  rest of the input. The end of the file is noticed by a conversion that reads up to it.\<close>

definition scan_entry :: "string \<Rightarrow> dpdk_dev_config_t \<Rightarrow> (int \<times> dpdk_dev_config_t \<times> string) option" where
  "scan_entry inp e =
     do { r \<leftarrow> scan_d inp;
          case r of Scan_eof \<Rightarrow> Some (-1, e, []) | Scan_fail rest \<Rightarrow> Some (0, e, rest)
          | Scan_ok v rest \<Rightarrow>
            let e = e\<lparr>cfg_port := v\<rparr> in
            do { r \<leftarrow> scan_s rest;
                 case r of Scan_ok w rest \<Rightarrow>
                   let e = e\<lparr>ip_addr_str := w\<rparr> in
                   do { r \<leftarrow> scan_s rest;
                        case r of Scan_ok w rest \<Rightarrow> Some (3, e\<lparr>ip_mask_str := w\<rparr>, rest) | _ \<Rightarrow> Some (2, e, []) }
                 | _ \<Rightarrow> Some (1, e, []) } }"

partial_function (option) config_loop ::
  "string \<Rightarrow> bool \<Rightarrow> nat \<Rightarrow> dpdk_dev_config_t list \<Rightarrow> dpdk_dev_config_t list option" where
  "config_loop inp eof i tab =
     (if eof then Some tab
      else do { (rc, e, rest) \<leftarrow> scan_entry inp (tab ! i);
                let tab = tab[i := e];
                if rc = 0 then config_loop rest (rest = []) i tab
                else if i + 1 = DEV_CONFIG_SIZE then Some tab
                else config_loop rest (rest = []) (i + 1) tab })"

text \<open>\<open>file\<close> is \<open>None\<close> when the file cannot be opened.\<close>

definition get_dpdk_ip_stack_config :: "string option \<Rightarrow> dpdk_dev_config_t list \<Rightarrow> (int \<times> dpdk_dev_config_t list) option" where
  "get_dpdk_ip_stack_config file tab =
     (case file of None \<Rightarrow> Some (-1, tab)
      | Some inp \<Rightarrow> map_option (Pair 0) (config_loop inp False 0 (map (\<lambda>e. e\<lparr>cfg_port := -1\<rparr>) tab)))"

section \<open>Names and calls\<close>

fun dec :: "nat \<Rightarrow> string" where
  "dec n = (if n < 10 then [char_of (48 + n)] else dec (n div 10) @ [char_of (48 + n mod 10)])"

declare dec.simps [simp del]

text \<open>The interface name of a request holds 15 characters.\<close>

definition ifr_name :: "string \<Rightarrow> string option" where
  "ifr_name s = (if length s < 16 then Some s else None)"

text \<open>
  What is asked of DPDK and the stack. A device is registered with its name and whether it computes IPv4 checksums on sending;
  the fields that get the same constant for every device (its MTU, the other features, the bounds of segmentation) are not shown.
\<close>

datatype call =
    Dev_configure nat | Rx_queue_setup nat nat | Tx_queue_setup nat nat bool | Dev_start nat
  | Alloc_netdev string | Register_netdev string bool | Ring_create string
  | Sock_create | Set_addr string string | Set_mask string string | Set_mac string "u8 list"
  | Set_up string | Get_addr string | Set_forwarding string | Sock_close

type_synonym call_answers = "call list \<Rightarrow> call \<Rightarrow> bool"

definition ask :: "call_answers \<Rightarrow> call \<Rightarrow> call list \<Rightarrow> bool \<times> call list" where
  "ask ans c h = (ans h c, h @ [c])"

text \<open>Calls one after the other until one fails.\<close>

fun ask_all :: "call_answers \<Rightarrow> call list \<Rightarrow> call list \<Rightarrow> bool \<times> call list" where
  "ask_all ans [] h = (True, h)"
| "ask_all ans (c # cs) h = (if ans h c then ask_all ans cs (h @ [c]) else (False, h @ [c]))"

section \<open>Devices and their addresses\<close>

text \<open>A device is known by its name; \<open>None\<close> is the null pointer.\<close>

definition create_netdev :: "call_answers \<Rightarrow> nat \<Rightarrow> u32 \<Rightarrow> call list \<Rightarrow> string option \<times> call list" where
  "create_netdev ans port_num csum_flags h =
     (let name = ''dpdk_if'' @ dec port_num;
          (ok, h) = ask_all ans [Alloc_netdev name, Register_netdev name (csum_flags AND 0xE \<noteq> 0)] h in
      (if ok then Some name else None, h))"

text \<open>The test for a failed \<open>rte_ring_create\<close> looks at the array instead of the entry and never holds.\<close>

definition init_dpdk_sw_loop :: "call_answers \<Rightarrow> nat \<Rightarrow> call list \<Rightarrow> string option \<times> call list" where
  "init_dpdk_sw_loop ans portid h =
     (let name = ''dpdkswloop'' @ dec portid;
          (_, h) = ask ans (Ring_create name) h;
          (ok, h) = ask_all ans [Alloc_netdev name, Register_netdev name False] h in
      (if ok then Some name else None, h))"

text \<open>With no device or no socket the code closes a socket pointer that was never set.\<close>

definition with_socket :: "call_answers \<Rightarrow> string option \<Rightarrow> (string \<Rightarrow> call list \<Rightarrow> call list option) \<Rightarrow> call list \<Rightarrow> call list option" where
  "with_socket ans dev f h =
     do { name \<leftarrow> dev;
          let (ok, h) = ask ans Sock_create h;
          if ok then do { h \<leftarrow> f name h; Some (h @ [Sock_close]) } else None }"

definition set_dev_addr :: "call_answers \<Rightarrow> string option \<Rightarrow> u8 list \<Rightarrow> string \<Rightarrow> string \<Rightarrow> call list \<Rightarrow> call list option" where
  "set_dev_addr ans dev mac_addr ip msk =
     with_socket ans dev (\<lambda>dname h.
       do { name \<leftarrow> ifr_name dname;
            let (ok, h) = ask_all ans [Set_addr name ip, Set_mask name msk] h;
            if \<not> ok then Some h
            else let (_, h) = ask ans (Set_mac name mac_addr) h;
                     (ok, h) = ask_all ans [Set_up name, Get_addr name] h in
                 Some (if ok then h @ [Set_forwarding name] else h) })"

definition alias_name :: "string \<Rightarrow> int \<Rightarrow> string" where
  "alias_name dname inst = dname @ '':'' @ (if inst < 0 then ''-'' else []) @ dec (nat \<bar>inst\<bar>)"

definition add_dev_addr :: "call_answers \<Rightarrow> string option \<Rightarrow> int \<Rightarrow> string \<Rightarrow> string \<Rightarrow> call list \<Rightarrow> call list option" where
  "add_dev_addr ans dev inst ip msk =
     with_socket ans dev (\<lambda>dname h.
       do { alias \<leftarrow> ifr_name (alias_name dname inst);
            name \<leftarrow> ifr_name dname;
            Some (snd (ask_all ans [Set_addr alias ip, Set_mask name msk, Set_up alias, Get_addr alias] h)) })"

section \<open>Starting the ports\<close>

abbreviation (input) MAX_ETHPORTS :: nat where "MAX_ETHPORTS \<equiv> 32"

definition get_dpdk_config_entry :: "dpdk_dev_config_t list \<Rightarrow> int \<Rightarrow> nat option" where
  "get_dpdk_config_entry tab portnum = find (\<lambda>i. cfg_port (tab ! i) = portnum) [0..<DEV_CONFIG_SIZE]"

text \<open>
  The further addresses of a port: the entries that follow in the table, up to the first one of another port. The loop
  counts to the size of the table, but from the number of the port and not from the place of the entry.
\<close>

function alias_loop :: "call_answers \<Rightarrow> dpdk_dev_config_t list \<Rightarrow> nat \<Rightarrow> string option \<Rightarrow> nat \<Rightarrow> nat \<Rightarrow> call list \<Rightarrow> call list option" where
  "alias_loop ans tab portid dev p sub_if_idx h =
     (if \<not> sub_if_idx < DEV_CONFIG_SIZE then Some h
      else let p = p + 1 in
      if \<not> p < length tab then None
      else if cfg_port (tab ! p) \<noteq> int portid then Some h
      else do { h \<leftarrow> add_dev_addr ans dev (int sub_if_idx - int portid) (ip_addr_str (tab ! p)) (ip_mask_str (tab ! p)) h;
                alias_loop ans tab portid dev p (sub_if_idx + 1) h })"
  by pat_completeness auto
termination by (relation "measure (\<lambda>(_, _, _, _, _, sub, _). DEV_CONFIG_SIZE - sub)") auto

declare alias_loop.simps [simp del]

text \<open>The devices by port, and the calls made so far.\<close>

type_synonym port_state = "(nat \<Rightarrow> string option) \<times> call list"

definition config_device :: "call_answers \<Rightarrow> dpdk_dev_config_t list \<Rightarrow> nat \<Rightarrow> nat \<Rightarrow> u8 list \<Rightarrow> string option \<times> call list \<Rightarrow>
    (nat \<Rightarrow> string option) \<Rightarrow> port_state option" where
  "config_device ans tab portid p mac dh devs =
     (case dh of (dev, h) \<Rightarrow>
      do { h \<leftarrow> set_dev_addr ans dev mac (ip_addr_str (tab ! p)) (ip_mask_str (tab ! p)) h;
           h \<leftarrow> alias_loop ans tab portid dev p portid h;
           Some (devs(portid := dev), h) })"

definition start_port :: "call_answers \<Rightarrow> (nat \<Rightarrow> u32) \<Rightarrow> u32 \<Rightarrow> nat \<Rightarrow> call list \<Rightarrow> call list option" where
  "start_port ans capa msk portid h =
     (if \<not> bit msk portid then Some h
      else let nb = (if capa portid = 0 then 256 else 4096);
               (ok, h) = ask_all ans [Dev_configure portid, Rx_queue_setup portid nb, Tx_queue_setup portid nb (capa portid = 0), Dev_start portid] h in
           if ok then Some h else None)"

definition config_port :: "call_answers \<Rightarrow> dpdk_dev_config_t list \<Rightarrow> (nat \<Rightarrow> u32) \<Rightarrow> (nat \<Rightarrow> u8 list) \<Rightarrow> u32 \<Rightarrow> nat \<Rightarrow> port_state \<Rightarrow> port_state option" where
  "config_port ans tab capa macs msk portid s =
     (if \<not> bit msk portid then Some s
      else case get_dpdk_config_entry tab (int portid) of None \<Rightarrow> Some s
      | Some p \<Rightarrow> config_device ans tab portid p (macs portid) (create_netdev ans portid (capa portid) (snd s)) (fst s))"

text \<open>Without a port of DPDK every port of the table becomes a software loop, up to the first number that is not there.\<close>

partial_function (option) loopback_only :: "call_answers \<Rightarrow> dpdk_dev_config_t list \<Rightarrow> nat \<Rightarrow> port_state \<Rightarrow> port_state option" where
  "loopback_only ans tab portid s =
     (case get_dpdk_config_entry tab (int portid) of None \<Rightarrow> Some s
      | Some p \<Rightarrow>
        if portid < MAX_ETHPORTS
        then do { s \<leftarrow> config_device ans tab portid p (replicate 6 0) (init_dpdk_sw_loop ans portid (snd s)) (fst s);
                  loopback_only ans tab (portid + 1) s }
        else None)"

text \<open>\<open>nb\<close> is what \<open>rte_eth_dev_count\<close> answers.\<close>

definition init_ports :: "call_answers \<Rightarrow> dpdk_dev_config_t list \<Rightarrow> (nat \<Rightarrow> u32) \<Rightarrow> (nat \<Rightarrow> u8 list) \<Rightarrow> u32 \<Rightarrow> nat \<Rightarrow> port_state option" where
  "init_ports ans tab capa macs msk nb =
     (let nb_ports = (if nb > MAX_ETHPORTS then MAX_ETHPORTS else nb) in
      if nb_ports = 0 then loopback_only ans tab 0 (\<lambda>_. None, [])
      else do { h \<leftarrow> fold_opt (start_port ans capa msk) [0..<nb_ports] [];
                fold_opt (config_port ans tab capa macs msk) [0..<nb_ports] (\<lambda>_. None, h) })"

section \<open>The port mask\<close>

definition hex_val :: "char \<Rightarrow> nat option" where
  "hex_val c = (let n = of_char c in if n \<in> {48..57} then Some (n - 48) else if n \<in> {97..102} then Some (n - 87)
                 else if n \<in> {65..70} then Some (n - 55) else None)"

text \<open>\<open>strtoul\<close> to base 16: the value, capped at the greatest \<open>unsigned long\<close> and negated for a minus sign, and what follows the number.\<close>

definition strtoul16 :: "string \<Rightarrow> u64 \<times> string" where
  "strtoul16 s =
     (let t = dropWhile isspace s;
          neg = (t \<noteq> [] \<and> hd t = CHR ''-'');
          t = (if t \<noteq> [] \<and> hd t \<in> {CHR ''-'', CHR ''+''} then tl t else t);
          pre = (length t \<ge> 3 \<and> hd t = CHR ''0'' \<and> t ! 1 \<in> {CHR ''x'', CHR ''X''} \<and> hex_val (t ! 2) \<noteq> None);
          t = (if pre then drop 2 t else t);
          ds = takeWhile (\<lambda>c. hex_val c \<noteq> None) t;
          n = foldl (\<lambda>a c. 16 * a + the (hex_val c)) 0 ds in
      if ds = [] then (0, s)
      else (if n < 2 ^ 64 then (if neg then - of_nat n else of_nat n) else -1, dropWhile (\<lambda>c. hex_val c \<noteq> None) t))"

text \<open>The result is an \<open>int\<close>, stored as the unsigned mask.\<close>

definition parse_portmask :: "string \<Rightarrow> u32" where
  "parse_portmask portmask =
     (case strtoul16 portmask of (pm, end) \<Rightarrow> if portmask = [] \<or> end \<noteq> [] then -1 else if pm = 0 then -1 else ucast pm)"

text \<open>The option \<open>-p\<close> of the command line: the mask, or \<open>None\<close> when it is rejected.\<close>

definition portmask_option :: "string \<Rightarrow> u32 option" where
  "portmask_option optarg = (let msk = parse_portmask optarg in if msk = 0 then None else Some msk)"

section \<open>Reading what was written\<close>

lemma isspace_chars [simp]: "isspace (CHR '' '')" "isspace (CHR 0x0A)" "\<not> isspace (CHR ''-'')" "\<not> isspace (CHR ''+'')"
  by (simp_all add: isspace_def)

lemma digit_chars:
  assumes "d < 10"
  shows "isdigit (char_of (48 + d))" "digit_val (char_of (48 + d)) = int d"
  using assms by (simp_all add: isdigit_def digit_val_def of_char_of)

lemma isdigit_other: "isdigit c \<Longrightarrow> \<not> isspace c \<and> c \<noteq> CHR ''-'' \<and> c \<noteq> CHR ''+''"
  by (auto simp: isdigit_def isspace_def)

lemma dec_digits: "\<forall>c \<in> set (dec n). isdigit c" "dec n \<noteq> []"
  "foldl (\<lambda>a c. 10 * a + digit_val c) 0 (dec n) = int n"
proof (induction n rule: dec.induct)
  case (1 n)
  { case 1 show ?case using "1.IH"(1) digit_chars by (subst dec.simps) auto }
  { case 2 show ?case by (subst dec.simps) simp }
  { case 3 show ?case using "1.IH"(3) digit_chars by (subst dec.simps) (auto simp: zdiv_int zmod_int) }
qed

lemma scan_d_dec:
  assumes "n < 2 ^ 31" "isspace c"
  shows "scan_d (dec n @ c # rest) = Some (Scan_ok (int n) (c # rest))"
    "scan_d (CHR 0x0A # dec n @ c # rest) = Some (Scan_ok (int n) (c # rest))"
proof -
  have hd: "\<not> isspace (hd (dec n))" "hd (dec n) \<noteq> CHR ''-''" "hd (dec n) \<noteq> CHR ''+''"
    using isdigit_other dec_digits(1,2) [of n] by (meson hd_in_set)+
  then have ws: "dropWhile isspace (dec n @ c # rest) = dec n @ c # rest" using dec_digits(2) [of n] by (cases "dec n") auto
  have ds: "takeWhile isdigit (dec n @ c # rest) = dec n" "dropWhile isdigit (dec n @ c # rest) = c # rest"
    using dec_digits(1) [of n] assms(2) isdigit_other by (auto simp: takeWhile_append dropWhile_append)
  have v: "int n \<in> {- (2 ^ 31)..<2 ^ 31}" using assms(1) by simp
  show "scan_d (dec n @ c # rest) = Some (Scan_ok (int n) (c # rest))"
    "scan_d (CHR 0x0A # dec n @ c # rest) = Some (Scan_ok (int n) (c # rest))"
    using hd v dec_digits(2,3) [of n] by (simp_all add: scan_d_def Let_def ws ds)
qed

definition word_ok :: "string \<Rightarrow> bool" where
  "word_ok w \<longleftrightarrow> w \<noteq> [] \<and> (\<forall>c \<in> set w. \<not> isspace c) \<and> length w < 20"

lemma scan_s_word:
  assumes "word_ok w" "isspace b" "isspace c"
  shows "scan_s (b # w @ c # rest) = Some (Scan_ok w (c # rest))"
proof -
  have "dropWhile isspace (w @ c # rest) = w @ c # rest" using assms(1) by (cases w) (auto simp: word_ok_def)
  moreover have "takeWhile (\<lambda>c. \<not> isspace c) (w @ c # rest) = w" "dropWhile (\<lambda>c. \<not> isspace c) (w @ c # rest) = c # rest"
    using assms by (auto simp: word_ok_def takeWhile_append dropWhile_append)
  ultimately show ?thesis using assms by (simp add: scan_s_def word_ok_def)
qed

definition entry_ok :: "dpdk_dev_config_t \<Rightarrow> bool" where
  "entry_ok e \<longleftrightarrow> 0 \<le> cfg_port e \<and> cfg_port e < 2 ^ 31 \<and> word_ok (ip_addr_str e) \<and> word_ok (ip_mask_str e)"

definition print_entry :: "dpdk_dev_config_t \<Rightarrow> string" where
  "print_entry e = dec (nat (cfg_port e)) @ '' '' @ ip_addr_str e @ '' '' @ ip_mask_str e @ [CHR 0x0A]"

lemma scan_entry_print:
  assumes "entry_ok e" "ws \<in> {[], [CHR 0x0A]}"
  shows "scan_entry (ws @ print_entry e @ rest) old = Some (3, e, CHR 0x0A # rest)"
  using assms scan_d_dec [of "nat (cfg_port e)" "CHR '' ''"] scan_s_word
  by (auto simp: scan_entry_def print_entry_def entry_ok_def Let_def nat_less_iff)

lemma config_loop_print:
  assumes "\<forall>e \<in> set es. entry_ok e" "i < 128" "i + length es \<le> 128" "length tab = 128" "ws \<in> {[], [CHR 0x0A]}"
  shows "config_loop (ws @ concat (map print_entry es)) False i tab = Some (take i tab @ es @ drop (i + length es) tab)"
  using assms
proof (induction es arbitrary: i tab ws)
  case Nil
  have "scan_entry ws (tab ! i) = Some (-1, tab ! i, [])" using Nil.prems(5) by (auto simp: scan_entry_def scan_d_def)
  moreover have "config_loop [] True (Suc i) tab = Some tab" by (subst config_loop.simps) simp
  ultimately show ?case by (subst config_loop.simps) simp
next
  case (Cons e es)
  have scan: "scan_entry (ws @ concat (map print_entry (e # es))) (tab ! i) = Some (3, e, CHR 0x0A # concat (map print_entry es))"
    using scan_entry_print [of e ws "concat (map print_entry es)"] Cons.prems(1,5) by simp
  show ?case
  proof (cases "i + 1 = 128")
    case True
    then show ?thesis using scan Cons.prems(3,4) by (subst config_loop.simps) (simp add: upd_conv_take_nth_drop)
  next
    case False
    have "config_loop ([CHR 0x0A] @ concat (map print_entry es)) False (i + 1) (tab[i := e]) =
        Some (take (i + 1) (tab[i := e]) @ es @ drop (i + 1 + length es) (tab[i := e]))"
      using Cons.prems False by (intro Cons.IH) auto
    moreover have "take (i + 1) (tab[i := e]) = take i tab @ [e]" using Cons.prems(2,4) by (simp add: take_Suc_conv_app_nth)
    ultimately show ?thesis using scan False by (subst config_loop.simps) simp
  qed
qed

lemma config_read:
  assumes "\<forall>e \<in> set es. entry_ok e" "length es \<le> 128" "length tab = 128"
  shows "get_dpdk_ip_stack_config (Some (concat (map print_entry es))) tab =
    Some (0, es @ map (\<lambda>e. e\<lparr>cfg_port := -1\<rparr>) (drop (length es) tab))"
  using config_loop_print [of es 0 "map (\<lambda>e. e\<lparr>cfg_port := -1\<rparr>) tab" "[]"] assms
  by (simp add: get_dpdk_ip_stack_config_def drop_map)

text \<open>
  C37. A configuration file with one line per address is read exactly as it was written: the table holds its entries in
  order, and every further entry is marked as unused. The reading ends for every such file that the table has room for.
\<close>

theorem config_roundtrip:
  assumes "\<forall>e \<in> set es. entry_ok e" "length es \<le> 128" "length tab = 128"
  shows "get_dpdk_ip_stack_config (Some (concat (map print_entry es))) tab =
    Some (0, es @ map (\<lambda>e. e\<lparr>cfg_port := -1\<rparr>) (drop (length es) tab))"
  using assms by (rule config_read)

section \<open>The addresses of the ports\<close>

abbreviation all_well :: call_answers where
  "all_well \<equiv> \<lambda>_ _. True"

lemma ask_all_well [simp]: "ask_all all_well cs h = (True, h @ cs)"
  by (induction cs arbitrary: h) auto

lemma length_dec: "n < 1000 \<Longrightarrow> length (dec n) \<le> 3"
  by (subst dec.simps, subst dec.simps, subst dec.simps) auto

definition dev_of :: "nat \<Rightarrow> string" where
  "dev_of k = ''dpdk_if'' @ dec k"

lemma names_fit:
  assumes "k < 32" "j < 1000"
  shows "ifr_name (dev_of k) = Some (dev_of k)" "ifr_name (alias_name (dev_of k) (int j)) = Some (alias_name (dev_of k) (int j))"
proof -
  have "length (dec k) \<le> 2" using assms(1) by (subst dec.simps, subst dec.simps) auto
  then show "ifr_name (dev_of k) = Some (dev_of k)" "ifr_name (alias_name (dev_of k) (int j)) = Some (alias_name (dev_of k) (int j))"
    using length_dec [OF assms(2)] by (simp_all add: ifr_name_def dev_of_def alias_name_def)
qed

definition set_calls :: "nat \<Rightarrow> u8 list \<Rightarrow> dpdk_dev_config_t \<Rightarrow> call list" where
  "set_calls k mac e =
     [Sock_create, Set_addr (dev_of k) (ip_addr_str e), Set_mask (dev_of k) (ip_mask_str e), Set_mac (dev_of k) mac,
      Set_up (dev_of k), Get_addr (dev_of k), Set_forwarding (dev_of k), Sock_close]"

definition add_calls :: "nat \<Rightarrow> nat \<times> dpdk_dev_config_t \<Rightarrow> call list" where
  "add_calls k je =
     (case je of (j, e) \<Rightarrow> let a = alias_name (dev_of k) (int j) in
      [Sock_create, Set_addr a (ip_addr_str e), Set_mask (dev_of k) (ip_mask_str e), Set_up a, Get_addr a, Sock_close])"

lemma set_dev_addr_well: "k < 32 \<Longrightarrow>
    set_dev_addr all_well (Some (dev_of k)) mac (ip_addr_str e) (ip_mask_str e) h = Some (h @ set_calls k mac e)"
  by (simp add: set_dev_addr_def with_socket_def ask_def names_fit(1) [where j = 0] set_calls_def)

lemma add_dev_addr_well: "k < 32 \<Longrightarrow> j < 1000 \<Longrightarrow>
    add_dev_addr all_well (Some (dev_of k)) (int j) (ip_addr_str e) (ip_mask_str e) h = Some (h @ add_calls k (j, e))"
  by (simp add: add_dev_addr_def with_socket_def ask_def names_fit add_calls_def Let_def)

text \<open>The entries that follow entry \<open>p\<close> for the same port.\<close>

abbreviation run_from :: "dpdk_dev_config_t list \<Rightarrow> nat \<Rightarrow> nat \<Rightarrow> dpdk_dev_config_t list" where
  "run_from tab k p \<equiv> takeWhile (\<lambda>e. cfg_port e = int k) (drop p tab)"

lemma alias_loop_well:
  assumes "k < 32" "p + 1 + length (run_from tab k (p + 1)) < length tab" "k + j + length (run_from tab k (p + 1)) \<le> 128"
  shows "alias_loop all_well tab k (Some (dev_of k)) p (k + j) h =
    Some (h @ concat (map (add_calls k) (zip [j..<j + length (run_from tab k (p + 1))] (run_from tab k (p + 1)))))"
  using assms
proof (induction "run_from tab k (p + 1)" arbitrary: p j h)
  case Nil
  have "p + 1 < length tab" using Nil.prems(2) by simp
  then have "drop (p + 1) tab = tab ! (p + 1) # drop (p + 2) tab" by (simp add: Cons_nth_drop_Suc)
  then have "cfg_port (tab ! (p + 1)) \<noteq> int k" using Nil.hyps by (auto split: if_splits)
  then show ?case using Nil.hyps [symmetric] Nil.prems(2) by (subst alias_loop.simps) (simp add: Let_def)
next
  case (Cons e as)
  have p: "p + 1 < length tab" using Cons.prems(2) by simp
  then have "drop (p + 1) tab = tab ! (p + 1) # drop (p + 2) tab" by (simp add: Cons_nth_drop_Suc)
  then have e: "tab ! (p + 1) = e" "cfg_port e = int k" "run_from tab k (p + 2) = as" using Cons.hyps(2) by (auto split: if_splits)
  have "alias_loop all_well tab k (Some (dev_of k)) p (k + j) h =
      alias_loop all_well tab k (Some (dev_of k)) (p + 1) (k + (j + 1)) (h @ add_calls k (j, e))"
    using Cons.prems(1,3) Cons.hyps(2) [symmetric] p e(1,2) add_dev_addr_well [OF Cons.prems(1), of j e h]
    by (subst alias_loop.simps) (simp add: Let_def)
  also have "\<dots> = Some ((h @ add_calls k (j, e)) @ concat (map (add_calls k) (zip [j + 1..<j + 1 + length as] as)))"
    using Cons.hyps(1) [of "p + 1" "j + 1"] Cons.prems Cons.hyps(2) [symmetric] e(3) by simp
  finally show ?case using Cons.hyps(2) [symmetric] by (simp add: upt_conv_Cons del: upt_Suc)
qed

text \<open>The first group of entries of a port; entries of the port behind another port are not looked at.\<close>

definition port_run :: "dpdk_dev_config_t list \<Rightarrow> nat \<Rightarrow> dpdk_dev_config_t list" where
  "port_run tab k = takeWhile (\<lambda>e. cfg_port e = int k) (dropWhile (\<lambda>e. cfg_port e \<noteq> int k) tab)"

lemma config_entry_run:
  assumes "length tab = 128"
  shows "case get_dpdk_config_entry tab (int k) of None \<Rightarrow> port_run tab k = []
    | Some p \<Rightarrow> p < 128 \<and> port_run tab k = tab ! p # run_from tab k (p + 1)"
proof (cases "get_dpdk_config_entry tab (int k)")
  case None
  then have "\<forall>e \<in> set tab. cfg_port e \<noteq> int k"
    using assms by (auto simp: get_dpdk_config_entry_def find_None_iff in_set_conv_nth)
  then have "dropWhile (\<lambda>e. cfg_port e \<noteq> int k) tab = []" by (simp add: dropWhile_eq_Nil_conv)
  then show ?thesis using None by (simp add: port_run_def del: dropWhile_eq_Nil_conv)
next
  case (Some p)
  then have p: "p < 128" "cfg_port (tab ! p) = int k" "\<forall>j < p. cfg_port (tab ! j) \<noteq> int k"
    by (auto simp: get_dpdk_config_entry_def find_Some_iff)
  have "\<forall>e \<in> set (take p tab). cfg_port e \<noteq> int k" using p(3) by (auto simp: in_set_conv_nth)
  then have "dropWhile (\<lambda>e. cfg_port e \<noteq> int k) (take p tab @ drop p tab) = drop p tab"
    using p(1,2) assms by (subst dropWhile_append2) (auto simp: Cons_nth_drop_Suc [symmetric])
  then have "dropWhile (\<lambda>e. cfg_port e \<noteq> int k) tab = drop p tab" by simp
  then show ?thesis using Some p assms by (simp add: port_run_def Cons_nth_drop_Suc [symmetric])
qed

lemma run_inside:
  assumes "length tab = 128" "cfg_port (tab ! 127) = -1" "p < 128" "cfg_port (tab ! p) = int k"
  shows "p + 1 + length (run_from tab k (p + 1)) < 128"
proof (rule ccontr)
  assume long: "\<not> p + 1 + length (run_from tab k (p + 1)) < 128"
  have "p \<noteq> 127" using assms(2,4) by auto
  then have "126 - p < length (run_from tab k (p + 1))" using long assms(3) by simp
  then have "cfg_port (run_from tab k (p + 1) ! (126 - p)) = int k" by (meson nth_mem set_takeWhileD)
  moreover have "run_from tab k (p + 1) ! (126 - p) = tab ! 127"
    using \<open>126 - p < length _\<close> assms(1,3) \<open>p \<noteq> 127\<close> by (simp add: takeWhile_nth)
  ultimately show False using assms(2) by simp
qed

definition port_calls :: "(nat \<Rightarrow> u32) \<Rightarrow> (nat \<Rightarrow> u8 list) \<Rightarrow> dpdk_dev_config_t list \<Rightarrow> nat \<Rightarrow> call list" where
  "port_calls capa macs tab k =
     (case port_run tab k of [] \<Rightarrow> []
      | e # as \<Rightarrow> [Alloc_netdev (dev_of k), Register_netdev (dev_of k) (capa k AND 0xE \<noteq> 0)] @ set_calls k (macs k) e @
          concat (map (add_calls k) (zip [0..<length as] as)))"

definition table_ok :: "dpdk_dev_config_t list \<Rightarrow> bool" where
  "table_ok tab \<longleftrightarrow> length tab = 128 \<and> cfg_port (tab ! 127) = -1 \<and> (\<forall>k < 32. k + length (port_run tab k) \<le> 129)"

lemma create_netdev_well:
  "create_netdev all_well k c h = (Some (dev_of k), h @ [Alloc_netdev (dev_of k), Register_netdev (dev_of k) (c AND 0xE \<noteq> 0)])"
  by (simp add: create_netdev_def dev_of_def Let_def)

lemma config_port_well:
  assumes "table_ok tab" "k < 32"
  shows "config_port all_well tab capa macs msk k (devs, h) =
    Some (if bit msk k \<and> port_run tab k \<noteq> [] then (devs(k := Some (dev_of k)), h @ port_calls capa macs tab k) else (devs, h))"
proof (cases "bit msk k \<and> get_dpdk_config_entry tab (int k) \<noteq> None")
  case False
  then show ?thesis using config_entry_run [of tab k] assms(1) by (auto simp: config_port_def table_ok_def)
next
  case True
  then obtain p where p: "get_dpdk_config_entry tab (int k) = Some p" by auto
  have tab: "length tab = 128" "cfg_port (tab ! 127) = -1" "k + length (port_run tab k) \<le> 129" using assms by (auto simp: table_ok_def)
  note run = config_entry_run [OF tab(1), of k, unfolded p option.case]
  have port: "cfg_port (tab ! p) = int k" using p by (auto simp: get_dpdk_config_entry_def find_Some_iff)
  have "alias_loop all_well tab k (Some (dev_of k)) p (k + 0) h' =
      Some (h' @ concat (map (add_calls k) (zip [0..<0 + length (run_from tab k (p + 1))] (run_from tab k (p + 1)))))" for h'
    using run_inside [OF tab(1,2) _ port] run tab(1,3) assms(2) by (intro alias_loop_well) auto
  then show ?thesis using True p run assms(2) set_dev_addr_well [OF assms(2)]
    by (simp add: config_port_def config_device_def create_netdev_well port_calls_def)
qed

lemma config_ports_well:
  assumes "table_ok tab" "n \<le> 32"
  shows "fold_opt (config_port all_well tab capa macs msk) [0..<n] (\<lambda>_. None, h) =
    Some (\<lambda>k. if k < n \<and> bit msk k \<and> port_run tab k \<noteq> [] then Some (dev_of k) else None,
      h @ concat (map (\<lambda>k. if bit msk k then port_calls capa macs tab k else []) [0..<n]))"
  using assms(2)
proof (induction n)
  case (Suc n)
  have "config_port all_well tab capa macs msk n (devs, h') =
      Some (if bit msk n \<and> port_run tab n \<noteq> [] then (devs(n := Some (dev_of n)), h' @ port_calls capa macs tab n) else (devs, h'))" for devs h'
    using config_port_well [OF assms(1), of n] Suc.prems by simp
  moreover have "port_run tab n = [] \<Longrightarrow> port_calls capa macs tab n = []" by (simp add: port_calls_def)
  ultimately show ?case using Suc by (auto simp: fold_opt_append fun_eq_iff less_Suc_eq)
qed simp

definition start_calls :: "(nat \<Rightarrow> u32) \<Rightarrow> nat \<Rightarrow> call list" where
  "start_calls capa k = (let nb = (if capa k = 0 then 256 else 4096) in
     [Dev_configure k, Rx_queue_setup k nb, Tx_queue_setup k nb (capa k = 0), Dev_start k])"

lemma start_ports_well:
  "fold_opt (start_port all_well capa msk) [0..<n] h = Some (h @ concat (map (\<lambda>k. if bit msk k then start_calls capa k else []) [0..<n]))"
  by (induction n) (auto simp: fold_opt_append start_port_def start_calls_def Let_def)

text \<open>What a trace says about addresses and started ports.\<close>

fun addresses :: "call list \<Rightarrow> (string \<times> string) list" where
  "addresses [] = []"
| "addresses (c # cs) = (case c of Set_addr n a \<Rightarrow> [(n, a)] | _ \<Rightarrow> []) @ addresses cs"

fun started :: "call list \<Rightarrow> nat list" where
  "started [] = []"
| "started (c # cs) = (case c of Dev_start k \<Rightarrow> [k] | _ \<Rightarrow> []) @ started cs"

lemma trace_append [simp]: "addresses (g @ h) = addresses g @ addresses h" "started (g @ h) = started g @ started h"
  by (induction g) auto

lemma trace_concat: "addresses (concat hs) = concat (map addresses hs)" "started (concat hs) = concat (map started hs)"
  by (induction hs) auto

definition port_addrs :: "dpdk_dev_config_t list \<Rightarrow> nat \<Rightarrow> (string \<times> string) list" where
  "port_addrs tab k =
     (case port_run tab k of [] \<Rightarrow> []
      | e # as \<Rightarrow> (dev_of k, ip_addr_str e) # map (\<lambda>(j, e). (alias_name (dev_of k) (int j), ip_addr_str e)) (zip [0..<length as] as))"

lemma trace_port_calls: "addresses (port_calls capa macs tab k) = port_addrs tab k" "started (port_calls capa macs tab k) = []"
proof -
  have "addresses (add_calls k je) = [(\<lambda>(j, e). (alias_name (dev_of k) (int j), ip_addr_str e)) je]" "started (add_calls k je) = []" for je
    by (cases je; simp add: add_calls_def Let_def)+
  then have "addresses (concat (map (add_calls k) jes)) = map (\<lambda>(j, e). (alias_name (dev_of k) (int j), ip_addr_str e)) jes"
    "started (concat (map (add_calls k) jes)) = []" for jes by (induction jes) auto
  then show "addresses (port_calls capa macs tab k) = port_addrs tab k" "started (port_calls capa macs tab k) = []"
    by (auto simp: port_calls_def port_addrs_def set_calls_def split: list.split)
qed

lemma trace_start_calls: "addresses (start_calls capa k) = []" "started (start_calls capa k) = [k]"
  by (simp_all add: start_calls_def Let_def)

lemma port_run_unused:
  assumes "\<And>e. e \<in> set rest \<Longrightarrow> cfg_port e = -1"
  shows "port_run (es @ rest) k = port_run es k"
proof -
  have none: "takeWhile (\<lambda>e. cfg_port e = int k) rest = []" "dropWhile (\<lambda>e. cfg_port e \<noteq> int k) rest = []"
    using assms by (cases rest; auto)+
  show ?thesis
  proof (cases "\<forall>e \<in> set es. cfg_port e \<noteq> int k")
    case True
    then have "dropWhile (\<lambda>e. cfg_port e \<noteq> int k) es = []" by simp
    then show ?thesis using True none(2) by (simp add: port_run_def dropWhile_append del: dropWhile_eq_Nil_conv)
  next
    case False
    then have "dropWhile (\<lambda>e. cfg_port e \<noteq> int k) (es @ rest) = dropWhile (\<lambda>e. cfg_port e \<noteq> int k) es @ rest"
      by (auto intro: dropWhile_append1)
    moreover have "takeWhile (\<lambda>e. cfg_port e = int k) (xs @ rest) = takeWhile (\<lambda>e. cfg_port e = int k) xs" for xs
      using none(1) by (induction xs) auto
    ultimately show ?thesis by (simp add: port_run_def)
  qed
qed

lemma concat_filter_if: "concat (map (\<lambda>k. if P k then f k else []) ks) = concat (map f (filter P ks))"
  by (induction ks) auto


definition two_ports :: "dpdk_dev_config_t list" where
  "two_ports = [\<lparr>cfg_port = 1, ip_addr_str = ''10.0.0.1'', ip_mask_str = ''255.0.0.0''\<rparr>,
     \<lparr>cfg_port = 1, ip_addr_str = ''10.0.0.2'', ip_mask_str = ''255.0.0.0''\<rparr>]"

lemma two_ports_ok: "\<forall>e \<in> set two_ports. entry_ok e" "length two_ports = 2"
  by (simp_all add: two_ports_def entry_ok_def word_ok_def isspace_def)

lemma dec_small: "dec 0 = ''0''" "dec 1 = ''1''"
  by code_simp+

theorem config_roundtrip_witness:
  "get_dpdk_ip_stack_config (Some ''1 10.0.0.1 255.0.0.0\<newline>1 10.0.0.2 255.0.0.0\<newline>'')
      (replicate 128 \<lparr>cfg_port = 0, ip_addr_str = [], ip_mask_str = []\<rparr>) =
    Some (0, two_ports @ replicate 126 \<lparr>cfg_port = -1, ip_addr_str = [], ip_mask_str = []\<rparr>)"
proof -
  have "concat (map print_entry two_ports) = ''1 10.0.0.1 255.0.0.0\<newline>1 10.0.0.2 255.0.0.0\<newline>''"
    by (simp add: two_ports_def print_entry_def dec_small [simplified])
  then show ?thesis
    using config_roundtrip [OF two_ports_ok(1), of "replicate 128 \<lparr>cfg_port = 0, ip_addr_str = [], ip_mask_str = []\<rparr>"] two_ports_ok(2) by simp
qed


text \<open>A mask that is no hexadecimal number does not stop the service: it enables every port.\<close>

lemma bad_portmask: "portmask_option ''none'' = Some (-1)"
  by code_simp

end
