(* ===== verification/Iov_Copy.thy ===== *)
theory Iov_Copy
  imports Api_Data
begin

text \<open>
  The copying shims of \<open>porting/mm_porting.c\<close>: an \<open>iovec\<close> of the ported stack is not a list of address and
  length but a chain of packet buffers, so that data changes hands without being copied. Receiving appends buffers
  to the chain (\<open>memcpy_toiovec\<close>), sending hangs the segments of the chain into a socket buffer
  (\<open>memcpy_fromiovecend\<close>), and only raw sockets and headers are copied byte for byte (\<open>memcpy_fromiovecend2\<close>).
  Reading outside of the data of a buffer and writing behind the end of an array are \<open>None\<close>.
\<close>

section \<open>State\<close>

record iovec =
  iov_head :: "nat option"
  iov_tail :: "nat option"
  iov_len :: int

abbreviation (input) MAX_SKB_FRAGS :: nat where "MAX_SKB_FRAGS \<equiv> 32"

record skb_frag =
  frag_page :: nat
  page_offset :: u32
  frag_size :: u32

record sk_buff =
  frags :: "skb_frag list"
  skb_len :: u32
  skb_data_len :: u32

text \<open>The fragments up to \<open>nr_frags\<close>; the code only ever fills the next one.\<close>

definition skb_fill_page_desc :: "nat \<Rightarrow> int \<Rightarrow> int \<Rightarrow> sk_buff \<Rightarrow> sk_buff option" where
  "skb_fill_page_desc page off sz skb =
     (if length (frags skb) < MAX_SKB_FRAGS
      then Some (skb\<lparr>frags := frags skb @ [\<lparr>frag_page = page, page_offset = of_int off, frag_size = of_int sz\<rparr>]\<rparr>) else None)"

section \<open>Sending\<close>

text \<open>The argument \<open>len\<close> of these functions is not used by the code.\<close>

partial_function (option) fromiovec_loop ::
  "(nat \<Rightarrow> rte_mbuf) \<Rightarrow> nat option \<Rightarrow> int \<Rightarrow> sk_buff \<Rightarrow> sk_buff option" where
  "fromiovec_loop mb cur off skb =
     (case cur of None \<Rightarrow> Some skb
      | Some p \<Rightarrow>
        let dl = int (unat (data_len (mb p))) in
        if off < dl
        then do { skb1 \<leftarrow> skb_fill_page_desc p off (dl - off) skb;
                  fromiovec_loop mb (nxt (mb p)) 0
                    (skb1\<lparr>skb_len := skb_len skb1 + of_int (dl - off), skb_data_len := skb_data_len skb1 + of_int (dl - off)\<rparr>) }
        else fromiovec_loop mb (nxt (mb p)) (off - dl) skb)"

definition memcpy_fromiovecend :: "(nat \<Rightarrow> rte_mbuf) \<Rightarrow> iovec \<Rightarrow> int \<Rightarrow> int \<Rightarrow> sk_buff \<Rightarrow> (int \<times> sk_buff) option" where
  "memcpy_fromiovecend mb iov off len skb = map_option (Pair 0) (fromiovec_loop mb (iov_head iov) off skb)"

definition memcpy_fromiovec :: "(nat \<Rightarrow> rte_mbuf) \<Rightarrow> iovec \<Rightarrow> int \<Rightarrow> sk_buff \<Rightarrow> (int \<times> sk_buff) option" where
  "memcpy_fromiovec mb iov len skb = memcpy_fromiovecend mb iov 0 len skb"

text \<open>
  The variant with a checksum fills the same fragments; the sum of each segment is stored through
  \<open>csump\<close>, and at the end the value \<open>csump\<close> had at the start is stored there again.
\<close>

definition csum_partial_copy_fromiovecend ::
  "(nat \<Rightarrow> rte_mbuf) \<Rightarrow> iovec \<Rightarrow> int \<Rightarrow> int \<Rightarrow> u32 \<Rightarrow> sk_buff \<Rightarrow> (int \<times> u32 \<times> sk_buff) option" where
  "csum_partial_copy_fromiovecend mb iov off len csum skb =
     map_option (\<lambda>skb'. (0, csum, skb')) (fromiovec_loop mb (iov_head iov) off skb)"

section \<open>Copying bytes\<close>

definition seg_bytes :: "(nat \<Rightarrow> rte_mbuf) \<Rightarrow> nat \<Rightarrow> int \<Rightarrow> int \<Rightarrow> u8 list option" where
  "seg_bytes mb p off n =
     (if 0 \<le> off \<and> off + n \<le> int (length (data (mb p))) then Some (take (nat n) (drop (nat off) (data (mb p)))) else None)"

definition copy_bytes :: "nat \<Rightarrow> u8 list \<Rightarrow> u8 list \<Rightarrow> u8 list option" where
  "copy_bytes pos bs kdata =
     (if pos + length bs \<le> length kdata then Some (take pos kdata @ bs @ drop (pos + length bs) kdata) else None)"

partial_function (option) fromiovec2_loop ::
  "(nat \<Rightarrow> rte_mbuf) \<Rightarrow> nat option \<Rightarrow> int \<Rightarrow> int \<Rightarrow> int \<Rightarrow> u8 list \<Rightarrow> (int \<times> u8 list) option" where
  "fromiovec2_loop mb cur off len copied kdata =
     (case cur of None \<Rightarrow> Some (copied, kdata)
      | Some p \<Rightarrow>
        if \<not> copied < len then Some (copied, kdata)
        else let dl = int (unat (data_len (mb p))) in
        if off < dl
        then do { bs \<leftarrow> seg_bytes mb p off (dl - off);
                  kdata1 \<leftarrow> copy_bytes (nat copied) bs kdata;
                  fromiovec2_loop mb (nxt (mb p)) 0 len (copied + (dl - off)) kdata1 }
        else fromiovec2_loop mb (nxt (mb p)) (off - dl) len copied kdata)"

definition memcpy_fromiovecend2 :: "(nat \<Rightarrow> rte_mbuf) \<Rightarrow> iovec \<Rightarrow> int \<Rightarrow> int \<Rightarrow> u8 list \<Rightarrow> (int \<times> u8 list) option" where
  "memcpy_fromiovecend2 mb iov off len kdata =
     map_option (\<lambda>(copied, k). (if copied = len then 1 else 0, k)) (fromiovec2_loop mb (iov_head iov) off len 0 kdata)"

definition memcpy_fromiovec2 :: "(nat \<Rightarrow> rte_mbuf) \<Rightarrow> iovec \<Rightarrow> int \<Rightarrow> u8 list \<Rightarrow> (int \<times> u8 list) option" where
  "memcpy_fromiovec2 mb iov len kdata = memcpy_fromiovecend2 mb iov 0 len kdata"

section \<open>Receiving\<close>

definition rte_pktmbuf_adj :: "nat \<Rightarrow> u16 \<Rightarrow> shm \<Rightarrow> shm option" where
  "rte_pktmbuf_adj m len s =
     (if len > data_len (mbufs s m) then None
      else Some (upd_mbuf m (\<lambda>b. b\<lparr>data_len := data_len b - len, data_off := data_off b + len,
                                    pkt_len := pkt_len b - ucast len, data := drop (unat len) (data b)\<rparr>) s))"

text \<open>The result is -1 when the offset lies behind the data of the buffer.\<close>

definition memcpy_toiovec :: "nat \<Rightarrow> int \<Rightarrow> int \<Rightarrow> iovec \<times> shm \<Rightarrow> (int \<times> iovec \<times> shm) option" where
  "memcpy_toiovec m off len st =
     (case st of (iov, s) \<Rightarrow>
      case rte_pktmbuf_adj m (of_int off) s of None \<Rightarrow> Some (-1, iov, s)
      | Some s1 \<Rightarrow>
        let s2 = upd_mbuf m (\<lambda>b. b\<lparr>refcnt := refcnt b + 1\<rparr>) s1 in
        case iov_head iov of
          None \<Rightarrow>
            Some (0, iov\<lparr>iov_head := Some m, iov_tail := Some m, iov_len := iov_len iov + len\<rparr>,
                  upd_mbuf m (\<lambda>b. b\<lparr>pkt_len := ucast (data_len b), nb_segs := 1\<rparr>) s2)
        | Some h \<Rightarrow>
            if iov_tail iov \<noteq> Some m
            then do { t \<leftarrow> iov_tail iov;
                      let s3 = upd_mbuf t (\<lambda>b. b\<lparr>nxt := Some m\<rparr>) s2;
                      Some (0, iov\<lparr>iov_tail := Some m, iov_len := iov_len iov + len\<rparr>,
                            upd_mbuf h (\<lambda>b. b\<lparr>pkt_len := pkt_len b + ucast (data_len (mbufs s3 m)), nb_segs := nb_segs b + 1\<rparr>) s3) }
            else Some (0, iov\<lparr>iov_len := iov_len iov + len\<rparr>, s2))"

text \<open>A sequence of calls, each for a buffer and an offset into it, until one of them fails.\<close>

definition deliver :: "nat \<times> int \<Rightarrow> iovec \<times> shm \<Rightarrow> (iovec \<times> shm) option" where
  "deliver x st =
     (case x of (m, off) \<Rightarrow>
      do { (r, st1) \<leftarrow> memcpy_toiovec m off (int (unat (data_len (mbufs (snd st) m))) - off) st; if r = 0 then Some st1 else None })"

section \<open>Copying out a chain\<close>

lemma copy_bytes_append:
  assumes "length old + length bs \<le> length kdata"
  shows "copy_bytes (length old) bs (old @ drop (length old) kdata) = Some ((old @ bs) @ drop (length (old @ bs)) kdata)"
  using assms by (simp add: copy_bytes_def add.commute)

lemma fromiovec2_ok:
  assumes "chain mb cur bs" "filled mb bs" "chain_len mb bs + length old = n" "n \<le> length kdata"
  shows "fromiovec2_loop mb cur 0 (int n) (int (length old)) (old @ drop (length old) kdata) =
    Some (int n, (old @ payload mb bs) @ drop n kdata)"
  using assms
proof (induction bs arbitrary: cur old)
  case Nil
  then show ?case by (subst fromiovec2_loop.simps) (simp add: chain_len_def)
next
  case (Cons b bs)
  let ?x = "take (seg_len mb b) (data (mb b))"
  have len: "length ?x = seg_len mb b" using Cons.prems(2) by (simp add: filled_def)
  have tail: "chain mb (nxt (mb b)) bs" "filled mb bs" using Cons.prems(1,2) by (auto simp: filled_def)
  note run = fromiovec2_loop.simps [of mb cur 0 "int n" "int (length old)"]
  show ?case
  proof (cases "length old = n")
    case True
    then have "payload mb (b # bs) = []"
      using Cons.prems(3) length_payload [OF Cons.prems(2)] by (metis add_cancel_left_left length_0_conv)
    then show ?thesis using Cons.prems(1) True by (subst run) simp
  next
    case False
    then have lt: "length old < n" using Cons.prems(3) by simp
    show ?thesis
    proof (cases "seg_len mb b = 0")
      case True
      then have "payload mb (b # bs) = payload mb bs" "chain_len mb bs + length old = n" using Cons.prems(3) by (simp_all add: chain_len_def)
      then show ?thesis using Cons.IH [OF tail, of old] Cons.prems(1,4) lt True by (subst run) (simp add: Let_def del: of_nat_unat)
    next
      case False
      have n: "chain_len mb bs + length (old @ ?x) = n" using Cons.prems(3) len by (simp add: chain_len_def)
      then have "copy_bytes (length old) ?x (old @ drop (length old) kdata) = Some ((old @ ?x) @ drop (length (old @ ?x)) kdata)"
        using Cons.prems(4) by (intro copy_bytes_append) simp
      moreover have "seg_bytes mb b 0 (int (seg_len mb b)) = Some ?x"
        using Cons.prems(2) by (simp add: seg_bytes_def filled_def del: of_nat_unat)
      ultimately show ?thesis
        using Cons.IH [OF tail n Cons.prems(4)] Cons.prems(1) lt False len by (subst run) (simp add: Let_def del: of_nat_unat)
    qed
  qed
qed

section \<open>Hanging a chain into a socket buffer\<close>

definition frag_bytes :: "(nat \<Rightarrow> rte_mbuf) \<Rightarrow> 'a sk_buff_scheme \<Rightarrow> u8 list" where
  "frag_bytes mb skb =
     concat (map (\<lambda>fr. take (unat (frag_size fr)) (drop (unat (page_offset fr)) (data (mb (frag_page fr))))) (frags skb))"

lemma fromiovec_ok:
  assumes "chain mb cur bs" "length (frags skb) + length bs \<le> MAX_SKB_FRAGS"
  shows "\<exists>skb'. fromiovec_loop mb cur 0 skb = Some skb' \<and> frag_bytes mb skb' = frag_bytes mb skb @ payload mb bs \<and>
    skb_len skb' = skb_len skb + of_nat (chain_len mb bs) \<and> skb_data_len skb' = skb_data_len skb + of_nat (chain_len mb bs)"
  using assms
proof (induction bs arbitrary: cur skb)
  case Nil
  then show ?case by (subst fromiovec_loop.simps) (simp add: chain_len_def)
next
  case (Cons b bs)
  let ?n = "seg_len mb b"
  note run = fromiovec_loop.simps [of mb cur 0 skb]
  have tail: "chain mb (nxt (mb b)) bs" using Cons.prems(1) by simp
  show ?case
  proof (cases "?n = 0")
    case True
    then show ?thesis
      using Cons.IH [OF tail, of skb] Cons.prems by (subst run) (simp add: Let_def chain_len_def del: of_nat_unat)
  next
    case False
    let ?fr = "\<lparr>frag_page = b, page_offset = 0, frag_size = of_nat ?n\<rparr>"
    let ?skb = "skb\<lparr>frags := frags skb @ [?fr], skb_len := skb_len skb + of_nat ?n, skb_data_len := skb_data_len skb + of_nat ?n\<rparr>"
    have "unat (of_nat ?n :: u32) = ?n"
      by (simp add: unsigned_ucast_eq take_bit_nat_eq_self_iff unsigned_less [THEN order.strict_trans2])
    then have "frag_bytes mb ?skb = frag_bytes mb skb @ take ?n (data (mb b))" by (simp add: frag_bytes_def)
    moreover have "fromiovec_loop mb cur 0 skb = fromiovec_loop mb (nxt (mb b)) 0 ?skb"
      using Cons.prems False by (subst run) (simp add: Let_def skb_fill_page_desc_def del: of_nat_unat)
    ultimately show ?thesis
      using Cons.IH [OF tail, of ?skb] Cons.prems(2) by (auto simp: chain_len_def algebra_simps)
  qed
qed

section \<open>Delivering buffers\<close>

text \<open>The state after some buffers have been delivered to an empty \<open>iovec\<close>.\<close>

definition delivered :: "(nat \<times> int) list \<Rightarrow> shm \<Rightarrow> iovec \<times> shm \<Rightarrow> bool" where
  "delivered xs s0 st \<longleftrightarrow>
     (case st of (iov, s) \<Rightarrow>
        let bs = map fst xs; mb = mbufs s in
        iov_head iov = (if xs = [] then None else Some (hd bs)) \<and> iov_tail iov = (if xs = [] then None else Some (last bs)) \<and>
        iov_len iov = (\<Sum>(m, off)\<leftarrow>xs. int (seg_len (mbufs s0) m) - off) \<and>
        chain mb (iov_head iov) bs \<and> filled mb bs \<and>
        payload mb bs = concat (map (\<lambda>(m, off). drop (nat off) (take (seg_len (mbufs s0) m) (data (mbufs s0 m)))) xs) \<and>
        (xs \<noteq> [] \<longrightarrow> nb_segs (mb (hd bs)) = of_nat (length xs) \<and> pkt_len (mb (hd bs)) = of_nat (chain_len mb bs)) \<and>
        (\<forall>m. refcnt (mb m) = refcnt (mbufs s0 m) + (if m \<in> set bs then 1 else 0)) \<and>
        (\<forall>m. m \<notin> set bs \<longrightarrow> mb m = mbufs s0 m))"

lemma chain_snoc:
  assumes "chain mb x (bs @ [t])" "m \<notin> set (bs @ [t])" "\<And>b. b \<noteq> t \<Longrightarrow> nxt (mb' b) = nxt (mb b)" "nxt (mb' t) = Some m" "nxt (mb m) = None"
  shows "chain mb' x ((bs @ [t]) @ [m])"
proof -
  have "t \<notin> set bs" using chain_distinct [OF assms(1)] by simp
  then show ?thesis using assms by (induction bs arbitrary: x) auto
qed

lemma adj_ok:
  assumes "0 \<le> off" "off \<le> int (seg_len (mbufs s) m)"
  shows "unat (of_int off :: u16) = nat off" "rte_pktmbuf_adj m (of_int off) s =
    Some (upd_mbuf m (\<lambda>b. b\<lparr>data_len := data_len b - of_int off, data_off := data_off b + of_int off,
      pkt_len := pkt_len b - ucast (of_int off :: u16), data := drop (nat off) (data b)\<rparr>) s)"
    "unat (data_len (mbufs s m) - of_int off) = seg_len (mbufs s) m - nat off"
proof -
  have "off < 2 ^ 16" using assms(2) unsigned_less [of "data_len (mbufs s m)", where ?'a = nat] by (simp del: of_nat_unat)
  then show u: "unat (of_int off :: u16) = nat off"
    using assms(1) by (simp add: unsigned_of_int take_bit_int_eq_self nat_eq_iff)
  then have le: "(of_int off :: u16) \<le> data_len (mbufs s m)" using assms by (simp add: word_le_nat_alt del: of_nat_unat)
  then show "rte_pktmbuf_adj m (of_int off) s =
    Some (upd_mbuf m (\<lambda>b. b\<lparr>data_len := data_len b - of_int off, data_off := data_off b + of_int off,
      pkt_len := pkt_len b - ucast (of_int off :: u16), data := drop (nat off) (data b)\<rparr>) s)"
    by (simp add: rte_pktmbuf_adj_def u not_less)
  show "unat (data_len (mbufs s m) - of_int off) = seg_len (mbufs s) m - nat off"
    using le u by (simp add: unat_sub)
qed

lemma deliver_step:
  assumes d: "delivered xs s0 (iov, s)" and m: "m \<notin> set (map fst xs)" "nxt (mbufs s0 m) = None" "filled (mbufs s0) [m]"
    and off: "0 \<le> off" "off \<le> int (seg_len (mbufs s0) m)"
  shows "\<exists>st. deliver (m, off) (iov, s) = Some st \<and> delivered (xs @ [(m, off)]) s0 st"
proof -
  have same: "mbufs s m = mbufs s0 m" using d m(1) by (simp add: delivered_def Let_def)
  note adj = adj_ok [of off s m, unfolded same, OF off]
  have le: "seg_len (mbufs s0) m - nat off + nat off = seg_len (mbufs s0) m" using off by (simp del: of_nat_unat)
  show ?thesis
  proof (cases xs rule: rev_cases)
    case Nil
    then show ?thesis
      using d m off adj same le
      by (auto simp: deliver_def memcpy_toiovec_def delivered_def Let_def filled_def chain_len_def payload_def take_drop intro: diff_le_mono)
  next
    case (snoc ys y)
    define bs t h where "bs = map fst xs" and "t = fst y" and "h = hd bs"
    have "h \<in> set bs" unfolding h_def by (rule hd_in_set) (simp add: bs_def snoc)
    then have bs: "bs = map fst ys @ [t]" "m \<notin> set bs" "h \<noteq> m" "t \<noteq> m" "h \<in> set bs" "xs \<noteq> []"
      using snoc m(1) by (auto simp: bs_def t_def)
    have iov: "iov_head iov = Some h" "iov_tail iov = Some t" using d bs snoc by (auto simp: delivered_def Let_def bs_def h_def t_def)
    let ?dl = "data_len (mbufs s0 m) - of_int off"
    obtain s' where s': "deliver (m, off) (iov, s) = Some (iov\<lparr>iov_tail := Some m, iov_len := iov_len iov + (int (seg_len (mbufs s0) m) - off)\<rparr>, s')"
        "\<And>b. nxt (mbufs s' b) = (if b = t then Some m else nxt (mbufs s b))" "\<And>b. data_len (mbufs s' b) = (if b = m then ?dl else data_len (mbufs s b))"
        "\<And>b. data (mbufs s' b) = (if b = m then drop (nat off) (data (mbufs s0 m)) else data (mbufs s b))"
        "\<And>b. refcnt (mbufs s' b) = refcnt (mbufs s b) + (if b = m then 1 else 0)"
        "nb_segs (mbufs s' h) = nb_segs (mbufs s h) + 1" "pkt_len (mbufs s' h) = pkt_len (mbufs s h) + ucast ?dl"
        "\<And>b. b \<noteq> h \<Longrightarrow> b \<noteq> t \<Longrightarrow> b \<noteq> m \<Longrightarrow> mbufs s' b = mbufs s b"
      using iov bs(3,4) same adj(2) by (auto simp: deliver_def memcpy_toiovec_def Let_def)
    have d': "chain (mbufs s) (Some h) bs" "filled (mbufs s) bs"
        "payload (mbufs s) bs = concat (map (\<lambda>(m, off). drop (nat off) (take (seg_len (mbufs s0) m) (data (mbufs s0 m)))) xs)"
        "nb_segs (mbufs s h) = of_nat (length xs)" "pkt_len (mbufs s h) = of_nat (chain_len (mbufs s) bs)"
        "\<And>b. refcnt (mbufs s b) = refcnt (mbufs s0 b) + (if b \<in> set bs then 1 else 0)" "\<And>b. b \<notin> set bs \<Longrightarrow> mbufs s b = mbufs s0 b"
        "iov_len iov = (\<Sum>(m, off)\<leftarrow>xs. int (seg_len (mbufs s0) m) - off)"
      using d bs(6) iov(1) unfolding delivered_def Let_def bs_def [symmetric] h_def [symmetric] by simp_all
    have keep: "b \<in> set bs \<Longrightarrow> data_len (mbufs s' b) = data_len (mbufs s b) \<and> data (mbufs s' b) = data (mbufs s b)" for b
      using s'(3,4) bs(2) by auto
    have "chain (mbufs s') (Some h) (bs @ [m])"
      unfolding bs(1) by (rule chain_snoc [of "mbufs s"]) (use d'(1) bs s'(2) m(2) same in auto)
    moreover have "payload (mbufs s') (bs @ [m]) =
        concat (map (\<lambda>(m, off). drop (nat off) (take (seg_len (mbufs s0) m) (data (mbufs s0 m)))) (xs @ [(m, off)]))"
      using payload_cong [of bs "mbufs s'" "mbufs s"] keep d'(3) s'(3,4) adj(3) le by (simp add: take_drop)
    moreover have "chain_len (mbufs s') (bs @ [m]) = chain_len (mbufs s) bs + unat ?dl"
      using keep s'(3) by (simp add: chain_len_def cong: map_cong)
    moreover have "filled (mbufs s') (bs @ [m])"
      using d'(2) keep m(3) s'(3,4) adj(3) by (auto simp: filled_def intro: diff_le_mono)
    moreover have "(\<Sum>(m, off)\<leftarrow>xs @ [(m, off)]. int (seg_len (mbufs s0) m) - off) = iov_len iov + (int (seg_len (mbufs s0) m) - off)"
      using d'(8) by simp
    moreover have "map fst (xs @ [(m, off)]) = bs @ [m]" "hd (bs @ [m]) = h" "last (bs @ [m]) = m" "xs @ [(m, off)] \<noteq> []"
      using bs(6) by (simp_all add: bs_def h_def)
    moreover have "b \<notin> set (bs @ [m]) \<Longrightarrow> mbufs s' b = mbufs s0 b" for b
      using s'(8) [of b] d'(7) [of b] bs(1,5) by auto
    ultimately have "delivered (xs @ [(m, off)]) s0 (iov\<lparr>iov_tail := Some m, iov_len := iov_len iov + (int (seg_len (mbufs s0) m) - off)\<rparr>, s')"
      using s'(5-7) d'(4-6) bs(2) iov(1) unfolding delivered_def Let_def
      by (simp del: map_append append_is_Nil_conv)
    then show ?thesis using s'(1) by blast
  qed
qed

lemma deliver_all:
  assumes "distinct (map fst xs)"
    and "\<And>m off. (m, off) \<in> set xs \<Longrightarrow> nxt (mbufs s0 m) = None \<and> seg_len (mbufs s0) m \<le> length (data (mbufs s0 m)) \<and>
      0 \<le> off \<and> off \<le> int (seg_len (mbufs s0) m)"
  shows "\<exists>st. fold_opt deliver xs (\<lparr>iov_head = None, iov_tail = None, iov_len = 0\<rparr>, s0) = Some st \<and> delivered xs s0 st"
  using assms
proof (induction xs rule: rev_induct)
  case Nil
  then show ?case by (simp add: delivered_def filled_def)
next
  case (snoc x xs)
  obtain m off where x: "x = (m, off)" by fastforce
  obtain iov s where st: "fold_opt deliver xs (\<lparr>iov_head = None, iov_tail = None, iov_len = 0\<rparr>, s0) = Some (iov, s)" "delivered xs s0 (iov, s)"
    using snoc.IH snoc.prems by fastforce
  have "\<exists>st. deliver (m, off) (iov, s) = Some st \<and> delivered (xs @ [(m, off)]) s0 st"
    using snoc.prems(2) [of m off] snoc.prems(1) by (intro deliver_step [OF st(2)]) (auto simp: x filled_def)
  then show ?case using st(1) by (auto simp: x fold_opt_append)
qed

lemma sum_delivered:
  assumes "\<forall>(m, off) \<in> set xs. nxt (mbufs s0 m) = None \<and> seg_len (mbufs s0) m \<le> length (data (mbufs s0 m)) \<and>
      0 \<le> off \<and> off \<le> int (seg_len (mbufs s0) m)"
  shows "(\<Sum>(m, off)\<leftarrow>xs. int (seg_len (mbufs s0) m) - off) =
    int (length (concat (map (\<lambda>(m, off). drop (nat off) (take (seg_len (mbufs s0) m) (data (mbufs s0 m)))) xs)))"
  using assms
proof (induction xs)
  case (Cons x xs)
  obtain m off where x: "x = (m, off)" by fastforce
  have "int (length (drop (nat off) (take (seg_len (mbufs s0) m) (data (mbufs s0 m))))) = int (seg_len (mbufs s0) m) - off"
    using Cons.prems by (simp add: x del: of_nat_unat) (simp add: of_nat_diff nat_le_iff del: of_nat_unat)
  then show ?case using Cons by (simp add: x del: of_nat_unat)
qed simp

text \<open>
  C33. Buffers that the stack hands to a receiving \<open>iovec\<close> one after the other, each from some offset on, form one
  chain that holds exactly their bytes from those offsets on, in that order, with the number of segments and
  the length of the packet in the first one and one reference taken on each. Both ways of sending the chain read these
  bytes back: copied out they fill the front of the target, and hung into an empty socket buffer (where there
  are at most 32 buffers) the fragments cover them.
\<close>

theorem iov_roundtrip:
  assumes "xs \<noteq> []" "distinct (map fst xs)"
    and "\<forall>(m, off) \<in> set xs. nxt (mbufs s0 m) = None \<and> seg_len (mbufs s0) m \<le> length (data (mbufs s0 m)) \<and>
      0 \<le> off \<and> off \<le> int (seg_len (mbufs s0) m)"
    and "bytes = concat (map (\<lambda>(m, off). drop (nat off) (take (seg_len (mbufs s0) m) (data (mbufs s0 m)))) xs)"
    and "length bytes \<le> length kdata" "length xs \<le> MAX_SKB_FRAGS"
  shows "\<exists>iov s skb. fold_opt deliver xs (\<lparr>iov_head = None, iov_tail = None, iov_len = 0\<rparr>, s0) = Some (iov, s) \<and>
    chain (mbufs s) (iov_head iov) (map fst xs) \<and> iov_len iov = int (length bytes) \<and>
    nb_segs (mbufs s (fst (hd xs))) = of_nat (length xs) \<and> pkt_len (mbufs s (fst (hd xs))) = of_nat (length bytes) \<and>
    (\<forall>m. refcnt (mbufs s m) = refcnt (mbufs s0 m) + (if m \<in> fst ` set xs then 1 else 0)) \<and>
    memcpy_fromiovecend2 (mbufs s) iov 0 (int (length bytes)) kdata = Some (1, bytes @ drop (length bytes) kdata) \<and>
    memcpy_fromiovecend (mbufs s) iov 0 (int (length bytes)) \<lparr>frags = [], skb_len = 0, skb_data_len = 0\<rparr> = Some (0, skb) \<and>
    frag_bytes (mbufs s) skb = bytes \<and> skb_len skb = of_nat (length bytes)"
proof -
  obtain iov s where st: "fold_opt deliver xs (\<lparr>iov_head = None, iov_tail = None, iov_len = 0\<rparr>, s0) = Some (iov, s)" "delivered xs s0 (iov, s)"
    using deliver_all [OF assms(2), of s0] assms(3) by fastforce
  have d: "chain (mbufs s) (iov_head iov) (map fst xs)" "filled (mbufs s) (map fst xs)" "payload (mbufs s) (map fst xs) = bytes"
      "nb_segs (mbufs s (fst (hd xs))) = of_nat (length xs)" "pkt_len (mbufs s (fst (hd xs))) = of_nat (chain_len (mbufs s) (map fst xs))"
      "\<forall>m. refcnt (mbufs s m) = refcnt (mbufs s0 m) + (if m \<in> fst ` set xs then 1 else 0)"
      "iov_len iov = (\<Sum>(m, off)\<leftarrow>xs. int (seg_len (mbufs s0) m) - off)"
    using st(2) assms(1) unfolding assms(4) by (auto simp: delivered_def Let_def hd_map)
  have len: "chain_len (mbufs s) (map fst xs) = length bytes" using length_payload [OF d(2)] d(3) by simp
  have "(\<Sum>(m, off)\<leftarrow>xs. int (seg_len (mbufs s0) m) - off) = int (length bytes)"
    using assms(3) unfolding assms(4) by (rule sum_delivered)
  moreover have "memcpy_fromiovecend2 (mbufs s) iov 0 (int (length bytes)) kdata = Some (1, bytes @ drop (length bytes) kdata)"
    using fromiovec2_ok [OF d(1,2), of "[]" "length bytes" kdata] assms(5) d(3) len by (simp add: memcpy_fromiovecend2_def)
  moreover obtain skb where "memcpy_fromiovecend (mbufs s) iov 0 (int (length bytes)) \<lparr>frags = [], skb_len = 0, skb_data_len = 0\<rparr> = Some (0, skb)"
      "frag_bytes (mbufs s) skb = bytes" "skb_len skb = of_nat (length bytes)"
    using fromiovec_ok [OF d(1), of "\<lparr>frags = [], skb_len = 0, skb_data_len = 0\<rparr>"] assms(6) d(3) len
    by (auto simp: memcpy_fromiovecend_def frag_bytes_def)
  ultimately show ?thesis using st(1) d len by (intro exI [of _ iov] exI [of _ s] exI [of _ skb]) simp
qed

definition two_bufs :: shm where
  "two_bufs = small_shm\<lparr>mbufs := (mbufs small_shm)
     (20 := (mbufs small_shm 20)\<lparr>data_len := 4, data := [1, 2, 3, 4]\<rparr>,
      21 := (mbufs small_shm 21)\<lparr>data_len := 3, data := [5, 6, 7]\<rparr>)\<rparr>"

theorem iov_roundtrip_witness:
  "\<exists>iov s. fold_opt deliver [(20, 1), (21, 0)] (\<lparr>iov_head = None, iov_tail = None, iov_len = 0\<rparr>, two_bufs) = Some (iov, s) \<and>
    memcpy_fromiovecend2 (mbufs s) iov 0 6 [0, 0, 0, 0, 0, 0, 9] = Some (1, [2, 3, 4, 5, 6, 7, 9])"
  using iov_roundtrip [of "[(20, 1), (21, 0)]" two_bufs "[2, 3, 4, 5, 6, 7]" "[0, 0, 0, 0, 0, 0, 9]"]
  by (auto simp: two_bufs_def small_shm_def)

end
