(* ===== verification/Raw_Cksum.thy ===== *)
theory Raw_Cksum
  imports Prelude
begin

text \<open>
  The checksum that \<open>drivers/net/dpdk/device.c\<close> computes over the pseudo header of a segment it leaves to the
  network card to finish (\<open>rte_raw_cksum\<close>), and that it is the Internet checksum. A buffer is the list of its bytes;
  the machine is little-endian.
\<close>

section \<open>The code\<close>

definition u16_at :: "u8 list \<Rightarrow> nat \<Rightarrow> u32" where
  "u16_at buf i = ucast (buf ! (2 * i)) + 256 * ucast (buf ! (2 * i + 1))"

function cksum_by4 :: "u8 list \<Rightarrow> u32 \<Rightarrow> u8 list \<times> u32" where
  "cksum_by4 buf s =
     (if length buf \<ge> 8
      then cksum_by4 (drop 8 buf) (s + u16_at buf 0 + u16_at buf 1 + u16_at buf 2 + u16_at buf 3)
      else (buf, s))"
  by pat_completeness auto
termination by (relation "measure (length \<circ> fst)") auto

function cksum_by1 :: "u8 list \<Rightarrow> u32 \<Rightarrow> u8 list \<times> u32" where
  "cksum_by1 buf s = (if length buf \<ge> 2 then cksum_by1 (drop 2 buf) (s + u16_at buf 0) else (buf, s))"
  by pat_completeness auto
termination by (relation "measure (length \<circ> fst)") auto

declare cksum_by4.simps [simp del] cksum_by1.simps [simp del]

definition raw_cksum_sum :: "u8 list \<Rightarrow> u32 \<Rightarrow> u32" where
  "raw_cksum_sum buf s =
     (let (buf, s) = cksum_by4 buf s; (buf, s) = cksum_by1 buf s in
      if length buf = 1 then s + ucast (hd buf) else s)"

definition raw_cksum_reduce :: "u32 \<Rightarrow> u16" where
  "raw_cksum_reduce s =
     (let s = drop_bit 16 (and s 0xffff0000) + and s 0xffff;
          s = drop_bit 16 (and s 0xffff0000) + and s 0xffff in ucast s)"

definition rte_raw_cksum :: "u8 list \<Rightarrow> u16" where
  "rte_raw_cksum buf = raw_cksum_reduce (raw_cksum_sum buf 0)"

text \<open>A 16-bit word as it lies in memory.\<close>

definition le16 :: "u16 \<Rightarrow> u8 list" where
  "le16 w = [ucast w, ucast (drop_bit 8 w)]"

section \<open>The Internet checksum\<close>

text \<open>
  The sum, without the final complement, of the buffer read as 16-bit words in network order, an odd byte being
  padded with zero; a carry out of bit 15 is added again at the low end.
\<close>

fun be_words :: "u8 list \<Rightarrow> nat list" where
  "be_words (a # b # bs) = (256 * unat a + unat b) # be_words bs"
| "be_words [a] = [256 * unat a]"
| "be_words [] = []"

definition oc_add :: "nat \<Rightarrow> nat \<Rightarrow> nat" where
  "oc_add x y = (if x + y < 2 ^ 16 then x + y else x + y + 1 - 2 ^ 16)"

definition internet_sum :: "u8 list \<Rightarrow> nat" where
  "internet_sum bs = foldl oc_add 0 (be_words bs)"

section \<open>Equivalence\<close>

fun le_sum :: "u8 list \<Rightarrow> nat" where
  "le_sum (a # b # bs) = unat a + 256 * unat b + le_sum bs"
| "le_sum [a] = unat a"
| "le_sum [] = 0"

text \<open>A number of at most 16 bits is known from its remainder by \<open>2 ^ 16 - 1\<close> and whether it is 0.\<close>

lemma oc_unique:
  assumes "x \<le> 65535" "y \<le> (65535 :: nat)" "x mod 65535 = y mod 65535" "x = 0 \<longleftrightarrow> y = 0"
  shows "x = y"
  using assms by (cases "x = 65535"; cases "y = 65535") auto

lemma byte_less: "unat (b :: u8) < 256"
  using unsigned_less [of b, where ?'a = nat] by simp

lemma oc_add_bounds:
  assumes "x \<le> 65535" "y \<le> 65535"
  shows "oc_add x y \<le> 65535" "oc_add x y mod 65535 = (x + y) mod 65535" "oc_add x y = 0 \<longleftrightarrow> x = 0 \<and> y = 0"
  using assms by (auto simp: oc_add_def mod_if)

lemma foldl_oc_add:
  assumes "x \<le> 65535" "\<forall>w \<in> set ws. w \<le> 65535"
  shows "foldl oc_add x ws \<le> 65535 \<and> foldl oc_add x ws mod 65535 = (x + sum_list ws) mod 65535 \<and>
    (foldl oc_add x ws = 0 \<longleftrightarrow> x + sum_list ws = 0)"
  using assms
proof (induction ws arbitrary: x)
  case (Cons w ws)
  have "oc_add x w \<le> 65535" "oc_add x w mod 65535 = (x + w) mod 65535" "oc_add x w = 0 \<longleftrightarrow> x = 0 \<and> w = 0"
    using oc_add_bounds Cons.prems by auto
  then show ?case using Cons.IH [of "oc_add x w"] Cons.prems
    by (auto simp: add.assoc [symmetric]) (metis mod_add_cong mod_add_left_eq)+
qed simp

lemma sum_be_words:
  "sum_list (be_words bs) mod 65535 = (256 * le_sum bs) mod 65535 \<and> (sum_list (be_words bs) = 0 \<longleftrightarrow> le_sum bs = 0) \<and>
    (\<forall>w \<in> set (be_words bs). w \<le> 65535)"
proof (induction bs rule: be_words.induct)
  case (1 a b bs)
  have "256 * (unat a + 256 * unat b) = 256 * unat a + unat b + 65535 * unat b" by simp
  then have "(256 * (unat a + 256 * unat b)) mod 65535 = (256 * unat a + unat b) mod 65535" by (metis mod_mult_self2)
  then have "(256 * unat a + unat b + sum_list (be_words bs)) mod 65535 = (256 * (unat a + 256 * unat b) + 256 * le_sum bs) mod 65535"
    using 1 by (intro mod_add_cong) simp_all
  moreover have "256 * unat a + unat b \<le> 65535" using byte_less [of a] byte_less [of b] by linarith
  moreover have "256 * unat a + unat b + sum_list (be_words bs) = 0 \<longleftrightarrow> unat a + 256 * unat b + le_sum bs = 0" using 1 by auto
  ultimately show ?case using 1 by (simp add: distrib_left add.assoc del: One_nat_def)
next
  case (2 a)
  have "256 * unat a \<le> 65535" using byte_less [of a] by linarith
  then show ?case by simp
qed simp

lemma le_sum_split:
  "2 \<le> length bs \<Longrightarrow> le_sum bs = unat (bs ! 0) + 256 * unat (bs ! 1) + le_sum (drop 2 bs)"
  by (cases bs rule: le_sum.cases) auto

lemma cksum_by1_sum:
  "cksum_by1 buf s = (b, r) \<Longrightarrow> length b < 2 \<and> r + of_nat (le_sum b) = s + of_nat (le_sum buf)"
proof (induction buf s rule: cksum_by1.induct)
  case (1 buf s)
  show ?case
  proof (cases "length buf \<ge> 2")
    case True
    have "(u16_at buf 0) = of_nat (unat (buf ! 0) + 256 * unat (buf ! 1))" by (simp add: u16_at_def)
    then show ?thesis using 1 True le_sum_split [OF True] by (simp add: cksum_by1.simps [of buf] algebra_simps)
  next
    case False
    then show ?thesis using 1 by (simp add: cksum_by1.simps [of buf])
  qed
qed

lemma cksum_by4_sum:
  "cksum_by4 buf s = (b, r) \<Longrightarrow> r + of_nat (le_sum b) = s + of_nat (le_sum buf)"
proof (induction buf s rule: cksum_by4.induct)
  case (1 buf s)
  show ?case
  proof (cases "length buf \<ge> 8")
    case True
    have "le_sum buf = unat (buf ! 0) + 256 * unat (buf ! 1) + (unat (buf ! 2) + 256 * unat (buf ! 3)) +
        (unat (buf ! 4) + 256 * unat (buf ! 5)) + (unat (buf ! 6) + 256 * unat (buf ! 7)) + le_sum (drop 8 buf)"
      using True by (simp add: le_sum_split)
    moreover have "u16_at buf 0 = of_nat (unat (buf ! 0) + 256 * unat (buf ! 1))" "u16_at buf 2 = of_nat (unat (buf ! 4) + 256 * unat (buf ! 5))"
      "u16_at buf 3 = of_nat (unat (buf ! 6) + 256 * unat (buf ! 7))" by (simp_all add: u16_at_def)
    moreover have "u16_at buf 1 = of_nat (unat (buf ! 2) + 256 * unat (buf ! 3))"
      by (simp add: u16_at_def numeral_2_eq_2 numeral_3_eq_3)
    ultimately show ?thesis using 1 True by (simp add: cksum_by4.simps [of buf] algebra_simps)
  next
    case False
    then show ?thesis using 1 by (simp add: cksum_by4.simps [of buf])
  qed
qed

lemma raw_cksum_sum_eq: "raw_cksum_sum buf s = s + of_nat (le_sum buf)"
proof -
  obtain b4 s4 b1 s1 where run: "cksum_by4 buf s = (b4, s4)" "cksum_by1 b4 s4 = (b1, s1)" by fastforce
  note by4 = cksum_by4_sum [OF run(1)] and by1 = cksum_by1_sum [OF run(2)]
  have "s1 + of_nat (le_sum b1) = s + of_nat (le_sum buf)" using by1 by4 by simp
  moreover have "le_sum b1 = (if length b1 = 1 then unat (hd b1) else 0)"
    using by1 by (cases b1 rule: le_sum.cases) auto
  ultimately show ?thesis by (simp add: raw_cksum_sum_def run Let_def split: if_splits)
qed

lemma le_sum_bound: "le_sum bs \<le> 65535 * ((length bs + 1) div 2)"
proof (induction bs rule: le_sum.induct)
  case (1 a b bs)
  then show ?case using byte_less [of a] byte_less [of b] by simp
next
  case (2 a)
  then show ?case using byte_less [of a] by simp
qed simp

lemma fold_mod:
  fixes n :: nat
  shows "(n div 65536 + n mod 65536) mod 65535 = n mod 65535" "n div 65536 + n mod 65536 = 0 \<longleftrightarrow> n = 0"
proof -
  have "n = n div 65536 + n mod 65536 + 65535 * (n div 65536)" by simp
  then show "(n div 65536 + n mod 65536) mod 65535 = n mod 65535" by (metis mod_mult_self2)
qed (metis add_is_0 div_mult_mod_eq mult_zero_left div_0 mod_0)

lemma fold16:
  fixes s :: u32
  shows "unat (drop_bit 16 (and s 0xffff0000) + and s 0xffff) = unat s div 65536 + unat s mod 65536"
proof -
  have m: "(0xffff0000 :: u32) = push_bit 16 (mask 16)" by (simp add: mask_eq_exp_minus_1)
  have "and s 0xffff = take_bit 16 s" by (simp add: take_bit_eq_mask mask_eq_exp_minus_1)
  moreover have "drop_bit 16 (and s 0xffff0000) = drop_bit 16 s"
    unfolding m by (rule bit_word_eqI) (auto simp: bit_drop_bit_eq bit_and_iff bit_push_bit_iff bit_mask_iff dest: bit_imp_le_length)
  moreover have "unat s < 2 ^ 32" using unsigned_less [of s, where ?'a = nat] by simp
  ultimately show ?thesis
    by (simp add: unat_word_ariths unsigned_drop_bit_eq unsigned_take_bit_eq drop_bit_eq_div take_bit_eq_mod)
qed

lemma reduce_bounds:
  fixes s :: u32
  shows "unat (raw_cksum_reduce s) \<le> 65535" "unat (raw_cksum_reduce s) mod 65535 = unat s mod 65535" "unat (raw_cksum_reduce s) = 0 \<longleftrightarrow> unat s = 0"
proof -
  define t where "t = drop_bit 16 (and s 0xffff0000) + and s 0xffff"
  define v where "v = drop_bit 16 (and t 0xffff0000) + and t 0xffff"
  have "unat s < 2 ^ 32" using unsigned_less [of s, where ?'a = nat] by simp
  then have t: "unat t \<le> 131070" "unat t mod 65535 = unat s mod 65535" "unat t = 0 \<longleftrightarrow> unat s = 0"
    unfolding t_def fold16 by (auto simp: fold_mod) 
  have "n \<le> 131070 \<Longrightarrow> n div 65536 + n mod 65536 \<le> 65535" for n :: nat
    by (cases "n < 65536") (simp_all add: le_mod_geq le_div_geq)
  from this [OF t(1)]
  have v: "unat v \<le> 65535" "unat v mod 65535 = unat t mod 65535" "unat v = 0 \<longleftrightarrow> unat t = 0"
    unfolding v_def fold16 by (auto simp: fold_mod)
  have "raw_cksum_reduce s = ucast v" unfolding raw_cksum_reduce_def Let_def v_def t_def by (rule refl)
  then have "unat (raw_cksum_reduce s) = unat v"
    using v(1) by (simp add: unsigned_ucast_eq take_bit_nat_eq_self_iff)
  then show "unat (raw_cksum_reduce s) \<le> 65535" "unat (raw_cksum_reduce s) mod 65535 = unat s mod 65535" "unat (raw_cksum_reduce s) = 0 \<longleftrightarrow> unat s = 0"
    using t v by simp_all
qed

lemma unat_le16: "unat (w :: u16) = unat (le16 w ! 0) + 256 * unat (le16 w ! 1)"
proof -
  have "unat w < 65536" using unsigned_less [of w, where ?'a = nat] by simp
  then show ?thesis
    by (simp add: le16_def unsigned_ucast_eq unsigned_drop_bit_eq take_bit_eq_mod) (simp add: drop_bit_eq_div)
qed

text \<open>
  The checksum, stored as the little-endian machine stores it, is the Internet checksum of the buffer read in network
  order, for every buffer of up to 128 KB, odd lengths included: neither the unrolled loop nor the two folding steps
  lose a carry.
\<close>

lemma raw_cksum_sums:
  assumes "length buf \<le> 131072"
  shows "256 * unat (le16 (rte_raw_cksum buf) ! 0) + unat (le16 (rte_raw_cksum buf) ! 1) = internet_sum buf"
proof -
  let ?r = "rte_raw_cksum buf" 
  let ?l = "unat (le16 ?r ! 0)" and ?h = "unat (le16 ?r ! 1)"
  have r: "unat ?r = ?l + 256 * ?h" by (rule unat_le16)
  have "le_sum buf < 2 ^ 32" using le_sum_bound [of buf] assms by simp
  then have s: "unat (raw_cksum_sum buf 0) = le_sum buf"
    by (simp add: raw_cksum_sum_eq unsigned_of_nat take_bit_nat_eq_self_iff)
  have "foldl oc_add 0 (be_words buf) \<le> 65535 \<and> foldl oc_add 0 (be_words buf) mod 65535 = sum_list (be_words buf) mod 65535 \<and>
    (foldl oc_add 0 (be_words buf) = 0 \<longleftrightarrow> sum_list (be_words buf) = 0)"
    using foldl_oc_add [of 0 "be_words buf"] sum_be_words [of buf] by simp
  moreover have "(256 * ?l + ?h) mod 65535 = (256 * unat ?r) mod 65535"
  proof -
    have "256 * unat ?r = 256 * ?l + ?h + 65535 * ?h" unfolding r by simp
    then show ?thesis by (metis mod_mult_self2)
  qed
  moreover have "(256 * unat ?r) mod 65535 = (256 * le_sum buf) mod 65535"
    using reduce_bounds(2) [of "raw_cksum_sum buf 0"] s by (metis rte_raw_cksum_def mod_mult_cong)
  moreover have "256 * ?l + ?h = 0 \<longleftrightarrow> le_sum buf = 0"
    using reduce_bounds(3) [of "raw_cksum_sum buf 0"] s r by (simp add: rte_raw_cksum_def)
  moreover have "256 * ?l + ?h \<le> 65535" using byte_less [of "le16 ?r ! 0"] byte_less [of "le16 ?r ! 1"] by linarith
  ultimately show ?thesis using sum_be_words [of buf] unfolding internet_sum_def
    by (intro oc_unique [of "256 * ?l + ?h"]) (assumption | argo | presburger)+
qed

end
