(* ===== verification/Dpdk_Device.thy ===== *)
theory Dpdk_Device
  imports Iov_Copy Api_Release Raw_Cksum
begin

unbundle bit_operations_syntax

text \<open>
  The network device that joins the stack to a port of DPDK: \<open>drivers/net/dpdk/device.c\<close>, \<open>tx.c\<close> and \<open>rx.c\<close>, with what
  they use of \<open>net/core/skbuff.c\<close> and \<open>net/ethernet/eth.c\<close>. A received packet buffer is wrapped into a socket buffer, its
  VLAN tag is cut out, and it is submitted to the stack; a socket buffer to be sent is turned into a chain of packet
  buffers with its checksums prepared for the card. The linear part of a socket buffer, the memory from \<open>skb->head\<close>
  on, is the data of its header buffer, and \<open>skb_pos\<close> is \<open>skb->data - skb->head\<close>. Reading or writing outside of it is \<open>None\<close>.
  Routes, destructors and lists of socket buffers (\<open>frag_list\<close>) belong to the stack and are not modelled.
\<close>

section \<open>State\<close>

abbreviation (input) RTE_PKTMBUF_HEADROOM :: u16 where "RTE_PKTMBUF_HEADROOM \<equiv> 128"
abbreviation (input) ETH_HLEN :: nat where "ETH_HLEN \<equiv> 14"
abbreviation (input) ETH_P_IP :: u16 where "ETH_P_IP \<equiv> 0x0800"
abbreviation (input) ETH_P_8021Q :: u16 where "ETH_P_8021Q \<equiv> 0x8100"
abbreviation (input) ETH_P_802_3_MIN :: u16 where "ETH_P_802_3_MIN \<equiv> 0x0600"
abbreviation (input) IPPROTO_TCP :: u8 where "IPPROTO_TCP \<equiv> 6"
abbreviation (input) IPPROTO_UDP :: u8 where "IPPROTO_UDP \<equiv> 17"

definition PKT_TX_TCP_SEG :: u64 where "PKT_TX_TCP_SEG = push_bit 50 1"
definition PKT_TX_TCP_CKSUM :: u64 where "PKT_TX_TCP_CKSUM = push_bit 52 1"
definition PKT_TX_UDP_CKSUM :: u64 where "PKT_TX_UDP_CKSUM = push_bit 52 3"
definition PKT_TX_IP_CKSUM :: u64 where "PKT_TX_IP_CKSUM = push_bit 54 1"
definition PKT_TX_IPV4 :: u64 where "PKT_TX_IPV4 = push_bit 55 1"

text \<open>The fields of a packet buffer that tell the card what to do.\<close>

record tx_info =
  buf_len :: u16
  ol_flags :: u64
  l2_len :: "7 word"
  l3_len :: "9 word"
  l4_len :: "8 word"
  tso_segsz :: u16

datatype ip_summed = CHECKSUM_NONE | CHECKSUM_UNNECESSARY | CHECKSUM_COMPLETE | CHECKSUM_PARTIAL

datatype pkt_type = PACKET_HOST | PACKET_BROADCAST | PACKET_MULTICAST | PACKET_OTHERHOST

datatype fclone = SKB_FCLONE_UNAVAILABLE | SKB_FCLONE_ORIG | SKB_FCLONE_CLONE

text \<open>\<open>head_off\<close> is the offset of the data in the header buffer when \<open>skb->head\<close> was set; \<open>protocol\<close> is in the order of the machine; the counters \<open>dataref\<close> and \<open>fclone_ref\<close> are those shared with clones.\<close>

record net_skb = sk_buff +
  header_mbuf :: "nat option"
  head_off :: u16
  skb_pos :: nat
  mac_header :: u16
  network_header :: u16
  transport_header :: u16
  skb_ip_summed :: ip_summed
  skb_protocol :: u16
  skb_pkt_type :: pkt_type
  gso_size :: u16
  users :: int
  cloned :: bool
  nohdr :: bool
  dataref :: int
  skb_fclone :: fclone
  fclone_ref :: int

text \<open>
  A buffer goes back to the pool it came from: that of the applications (\<open>None\<close>), which is the pool of the shared memory, or
  another one of the service. \<open>tx_queue\<close> is what the card has taken over, \<open>submitted\<close> what the stack has been given.
\<close>

record netdev =
  nmem :: shm
  pool_of :: "nat \<Rightarrow> nat option"
  pools :: "nat \<Rightarrow> nat rte_ring"
  infos :: "nat \<Rightarrow> tx_info"
  head_cache :: nat
  fclone_cache :: nat
  tx_queue :: "nat list"
  submitted :: "net_skb list"
  transmitted :: u64
  tx_dropped :: u64
  received :: u64
  driver_tx_offload_pkts :: u64
  driver_tx_wo_offload_pkts :: u64

record dev_addrs =
  dev_addr :: "u8 list"
  broadcast :: "u8 list"

section \<open>Releasing buffers\<close>

definition dev_free_seg :: "nat \<Rightarrow> netdev \<Rightarrow> netdev option" where
  "dev_free_seg p d =
     (case pool_of d p of
        None \<Rightarrow> map_option (\<lambda>s. d\<lparr>nmem := s\<rparr>) (rte_pktmbuf_free_seg p (nmem d))
      | Some k \<Rightarrow> map_option (\<lambda>s. d\<lparr>nmem := s\<lparr>mbuf_pool := mbuf_pool (nmem d)\<rparr>, pools := (pools d)(k := mbuf_pool s)\<rparr>)
                   (rte_pktmbuf_free_seg p ((nmem d)\<lparr>mbuf_pool := pools d k\<rparr>)))"

partial_function (option) dev_free :: "nat option \<Rightarrow> netdev \<Rightarrow> netdev option" where
  "dev_free m d =
     (case m of None \<Rightarrow> Some d
      | Some p \<Rightarrow> do { d' \<leftarrow> dev_free_seg p d; dev_free (nxt (mbufs (nmem d) p)) d' })"

definition free_header :: "net_skb \<Rightarrow> netdev \<Rightarrow> (net_skb \<times> netdev) option" where
  "free_header skb d =
     (case header_mbuf skb of None \<Rightarrow> Some (skb, d)
      | Some h \<Rightarrow> map_option (Pair (skb\<lparr>header_mbuf := None\<rparr>)) (dev_free_seg h d))"

definition skb_release_data :: "net_skb \<Rightarrow> netdev \<Rightarrow> (net_skb \<times> netdev) option" where
  "skb_release_data skb d =
     (let skb = (if cloned skb then skb\<lparr>dataref := dataref skb - (if nohdr skb then 2 ^ 16 + 1 else 1)\<rparr> else skb) in
      if \<not> cloned skb \<or> dataref skb = 0
      then do { d1 \<leftarrow> fold_opt (\<lambda>fr. dev_free_seg (frag_page fr)) (frags skb) d; free_header skb d1 }
      else Some (skb, d))"

definition kfree_skbmem :: "net_skb \<Rightarrow> netdev \<Rightarrow> (net_skb \<times> netdev) option" where
  "kfree_skbmem skb d =
     (case skb_fclone skb of
        SKB_FCLONE_UNAVAILABLE \<Rightarrow>
          do { (skb, d) \<leftarrow> free_header skb d; Some (skb, d\<lparr>head_cache := head_cache d + 1\<rparr>) }
      | SKB_FCLONE_ORIG \<Rightarrow>
          let skb = skb\<lparr>fclone_ref := fclone_ref skb - 1\<rparr> in
          if fclone_ref skb = 0
          then do { (skb, d) \<leftarrow> free_header skb d; Some (skb, d\<lparr>fclone_cache := fclone_cache d + 1\<rparr>) }
          else Some (skb, d)
      | SKB_FCLONE_CLONE \<Rightarrow>
          let skb = skb\<lparr>skb_fclone := SKB_FCLONE_UNAVAILABLE, fclone_ref := fclone_ref skb - 1\<rparr> in
          if fclone_ref skb = 0
          then do { (skb, d) \<leftarrow> free_header skb d; Some (skb, d\<lparr>fclone_cache := fclone_cache d + 1\<rparr>) }
          else Some (skb, d))"

definition kfree_skb :: "net_skb \<Rightarrow> netdev \<Rightarrow> (net_skb \<times> netdev) option" where
  "kfree_skb skb d =
     (if users skb = 1 then do { (skb, d) \<leftarrow> skb_release_data skb d; kfree_skbmem skb d }
      else let skb = skb\<lparr>users := users skb - 1\<rparr> in
      if users skb \<noteq> 0 then Some (skb, d) else do { (skb, d) \<leftarrow> skb_release_data skb d; kfree_skbmem skb d })"

section \<open>Sending\<close>

definition dpdk_dev_enqueue_for_tx :: "bool \<Rightarrow> nat \<Rightarrow> netdev \<Rightarrow> netdev option" where
  "dpdk_dev_enqueue_for_tx taken m d =
     (if taken then Some (d\<lparr>tx_queue := tx_queue d @ [m], transmitted := transmitted d + 1\<rparr>)
      else dev_free (Some m) (d\<lparr>tx_dropped := tx_dropped d + 1\<rparr>))"

definition skb_headlen :: "'a sk_buff_scheme \<Rightarrow> u32" where
  "skb_headlen skb = skb_len skb - skb_data_len skb"

fun xmit_frags :: "skb_frag list \<Rightarrow> nat \<Rightarrow> int \<Rightarrow> shm \<Rightarrow> int \<times> shm" where
  "xmit_frags [] p n s = (n, upd_mbuf p (\<lambda>b. b\<lparr>nxt := None\<rparr>) s)"
| "xmit_frags (fr # frs) p n s =
     (let q = frag_page fr;
          s1 = upd_mbuf p (\<lambda>b. b\<lparr>nxt := Some q\<rparr>) s;
          s2 = upd_mbuf q (\<lambda>b. b\<lparr>refcnt := refcnt b + 1\<rparr>) s1 in
      xmit_frags frs q (n + int (unat (data_len (mbufs s2 q)))) s2)"

definition bytes_at :: "nat \<Rightarrow> nat \<Rightarrow> u8 list \<Rightarrow> u8 list option" where
  "bytes_at i n lin = (if i + n \<le> length lin then Some (take n (drop i lin)) else None)"

definition be16 :: "u8 list \<Rightarrow> u16" where
  "be16 bs = ucast (bs ! 0) * 256 + ucast (bs ! 1)"

definition cpu_to_be_16 :: "u16 \<Rightarrow> u8 list" where
  "cpu_to_be_16 w = [ucast (drop_bit 8 w), ucast w]"

text \<open>
  The transport length of the pseudo header: the length field of the IP header less the header length the card was
  given, which has nine bits.
\<close>

definition l4_length :: "u8 list \<Rightarrow> tx_info \<Rightarrow> u16" where
  "l4_length tot_len ti = be16 tot_len - ucast (l3_len ti)"

definition xmit_tcp :: "net_skb \<Rightarrow> u8 list \<Rightarrow> u8 list \<Rightarrow> u8 list \<Rightarrow> tx_info \<Rightarrow> netdev \<Rightarrow> (u8 list \<times> tx_info \<times> netdev) option" where
  "xmit_tcp skb addrs tot_len lin ti d =
     (let th = unat (transport_header skb) in
      do { doff \<leftarrow> bytes_at (th + 12) 1 lin;
           let ti = ti\<lparr>tso_segsz := gso_size skb, l4_len := drop_bit 4 (hd doff) * 4\<rparr>;
           let (ti, len, d) =
             (if tso_segsz ti \<noteq> 0
              then (ti\<lparr>ol_flags := ol_flags ti OR PKT_TX_TCP_SEG OR PKT_TX_TCP_CKSUM\<rparr>, [0, 0],
                    d\<lparr>driver_tx_offload_pkts := driver_tx_offload_pkts d + 1\<rparr>)
              else (ti\<lparr>ol_flags := ol_flags ti OR PKT_TX_TCP_CKSUM\<rparr>, cpu_to_be_16 (l4_length tot_len ti),
                    d\<lparr>driver_tx_wo_offload_pkts := driver_tx_wo_offload_pkts d + 1\<rparr>));
           lin \<leftarrow> copy_bytes (th + 16) (le16 (rte_raw_cksum (addrs @ [0, IPPROTO_TCP] @ len))) lin;
           Some (lin, ti, d) })"

definition xmit_udp :: "net_skb \<Rightarrow> u8 list \<Rightarrow> u8 list \<Rightarrow> u8 list \<Rightarrow> tx_info \<Rightarrow> netdev \<Rightarrow> (u8 list \<times> tx_info \<times> netdev) option" where
  "xmit_udp skb addrs tot_len lin ti d =
     (let ti = ti\<lparr>l4_len := 0, ol_flags := ol_flags ti OR PKT_TX_UDP_CKSUM\<rparr> in
      do { lin \<leftarrow> copy_bytes (unat (transport_header skb) + 6)
             (le16 (rte_raw_cksum (addrs @ [0, IPPROTO_UDP] @ cpu_to_be_16 (l4_length tot_len ti)))) lin;
           Some (lin, ti, d) })"

definition xmit_offload :: "net_skb \<Rightarrow> u8 list \<Rightarrow> tx_info \<Rightarrow> netdev \<Rightarrow> (u8 list \<times> tx_info \<times> netdev) option" where
  "xmit_offload skb lin ti d =
     (if skb_ip_summed skb = CHECKSUM_PARTIAL \<and> skb_protocol skb = ETH_P_IP
      then let nh = unat (network_header skb) in
           do { lin \<leftarrow> copy_bytes (nh + 10) [0, 0] lin;
                let ti = ti\<lparr>ol_flags := PKT_TX_IPV4 OR PKT_TX_IP_CKSUM,
                            l3_len := of_int (uint (transport_header skb) - uint (network_header skb)),
                            l2_len := of_int (uint (network_header skb) - int (skb_pos skb)), tso_segsz := gso_size skb\<rparr>;
                addrs \<leftarrow> bytes_at (nh + 12) 8 lin;
                tot_len \<leftarrow> bytes_at (nh + 2) 2 lin;
                proto \<leftarrow> bytes_at (nh + 9) 1 lin;
                if hd proto = IPPROTO_TCP then xmit_tcp skb addrs tot_len lin ti d
                else if hd proto = IPPROTO_UDP then xmit_udp skb addrs tot_len lin ti d
                else Some (lin, ti, d) }
      else Some (lin, ti, d))"

definition xmit_head :: "net_skb \<Rightarrow> nat \<Rightarrow> netdev \<Rightarrow> shm" where
  "xmit_head skb head d =
     (let ti = infos d head;
          off = (if RTE_PKTMBUF_HEADROOM \<le> buf_len ti then RTE_PKTMBUF_HEADROOM else buf_len ti) in
      upd_mbuf head (\<lambda>b. b\<lparr>data_len := ucast (skb_headlen skb), data_off := off + of_nat (skb_pos skb),
                              nb_segs := 1 + of_nat (length (frags skb))\<rparr>) (nmem d))"

text \<open>\<open>taken\<close> says whether the card has room for the packet.\<close>

definition dpdk_xmit_frame :: "bool \<Rightarrow> net_skb \<Rightarrow> netdev \<Rightarrow> (net_skb \<times> netdev) option" where
  "dpdk_xmit_frame taken skb d =
     do { head \<leftarrow> header_mbuf skb;
          let lin = data (mbufs (nmem d) head);
          let ti = infos d head;
          let s1 = xmit_head skb head d;
          let (n, s2) = xmit_frags (frags skb) head (int (unat (data_len (mbufs s1 head)))) s1;
          let d2 = d\<lparr>nmem := upd_mbuf head (\<lambda>b. b\<lparr>pkt_len := of_int n\<rparr>) s2\<rparr>;
          (lin, ti, d3) \<leftarrow> xmit_offload skb lin ti d2;
          d4 \<leftarrow> dpdk_dev_enqueue_for_tx taken head
                 (d3\<lparr>nmem := upd_mbuf head (\<lambda>b. b\<lparr>data := drop (skb_pos skb) lin\<rparr>) (nmem d3), infos := (infos d3)(head := ti)\<rparr>);
          kfree_skb (skb\<lparr>header_mbuf := None\<rparr>) d4 }"

section \<open>Receiving\<close>

definition build_skb :: "nat \<Rightarrow> netdev \<Rightarrow> net_skb option \<times> netdev" where
  "build_skb m d =
     (if head_cache d = 0 then (None, d)
      else (Some \<lparr>frags = [], skb_len = 0, skb_data_len = 0, header_mbuf = Some m, head_off = data_off (mbufs (nmem d) m), skb_pos = 0, mac_header = 0xFFFF,
                   network_header = 0, transport_header = 0xFFFF, skb_ip_summed = CHECKSUM_NONE, skb_protocol = 0,
                   skb_pkt_type = PACKET_HOST, gso_size = 0, users = 1, cloned = False, nohdr = False, dataref = 1,
                   skb_fclone = SKB_FCLONE_UNAVAILABLE, fclone_ref = 0\<rparr>,
            d\<lparr>head_cache := head_cache d - 1\<rparr>))"

definition vlan_shift :: "u8 list \<Rightarrow> u8 list" where
  "vlan_shift hdr_str = fold (\<lambda>i h. h[(11 - i) + 4 := h ! (11 - i)]) [0..<12] hdr_str"

definition skb_pull_inline :: "nat \<Rightarrow> net_skb \<Rightarrow> net_skb" where
  "skb_pull_inline n skb =
     (if of_nat n > skb_len skb then skb else skb\<lparr>skb_len := skb_len skb - of_nat n, skb_pos := skb_pos skb + n\<rparr>)"

definition eth_pkt_type :: "dev_addrs \<Rightarrow> u8 list \<Rightarrow> pkt_type \<Rightarrow> pkt_type" where
  "eth_pkt_type dev dest ty =
     (if hd dest AND 1 \<noteq> 0 then (if dest = broadcast dev then PACKET_BROADCAST else PACKET_MULTICAST)
      else if dest \<noteq> dev_addr dev then PACKET_OTHERHOST else ty)"

text \<open>The result is in the order of the machine; the device uses no DSA tags.\<close>

definition eth_type_trans :: "dev_addrs \<Rightarrow> u8 list \<Rightarrow> net_skb \<Rightarrow> (u16 \<times> net_skb) option" where
  "eth_type_trans dev lin skb =
     (let mac = skb_pos skb;
          skb = skb_pull_inline ETH_HLEN (skb\<lparr>mac_header := of_nat mac\<rparr>) in
      do { eth \<leftarrow> bytes_at mac ETH_HLEN lin;
           let dest = take 6 eth;
           let h_proto = be16 (drop 12 eth);
           let skb = skb\<lparr>skb_pkt_type := eth_pkt_type dev dest (skb_pkt_type skb)\<rparr>;
           if ETH_P_802_3_MIN \<le> h_proto then Some (h_proto, skb)
           else if 2 \<le> skb_headlen skb
           then do { sap \<leftarrow> bytes_at (skb_pos skb) 2 lin; Some (if sap = [0xFF, 0xFF] then 1 else 4, skb) }
           else Some (4, skb) })"

definition rx_one :: "dev_addrs \<Rightarrow> nat \<Rightarrow> netdev \<Rightarrow> netdev option" where
  "rx_one dev m d =
     (case build_skb m d of
        (None, d) \<Rightarrow> dev_free (Some m) d
      | (Some skb, d) \<Rightarrow>
        let skb = skb\<lparr>skb_len := ucast (data_len (mbufs (nmem d) m))\<rparr>; lin = data (mbufs (nmem d) m) in
        do { h_proto \<leftarrow> bytes_at 12 2 lin;
             (lin, skb) \<leftarrow>
               (if be16 h_proto = ETH_P_8021Q
                then (if 16 \<le> length lin then Some (vlan_shift lin, skb\<lparr>skb_pos := 4, skb_len := skb_len skb - 4\<rparr>) else None)
                else Some (lin, skb));
             (proto, skb) \<leftarrow> eth_type_trans dev lin skb;
             Some (d\<lparr>nmem := upd_mbuf m (\<lambda>b. b\<lparr>data := lin\<rparr>) (nmem d),
                     submitted := submitted d @ [skb\<lparr>skb_protocol := proto, skb_ip_summed := CHECKSUM_UNNECESSARY\<rparr>]\<rparr>) })"

text \<open>\<open>burst\<close> holds the buffers the card delivers in this call.\<close>

definition rx_construct_skb_and_submit :: "dev_addrs \<Rightarrow> nat list \<Rightarrow> netdev \<Rightarrow> netdev option" where
  "rx_construct_skb_and_submit dev burst d =
     fold_opt (rx_one dev) burst (d\<lparr>received := received d + of_nat (length burst)\<rparr>)"

section \<open>Checksums left to the card\<close>

lemma copy_bytes_nth:
  assumes "pos + length bs \<le> length k"
  shows "\<exists>k'. copy_bytes pos bs k = Some k' \<and> length k' = length k \<and>
    (\<forall>i < length k. k' ! i = (if pos \<le> i \<and> i < pos + length bs then bs ! (i - pos) else k ! i))"
  using assms by (auto simp: copy_bytes_def nth_append)

lemma le16_length [simp]: "length (le16 w) = 2"
  by (simp add: le16_def)

lemma bytes_at_keep:
  assumes "i + n \<le> length lin" "length lin' = length lin" "\<And>j. i \<le> j \<Longrightarrow> j < i + n \<Longrightarrow> lin' ! j = lin ! j"
  shows "bytes_at i n lin' = Some (take n (drop i lin))"
proof -
  have "take n (drop i lin') = take n (drop i lin)"
    using assms by (intro nth_equalityI) auto
  then show ?thesis using assms(1,2) by (simp add: bytes_at_def)
qed

text \<open>Where the checksum of the transport header lies, and the pseudo header it is computed from.\<close>

definition csum_field :: "u8 \<Rightarrow> nat" where
  "csum_field p = (if p = IPPROTO_TCP then 16 else 6)"

definition pseudo_header :: "net_skb \<Rightarrow> u8 list \<Rightarrow> u8 \<Rightarrow> u8 list" where
  "pseudo_header skb lin p =
     (let nh = unat (network_header skb); th = unat (transport_header skb) in
      take 8 (drop (nh + 12) lin) @ [0, p] @
      (if p = IPPROTO_TCP \<and> gso_size skb \<noteq> 0 then [0, 0]
       else cpu_to_be_16 (be16 (take 2 (drop (nh + 2) lin)) - of_nat (th - nh))))"

lemma pseudo_csum:
  assumes "bs = le16 (rte_raw_cksum (pseudo_header skb lin p))"
  shows "256 * unat (bs ! 0) + unat (bs ! 1) = internet_sum (pseudo_header skb lin p)"
  unfolding assms by (rule raw_cksum_sums) (auto simp: pseudo_header_def cpu_to_be_16_def Let_def min_def)

text \<open>
  C34. For a TCP or UDP segment whose checksum is left to the card, the driver stores the Internet checksum of the
  pseudo header in the checksum field of the transport header, in network order, with the transport length that follows from the
  IP header or, for a segment the card cuts up, without a length; it clears the checksum of the IP header, tells the
  card the length of that header, and changes no other byte of the packet.
\<close>

theorem offload_checksum:
  assumes "skb_ip_summed skb = CHECKSUM_PARTIAL" "skb_protocol skb = ETH_P_IP" "p \<in> {IPPROTO_TCP, IPPROTO_UDP}"
    and nh: "nh = unat (network_header skb)" and th: "th = unat (transport_header skb)" and c: "c = th + csum_field p"
    and "nh + 20 \<le> th" "th \<le> nh + 60" "th + 20 \<le> length lin" "lin ! (nh + 9) = p"
  shows "\<exists>lin' ti' d'. xmit_offload skb lin ti d = Some (lin', ti', d') \<and> length lin' = length lin \<and>
    256 * unat (lin' ! c) + unat (lin' ! (c + 1)) = internet_sum (pseudo_header skb lin p) \<and>
    lin' ! (nh + 10) = 0 \<and> lin' ! (nh + 11) = 0 \<and>
    (\<forall>i < length lin. i \<notin> {nh + 10, nh + 11, c, c + 1} \<longrightarrow> lin' ! i = lin ! i) \<and>
    unat (l3_len ti') = th - nh"
proof -
  have z: "nh + 10 \<le> i \<Longrightarrow> i < nh + 12 \<Longrightarrow> [0, 0 :: u8] ! (i - (nh + 10)) = 0" for i
    by (cases "i = nh + 10") auto
  obtain l1 where l1: "copy_bytes (nh + 10) [0, 0] lin = Some l1" "length l1 = length lin"
      "\<forall>i < length lin. l1 ! i = (if nh + 10 \<le> i \<and> i < nh + 12 then 0 else lin ! i)"
    using copy_bytes_nth [of "nh + 10" "[0, 0]" lin] assms(7,9) z by (auto simp: add.commute)
  have rd: "bytes_at (nh + 12) 8 l1 = Some (take 8 (drop (nh + 12) lin))" "bytes_at (nh + 2) 2 l1 = Some (take 2 (drop (nh + 2) lin))"
      "bytes_at (nh + 9) 1 l1 = Some (take 1 (drop (nh + 9) lin))" "bytes_at (th + 12) 1 l1 = Some (take 1 (drop (th + 12) lin))"
    using l1(2,3) assms(7,9) by (auto intro!: bytes_at_keep)
  define ti1 where "ti1 = ti\<lparr>ol_flags := PKT_TX_IPV4 OR PKT_TX_IP_CKSUM,
     l3_len := of_int (uint (transport_header skb) - uint (network_header skb)),
     l2_len := of_int (uint (network_header skb) - int (skb_pos skb)), tso_segsz := gso_size skb\<rparr>"
  have "uint (transport_header skb) - uint (network_header skb) = int (th - nh)"
    using assms(7) unfolding nh th by (simp add: of_nat_diff)
  then have l3: "unat (l3_len ti1) = th - nh"
    using assms(8) by (simp add: ti1_def unsigned_of_nat take_bit_nat_eq_self_iff)
  then have l3': "(ucast (l3_len ti1) :: u16) = of_nat (th - nh)" by (metis of_nat_unat)
  have hd1: "hd (take 1 (drop (nh + 9) lin)) = p" using assms(7,9,10) by (simp add: hd_drop_conv_nth take_Suc)
  have off: "xmit_offload skb lin ti d =
      (if p = IPPROTO_TCP then xmit_tcp skb (take 8 (drop (nh + 12) lin)) (take 2 (drop (nh + 2) lin)) l1 ti1 d
       else xmit_udp skb (take 8 (drop (nh + 12) lin)) (take 2 (drop (nh + 2) lin)) l1 ti1 d)"
    using assms(1,2,3) l1(1) rd(1-3) hd1 by (auto simp: xmit_offload_def Let_def ti1_def nh [symmetric])
  have "\<exists>ti' d'. xmit_offload skb lin ti d = map_option (\<lambda>l. (l, ti', d')) (copy_bytes c (le16 (rte_raw_cksum (pseudo_header skb lin p))) l1) \<and>
      unat (l3_len ti') = th - nh"
    using assms(3) rd(4) l3 l3' unfolding off c
    by (auto simp: xmit_tcp_def xmit_udp_def pseudo_header_def csum_field_def l4_length_def Let_def nh [symmetric] th [symmetric]
        map_conv_bind_option split: Option.bind_splits)
  then obtain ti' d' where run: "xmit_offload skb lin ti d = map_option (\<lambda>l. (l, ti', d')) (copy_bytes c (le16 (rte_raw_cksum (pseudo_header skb lin p))) l1)"
      "unat (l3_len ti') = th - nh" by blast
  let ?bs = "le16 (rte_raw_cksum (pseudo_header skb lin p))"
  have cl: "c + 2 \<le> length lin" "nh + 12 \<le> c" using assms(7,9) by (auto simp: c csum_field_def)
  obtain l2 where l2: "copy_bytes c ?bs l1 = Some l2" "length l2 = length lin"
      "\<forall>i < length lin. l2 ! i = (if c \<le> i \<and> i < c + 2 then ?bs ! (i - c) else l1 ! i)"
    using copy_bytes_nth [of c ?bs l1] cl(1) l1(2) by auto
  have "l2 ! c = ?bs ! 0" "l2 ! (c + 1) = ?bs ! 1" "l2 ! (nh + 10) = 0" "l2 ! (nh + 11) = 0"
    using l2(3) l1(3) cl by auto
  moreover have "\<forall>i < length lin. i \<notin> {nh + 10, nh + 11, c, c + 1} \<longrightarrow> l2 ! i = lin ! i"
    using l2(3) l1(3) by auto
  ultimately show ?thesis using run l2(1,2) pseudo_csum [of ?bs skb lin p] by auto
qed

definition small_skb :: net_skb where
  "small_skb = \<lparr>frags = [], skb_len = 40, skb_data_len = 0, header_mbuf = Some 20, head_off = 128, skb_pos = 0, mac_header = 0, network_header = 0,
     transport_header = 20, skb_ip_summed = CHECKSUM_PARTIAL, skb_protocol = ETH_P_IP, skb_pkt_type = PACKET_HOST, gso_size = 0,
     users = 1, cloned = False, nohdr = False, dataref = 1, skb_fclone = SKB_FCLONE_UNAVAILABLE, fclone_ref = 0\<rparr>"

definition small_lin :: "u8 list" where
  "small_lin = [0x45, 0, 0, 40, 0, 0, 0, 0, 64, 6, 1, 1, 10, 0, 0, 1, 10, 0, 0, 2] @ replicate 20 0"

theorem offload_checksum_witness:
  "\<exists>lin' ti' d'. xmit_offload small_skb small_lin undefined undefined = Some (lin', ti', d') \<and>
    256 * unat (lin' ! 36) + unat (lin' ! 37) = 5149 \<and> lin' ! 10 = 0"
proof -
  have s: "skb_ip_summed small_skb = CHECKSUM_PARTIAL" "skb_protocol small_skb = ETH_P_IP" "network_header small_skb = 0" "transport_header small_skb = 20"
      "gso_size small_skb = 0" by (simp_all add: small_skb_def)
  have l: "length small_lin = 40" "small_lin ! 9 = 6" "take 8 (drop 12 small_lin) = [10, 0, 0, 1, 10, 0, 0, 2]" "take 2 (drop (Suc (Suc 0)) small_lin) = [0, 40]"
    by (simp_all add: small_lin_def)
  have "pseudo_header small_skb small_lin 6 = [10, 0, 0, 1, 10, 0, 0, 2, 0, 6] @ cpu_to_be_16 (be16 [0, 40] - of_nat 20)"
    by (simp add: pseudo_header_def s Let_def l)
  then have "internet_sum (pseudo_header small_skb small_lin 6) = 5149"
    by (simp add: internet_sum_def oc_add_def be16_def cpu_to_be_16_def)
  then show ?thesis
    using offload_checksum [of small_skb 6 0 20 36 small_lin undefined undefined] s l by (simp add: csum_field_def) blast
qed

section \<open>Receiving a burst\<close>

lemma split16: "16 \<le> length xs \<Longrightarrow> \<exists>a b c d e f g h i j k l m n p q r. xs = a # b # c # d # e # f # g # h # i # j # k # l # m # n # p # q # r"
  by (auto simp: Suc_le_length_iff numeral_eq_Suc)

lemma vlan_shift_eq: "16 \<le> length xs \<Longrightarrow> vlan_shift xs = take 4 xs @ take 12 xs @ drop 16 xs"
  by (drule split16) (auto simp: vlan_shift_def upt_rec_numeral numeral_eq_Suc)

text \<open>A frame without its VLAN tag, and the frame a socket buffer holds.\<close>

definition strip_tag :: "u8 list \<Rightarrow> u8 list" where
  "strip_tag fr = (if be16 (drop 12 fr) = ETH_P_8021Q then take 12 fr @ drop 16 fr else fr)"

definition frame_of :: "netdev \<Rightarrow> net_skb \<Rightarrow> u8 list" where
  "frame_of d skb = take (ETH_HLEN + unat (skb_len skb)) (drop (unat (mac_header skb)) (data (mbufs (nmem d) (the (header_mbuf skb)))))"

lemma eth_type_trans_ok:
  assumes "skb_pos skb \<le> 4" "skb_pos skb + unat (skb_len skb) = length lin" "ETH_HLEN \<le> unat (skb_len skb)" "skb_data_len skb = 0"
    and "length lin < 2 ^ 16"
  shows "\<exists>proto ty. eth_type_trans dev lin skb =
    Some (proto, skb\<lparr>mac_header := of_nat (skb_pos skb), skb_len := skb_len skb - 14, skb_pos := skb_pos skb + 14, skb_pkt_type := ty\<rparr>) \<and>
    (ETH_P_802_3_MIN \<le> be16 (drop (skb_pos skb + 12) lin) \<longrightarrow> proto = be16 (drop (skb_pos skb + 12) lin))"
proof -
  have le: "14 \<le> skb_len skb" using assms(3) by (simp add: word_le_nat_alt)
  have u: "unat (skb_len skb - 14) = unat (skb_len skb) - 14" using le by (simp add: unat_sub)
  have h: "be16 (drop 12 (take 14 (drop (skb_pos skb) lin))) = be16 (drop (skb_pos skb + 12) lin)"
    using assms by (simp add: be16_def add.commute)
  have b: "bytes_at (skb_pos skb) 14 lin = Some (take 14 (drop (skb_pos skb) lin))" using assms(2,3) by (simp add: bytes_at_def)
  have "2 \<le> skb_len skb - 14 \<Longrightarrow> skb_pos skb + 14 + 2 \<le> length lin"
    using assms(2) u by (simp add: word_le_nat_alt)
  then have b2: "2 \<le> skb_len skb - 14 \<Longrightarrow> bytes_at (skb_pos skb + 14) 2 lin = Some (take 2 (drop (skb_pos skb + 14) lin))"
    by (simp add: bytes_at_def)
  have pull: "skb_pull_inline 14 (skb\<lparr>mac_header := of_nat (skb_pos skb)\<rparr>) =
      skb\<lparr>mac_header := of_nat (skb_pos skb), skb_len := skb_len skb - 14, skb_pos := skb_pos skb + 14\<rparr>"
    using le by (simp add: skb_pull_inline_def not_less)
  let ?h = "be16 (drop (skb_pos skb + 12) lin)"
  have "eth_type_trans dev lin skb =
      Some (if ETH_P_802_3_MIN \<le> ?h then ?h else if 2 \<le> skb_len skb - 14 \<and> take 2 (drop (skb_pos skb + 14) lin) = [0xFF, 0xFF] then 1 else 4,
        skb\<lparr>mac_header := of_nat (skb_pos skb), skb_len := skb_len skb - 14, skb_pos := skb_pos skb + 14,
            skb_pkt_type := eth_pkt_type dev (take 6 (take 14 (drop (skb_pos skb) lin))) (skb_pkt_type skb)\<rparr>)"
    unfolding eth_type_trans_def Let_def pull b bind.bind_lunit h using b2 assms(4) by (simp add: skb_headlen_def)
  then show ?thesis by auto
qed

text \<open>What the stack gets for a received frame.\<close>

definition carries :: "u8 list \<Rightarrow> u8 list \<Rightarrow> nat \<Rightarrow> net_skb \<Rightarrow> bool" where
  "carries fr lin m skb \<longleftrightarrow>
     header_mbuf skb = Some m \<and> take (ETH_HLEN + unat (skb_len skb)) (drop (unat (mac_header skb)) lin) = strip_tag fr \<and>
     skb_pos skb = unat (mac_header skb) + ETH_HLEN \<and> skb_ip_summed skb = CHECKSUM_UNNECESSARY \<and>
     frags skb = [] \<and> skb_data_len skb = 0 \<and> skb_pos skb + unat (skb_len skb) = length lin \<and> length lin = length fr \<and>
     (ETH_P_802_3_MIN \<le> be16 (drop 12 (strip_tag fr)) \<longrightarrow> skb_protocol skb = be16 (drop 12 (strip_tag fr)))"

lemma carries_trans:
  assumes "eth_type_trans dev lin skb = Some (proto, skb')" "skb_pos skb \<le> 4" "skb_pos skb + unat (skb_len skb) = length lin"
    and "ETH_HLEN \<le> unat (skb_len skb)" "skb_data_len skb = 0" "length lin < 2 ^ 16" "header_mbuf skb = Some m" "drop (skb_pos skb) lin = strip_tag fr"
    and "frags skb = []" "length lin = length fr"
  shows "carries fr lin m (skb'\<lparr>skb_protocol := proto, skb_ip_summed := CHECKSUM_UNNECESSARY\<rparr>)"
proof -
  obtain ty where skb': "skb' = skb\<lparr>mac_header := of_nat (skb_pos skb), skb_len := skb_len skb - 14, skb_pos := skb_pos skb + 14, skb_pkt_type := ty\<rparr>"
      "ETH_P_802_3_MIN \<le> be16 (drop (skb_pos skb + 12) lin) \<longrightarrow> proto = be16 (drop (skb_pos skb + 12) lin)"
    using eth_type_trans_ok [OF assms(2-6), of dev] assms(1) by auto
  have "unat (skb_len skb - 14) = unat (skb_len skb) - 14" using assms(4) by (simp add: unat_sub word_le_nat_alt)
  moreover have "unat (of_nat (skb_pos skb) :: u16) = skb_pos skb" using assms(2) by (simp add: unsigned_of_nat take_bit_nat_eq_self_iff)
  moreover have "drop (skb_pos skb + 12) lin = drop 12 (strip_tag fr)" using assms(8) by (metis add.commute drop_drop)
  moreover have "length (strip_tag fr) = unat (skb_len skb)" using assms(3,8) by (metis add_diff_cancel_left' length_drop)
  ultimately show ?thesis using skb' assms(3,4,5,7-10) by (simp add: carries_def)
qed

lemma rx_one_ok:
  assumes "head_cache d = Suc n" "unat (data_len (mbufs (nmem d) m)) = length (data (mbufs (nmem d) m))" "18 \<le> length (data (mbufs (nmem d) m))"
  shows "\<exists>skb lin. rx_one dev m d =
      Some (d\<lparr>head_cache := n, nmem := upd_mbuf m (\<lambda>b. b\<lparr>data := lin\<rparr>) (nmem d), submitted := submitted d @ [skb]\<rparr>) \<and>
    carries (data (mbufs (nmem d) m)) lin m skb \<and> head_off skb = data_off (mbufs (nmem d) m)"
proof -
  let ?f = "data (mbufs (nmem d) m)"
  obtain new where b: "build_skb m d = (Some new, d\<lparr>head_cache := n\<rparr>)" and new: "skb_pos new = 0" "skb_data_len new = 0" "header_mbuf new = Some m"
      "frags new = []" "head_off new = data_off (mbufs (nmem d) m)"
    using assms(1) by (simp add: build_skb_def)
  define skb0 where "skb0 = new\<lparr>skb_len := ucast (data_len (mbufs (nmem d) m))\<rparr>"
  define lin skb where "lin = (if be16 (drop 12 ?f) = ETH_P_8021Q then vlan_shift ?f else ?f)"
    and "skb = (if be16 (drop 12 ?f) = ETH_P_8021Q then skb0\<lparr>skb_pos := 4, skb_len := skb_len skb0 - 4\<rparr> else skb0)"
  have small: "length ?f < 2 ^ 16" using assms(2) unsigned_less [of "data_len (mbufs (nmem d) m)", where ?'a = nat] by simp
  have l0: "unat (skb_len skb0) = length ?f" "skb_pos skb0 = 0" "skb_data_len skb0 = 0" "header_mbuf skb0 = Some m" "frags skb0 = []"
      "head_off skb0 = data_off (mbufs (nmem d) m)"
    using new assms(1,2) small by (simp_all add: skb0_def unsigned_ucast_eq take_bit_nat_eq_self_iff)
  have "unat (skb_len skb0 - 4) = length ?f - 4" using l0(1) assms(3) by (simp add: unat_sub word_le_nat_alt)
  then have k: "skb_pos skb \<le> 4" "skb_pos skb + unat (skb_len skb) = length lin" "14 \<le> unat (skb_len skb)" "skb_data_len skb = 0"
      "length lin < 2 ^ 16" "header_mbuf skb = Some m" "drop (skb_pos skb) lin = strip_tag ?f" "frags skb = []" "length lin = length ?f"
      "head_off skb = data_off (mbufs (nmem d) m)"
    using l0 assms(3) small by (auto simp: skb_def lin_def vlan_shift_eq strip_tag_def)
  obtain proto skb' where e: "eth_type_trans dev lin skb = Some (proto, skb')" using eth_type_trans_ok [OF k(1-5), of dev] by auto
  have "be16 (take 2 (drop 12 ?f)) = be16 (drop 12 ?f)" by (simp add: be16_def)
  then have "rx_one dev m d = Some (d\<lparr>head_cache := n, nmem := upd_mbuf m (\<lambda>b. b\<lparr>data := lin\<rparr>) (nmem d),
      submitted := submitted d @ [skb'\<lparr>skb_protocol := proto, skb_ip_summed := CHECKSUM_UNNECESSARY\<rparr>]\<rparr>)"
    using e assms(3) unfolding rx_one_def b
    by (simp add: bytes_at_def Let_def skb0_def [symmetric] lin_def skb_def split: if_splits)
  moreover have "head_off skb' = head_off skb" using eth_type_trans_ok [OF k(1-5), of dev] e by auto
  ultimately show ?thesis using carries_trans [OF e k(1-9)] k(10) by fastforce
qed

definition rx_frame_ok :: "netdev \<Rightarrow> nat \<Rightarrow> bool" where
  "rx_frame_ok d m \<longleftrightarrow> unat (data_len (mbufs (nmem d) m)) = length (data (mbufs (nmem d) m)) \<and> 18 \<le> length (data (mbufs (nmem d) m))"

lemma rx_burst_carried:
  assumes "distinct burst" "length burst \<le> head_cache d" "\<And>m. m \<in> set burst \<Longrightarrow> rx_frame_ok d m"
  shows "\<exists>d' skbs. fold_opt (rx_one dev) burst d = Some d' \<and> submitted d' = submitted d @ skbs \<and>
    list_all2 (\<lambda>m skb. carries (data (mbufs (nmem d) m)) (data (mbufs (nmem d') m)) m skb) burst skbs \<and>
    head_cache d' = head_cache d - length burst \<and> (\<forall>m. m \<notin> set burst \<longrightarrow> mbufs (nmem d') m = mbufs (nmem d) m)"
  using assms
proof (induction burst arbitrary: d)
  case (Cons m ms)
  obtain n where n: "head_cache d = Suc n" using Cons.prems(2) by (cases "head_cache d") auto
  obtain skb lin where one: "rx_one dev m d =
      Some (d\<lparr>head_cache := n, nmem := upd_mbuf m (\<lambda>b. b\<lparr>data := lin\<rparr>) (nmem d), submitted := submitted d @ [skb]\<rparr>)"
      "carries (data (mbufs (nmem d) m)) lin m skb"
    using rx_one_ok [OF n, of m dev] Cons.prems(3) [of m] by (auto simp: rx_frame_ok_def)
  let ?d = "d\<lparr>head_cache := n, nmem := upd_mbuf m (\<lambda>b. b\<lparr>data := lin\<rparr>) (nmem d), submitted := submitted d @ [skb]\<rparr>"
  have same: "x \<in> set ms \<Longrightarrow> mbufs (nmem ?d) x = mbufs (nmem d) x" for x using Cons.prems(1) by auto
  have "\<And>x. x \<in> set ms \<Longrightarrow> rx_frame_ok ?d x" using Cons.prems(1,3) by (auto simp: rx_frame_ok_def)
  then obtain d' skbs where ih: "fold_opt (rx_one dev) ms ?d = Some d'" "submitted d' = submitted ?d @ skbs"
      "list_all2 (\<lambda>m skb. carries (data (mbufs (nmem ?d) m)) (data (mbufs (nmem d') m)) m skb) ms skbs"
      "head_cache d' = head_cache ?d - length ms" "\<forall>m. m \<notin> set ms \<longrightarrow> mbufs (nmem d') m = mbufs (nmem ?d) m"
    using Cons.IH [of ?d] Cons.prems(1,2) n by auto
  have "list_all2 (\<lambda>m skb. carries (data (mbufs (nmem d) m)) (data (mbufs (nmem d') m)) m skb) ms skbs"
    using ih(3) by (rule list.rel_mono_strong) (use Cons.prems(1) in \<open>auto split: if_splits\<close>)
  moreover have "data (mbufs (nmem d') m) = lin" using ih(5) Cons.prems(1) by simp
  ultimately show ?case using one ih(1,2,4,5) n by (intro exI [of _ d'] exI [of _ "skb # skbs"]) auto
qed simp

lemma dev_free_seg_received: "dev_free_seg p d = Some d' \<Longrightarrow> received d' = received d"
  by (auto simp: dev_free_seg_def split: option.splits)

lemma dev_free_received:
  assumes "dev_free m d = Some d'"
  shows "received d' = received d"
  using assms
proof (induction rule: dev_free.raw_induct [rotated, consumes 1])
  case (1 f m d d')
  then show ?case by (auto split: option.splits Option.bind_splits dest: dev_free_seg_received)
qed

lemma rx_received: "fold_opt (rx_one dev) burst d = Some d' \<Longrightarrow> received d' = received d"
proof (induction burst arbitrary: d)
  case (Cons m ms)
  then obtain d1 where d1: "rx_one dev m d = Some d1" "fold_opt (rx_one dev) ms d1 = Some d'" by (auto split: Option.bind_splits)
  have "received d1 = received d"
    using d1(1) by (auto simp: rx_one_def build_skb_def Let_def split: if_splits option.splits Option.bind_splits prod.splits dest: dev_free_received)
  then show ?case using Cons.IH [OF d1(2)] by simp
qed simp

text \<open>
  C35. A burst of received frames reaches the stack whole and in order: as long as there are socket buffers, every
  frame is submitted in one of its own, without its VLAN tag if it has one and unchanged otherwise, with its header
  where the stack looks for it and its type as protocol; the counters agree.
\<close>

theorem rx_burst_submitted:
  assumes "distinct burst" "length burst \<le> head_cache d" "\<forall>m \<in> set burst. rx_frame_ok d m"
  shows "\<exists>d' skbs. rx_construct_skb_and_submit dev burst d = Some d' \<and> submitted d' = submitted d @ skbs \<and>
    map header_mbuf skbs = map Some burst \<and> map (frame_of d') skbs = map (\<lambda>m. strip_tag (data (mbufs (nmem d) m))) burst \<and>
    (\<forall>skb \<in> set skbs. skb_pos skb = unat (mac_header skb) + ETH_HLEN \<and>
       (ETH_P_802_3_MIN \<le> be16 (drop 12 (frame_of d' skb)) \<longrightarrow> skb_protocol skb = be16 (drop 12 (frame_of d' skb)))) \<and>
    head_cache d' = head_cache d - length burst \<and> received d' = received d + of_nat (length burst)"
proof -
  let ?d = "d\<lparr>received := received d + of_nat (length burst)\<rparr>"
  obtain d' skbs where d': "fold_opt (rx_one dev) burst ?d = Some d'" "submitted d' = submitted d @ skbs"
      "list_all2 (\<lambda>m skb. carries (data (mbufs (nmem d) m)) (data (mbufs (nmem d') m)) m skb) burst skbs"
      "head_cache d' = head_cache d - length burst"
    using rx_burst_carried [of burst ?d dev] assms by (auto simp: rx_frame_ok_def)
  have all: "list_all2 (\<lambda>m skb. header_mbuf skb = Some m \<and> frame_of d' skb = strip_tag (data (mbufs (nmem d) m)) \<and>
      skb_pos skb = unat (mac_header skb) + ETH_HLEN \<and>
      (ETH_P_802_3_MIN \<le> be16 (drop 12 (frame_of d' skb)) \<longrightarrow> skb_protocol skb = be16 (drop 12 (frame_of d' skb)))) burst skbs"
    using d'(3) by (rule list.rel_mono_strong) (auto simp: carries_def frame_of_def)
  have "map header_mbuf skbs = map Some burst \<and> map (frame_of d') skbs = map (\<lambda>m. strip_tag (data (mbufs (nmem d) m))) burst \<and>
    (\<forall>skb \<in> set skbs. skb_pos skb = unat (mac_header skb) + ETH_HLEN \<and>
       (ETH_P_802_3_MIN \<le> be16 (drop 12 (frame_of d' skb)) \<longrightarrow> skb_protocol skb = be16 (drop 12 (frame_of d' skb))))"
    using all by (induction rule: list_all2_induct) auto
  moreover have "received d' = received ?d" using d'(1) by (rule rx_received)
  ultimately show ?thesis using d' by (auto simp: rx_construct_skb_and_submit_def)
qed

section \<open>Handing a socket buffer to the card\<close>

definition pools_ok :: "netdev \<Rightarrow> bool" where
  "pools_ok d \<longleftrightarrow> ring_ok (mbuf_pool (nmem d)) \<and> (\<forall>k. ring_ok (pools d k))"

text \<open>What releasing buffers may change of the device.\<close>

definition frees_only :: "netdev \<Rightarrow> netdev \<Rightarrow> bool" where
  "frees_only d d' \<longleftrightarrow> pools_ok d' \<and> (\<exists>s q. d' = d\<lparr>nmem := s, pools := q\<rparr>)"

lemma frees_onlyI:
  assumes "pools_ok d'" "d' = d\<lparr>nmem := s, pools := q\<rparr>"
  shows "frees_only d d'"
  using assms unfolding frees_only_def by blast

lemma frees_only_refl: "pools_ok d \<Longrightarrow> frees_only d d"
  by (rule frees_onlyI [where s = "nmem d" and q = "pools d"]) simp_all

lemma frees_only_ok: "frees_only d d' \<Longrightarrow> pools_ok d'"
  by (simp add: frees_only_def)

lemma frees_only_trans:
  assumes "frees_only d d1" "frees_only d1 d2"
  shows "frees_only d d2"
proof -
  obtain s q s' q' where "d1 = d\<lparr>nmem := s, pools := q\<rparr>" "d2 = d1\<lparr>nmem := s', pools := q'\<rparr>" "pools_ok d2"
    using assms unfolding frees_only_def by blast
  then show ?thesis by (intro frees_onlyI [where s = s' and q = q']) simp_all
qed

lemma refcnt_unref [simp]: "refcnt (unref k) = refcnt k - 1"
  by (simp add: unref_def last_ref_def)

lemma free_seg_ring:
  assumes "ring_ok (mbuf_pool s)"
  shows "\<exists>mp. rte_pktmbuf_free_seg p s = Some (s\<lparr>mbufs := (mbufs s)(p := unref (mbufs s p)), mbuf_pool := mp\<rparr>) \<and> ring_ok mp"
proof -
  let ?mp = "if last_ref (mbufs s p) \<and> length (ring_list (mbuf_pool s)) < ring_cap (mbuf_pool s) then enq_step (mbuf_pool s) [p] 1 else mbuf_pool s"
  have "rte_pktmbuf_free_seg p s = Some (s\<lparr>mbufs := (mbufs s)(p := unref (mbufs s p)), mbuf_pool := ?mp\<rparr>)"
    using assms by (simp add: rte_pktmbuf_free_seg_def rte_pktmbuf_prefree_seg_def Let_def last_ref_def unref_def rte_mempool_put_ok)
  moreover have "ring_ok ?mp" using assms ring_push [OF assms, of p] by simp
  ultimately show ?thesis by blast
qed

lemma dev_free_seg_ok:
  assumes "pools_ok d"
  shows "\<exists>d'. dev_free_seg p d = Some d' \<and> frees_only d d' \<and> mbufs (nmem d') = (mbufs (nmem d))(p := unref (mbufs (nmem d) p))"
proof (cases "pool_of d p")
  case None
  obtain mp where mp: "rte_pktmbuf_free_seg p (nmem d) = Some ((nmem d)\<lparr>mbufs := (mbufs (nmem d))(p := unref (mbufs (nmem d) p)), mbuf_pool := mp\<rparr>)" "ring_ok mp"
    using free_seg_ring assms unfolding pools_ok_def by blast
  let ?d = "d\<lparr>nmem := (nmem d)\<lparr>mbufs := (mbufs (nmem d))(p := unref (mbufs (nmem d) p)), mbuf_pool := mp\<rparr>\<rparr>"
  have "frees_only d ?d" by (rule frees_onlyI [where q = "pools d"]) (use assms mp(2) in \<open>simp_all add: pools_ok_def\<close>)
  then show ?thesis using None mp(1) by (intro exI [of _ ?d]) (simp add: dev_free_seg_def)
next
  case (Some k)
  let ?s = "(nmem d)\<lparr>mbuf_pool := pools d k\<rparr>"
  obtain mp where mp: "rte_pktmbuf_free_seg p ?s = Some (?s\<lparr>mbufs := (mbufs (nmem d))(p := unref (mbufs (nmem d) p)), mbuf_pool := mp\<rparr>)" "ring_ok mp"
    using free_seg_ring [of ?s p] assms by (auto simp: pools_ok_def)
  let ?d = "d\<lparr>nmem := (nmem d)\<lparr>mbufs := (mbufs (nmem d))(p := unref (mbufs (nmem d) p))\<rparr>, pools := (pools d)(k := mp)\<rparr>"
  have "frees_only d ?d" by (rule frees_onlyI) (use assms mp(2) in \<open>simp_all add: pools_ok_def\<close>)
  then show ?thesis using Some mp(1) by (intro exI [of _ ?d]) (simp add: dev_free_seg_def)
qed

lemma free_frags_ok:
  assumes "pools_ok d" "distinct (map frag_page frs)"
  shows "\<exists>d'. fold_opt (\<lambda>fr. dev_free_seg (frag_page fr)) frs d = Some d' \<and> frees_only d d' \<and>
    mbufs (nmem d') = unref_all (map frag_page frs) (mbufs (nmem d))"
  using assms
proof (induction frs arbitrary: d)
  case Nil
  then show ?case by (simp add: frees_only_refl)
next
  case (Cons fr frs)
  obtain d1 where d1: "dev_free_seg (frag_page fr) d = Some d1" "frees_only d d1"
      "mbufs (nmem d1) = (mbufs (nmem d))(frag_page fr := unref (mbufs (nmem d) (frag_page fr)))"
    using dev_free_seg_ok [OF Cons.prems(1)] by blast
  moreover obtain d2 where "fold_opt (\<lambda>fr. dev_free_seg (frag_page fr)) frs d1 = Some d2" "frees_only d1 d2"
      "mbufs (nmem d2) = unref_all (map frag_page frs) (mbufs (nmem d1))"
    using Cons.IH [of d1] frees_only_ok [OF d1(2)] Cons.prems(2) by auto
  ultimately show ?case using Cons.prems(2) unref_all_Cons [of "frag_page fr" "map frag_page frs" "mbufs (nmem d)"]
    by (auto intro: frees_only_trans)
qed

lemma dev_free_ok:
  assumes "pools_ok d" "chain (mbufs (nmem d)) x bs"
  shows "\<exists>d'. dev_free x d = Some d' \<and> frees_only d d' \<and> mbufs (nmem d') = unref_all bs (mbufs (nmem d))"
  using assms
proof (induction bs arbitrary: x d)
  case Nil
  then show ?case by (subst dev_free.simps) (simp add: frees_only_refl)
next
  case (Cons b bs)
  obtain d1 where d1: "dev_free_seg b d = Some d1" "frees_only d d1" "mbufs (nmem d1) = (mbufs (nmem d))(b := unref (mbufs (nmem d) b))"
    using dev_free_seg_ok [OF Cons.prems(1)] by blast
  have b: "b \<notin> set bs" using chain_distinct [OF Cons.prems(2)] by simp
  then have "chain (mbufs (nmem d1)) (nxt (mbufs (nmem d) b)) bs"
    using Cons.prems(2) d1(3) by (auto intro: chain_cong [THEN iffD1, rotated])
  then obtain d2 where "dev_free (nxt (mbufs (nmem d) b)) d1 = Some d2" "frees_only d1 d2" "mbufs (nmem d2) = unref_all bs (mbufs (nmem d1))"
    using Cons.IH [of d1 "nxt (mbufs (nmem d) b)"] frees_only_ok [OF d1(2)] by blast
  then show ?case using d1 Cons.prems(2) unref_all_Cons [OF b]
    by (subst dev_free.simps) (auto intro: frees_only_trans)
qed

lemma xmit_frags_ok:
  assumes "distinct (p # map frag_page frs)"
  shows "\<exists>s'. xmit_frags frs p n s = (n + int (chain_len (mbufs s) (map frag_page frs)), s') \<and> s' = s\<lparr>mbufs := mbufs s'\<rparr> \<and>
    chain (mbufs s') (Some p) (p # map frag_page frs) \<and> (\<forall>b. b \<notin> set (p # map frag_page frs) \<longrightarrow> mbufs s' b = mbufs s b) \<and>
    (\<forall>b. \<exists>x. mbufs s' b = (mbufs s b)\<lparr>nxt := x, refcnt := refcnt (mbufs s b) + (if b \<in> set (map frag_page frs) then 1 else 0)\<rparr>)"
  using assms
proof (induction frs arbitrary: p n s)
  case Nil
  have "\<exists>x. mbufs (upd_mbuf p (\<lambda>b. b\<lparr>nxt := None\<rparr>) s) b = (mbufs s b)\<lparr>nxt := x\<rparr>" for b
    by (cases "b = p") (auto intro: exI [of _ "nxt (mbufs s b)"])
  then show ?case by (simp add: chain_len_def)
next
  case (Cons fr frs)
  let ?q = "frag_page fr" and ?qs = "map frag_page frs"
  define s2 where "s2 = upd_mbuf ?q (\<lambda>b. b\<lparr>refcnt := refcnt b + 1\<rparr>) (upd_mbuf p (\<lambda>b. b\<lparr>nxt := Some ?q\<rparr>) s)"
  have ne: "p \<noteq> ?q" "p \<notin> set ?qs" "?q \<notin> set ?qs" using Cons.prems by auto
  have s2: "\<exists>x. mbufs s2 b = (mbufs s b)\<lparr>nxt := x, refcnt := refcnt (mbufs s b) + (if b = ?q then 1 else 0)\<rparr>" for b
    using ne(1) by (cases "b = p"; cases "b = ?q") (auto simp: s2_def intro: exI [of _ "nxt (mbufs s b)"])
  have dl: "seg_len (mbufs s2) b = seg_len (mbufs s) b" for b using s2 [of b] by auto
  obtain s' where s': "xmit_frags frs ?q (n + int (seg_len (mbufs s2) ?q)) s2 = (n + int (seg_len (mbufs s2) ?q) + int (chain_len (mbufs s2) ?qs), s')"
      "s' = s2\<lparr>mbufs := mbufs s'\<rparr>" "chain (mbufs s') (Some ?q) (?q # ?qs)" "\<forall>b. b \<notin> set (?q # ?qs) \<longrightarrow> mbufs s' b = mbufs s2 b"
      "\<forall>b. \<exists>x. mbufs s' b = (mbufs s2 b)\<lparr>nxt := x, refcnt := refcnt (mbufs s2 b) + (if b \<in> set ?qs then 1 else 0)\<rparr>"
    using Cons.IH [of ?q "n + int (seg_len (mbufs s2) ?q)" s2] Cons.prems by auto
  have "xmit_frags (fr # frs) p n s = (n + int (chain_len (mbufs s) (map frag_page (fr # frs))), s')"
  proof -
    have "xmit_frags (fr # frs) p n s = xmit_frags frs ?q (n + int (seg_len (mbufs s2) ?q)) s2"
      by (simp only: xmit_frags.simps Let_def s2_def)
    then show ?thesis using s'(1) by (simp add: chain_len_def dl del: of_nat_unat)
  qed
  moreover have "s' = s\<lparr>mbufs := mbufs s'\<rparr>" using s'(2) unfolding s2_def by (metis (no_types, lifting) shm.surjective shm.update_convs(12))
  moreover have "nxt (mbufs s' p) = Some ?q" using s'(4) ne by (simp add: s2_def)
  moreover have "b \<notin> set (p # map frag_page (fr # frs)) \<Longrightarrow> mbufs s' b = mbufs s b" for b using s'(4) by (simp add: s2_def)
  moreover have "\<exists>x. mbufs s' b = (mbufs s b)\<lparr>nxt := x, refcnt := refcnt (mbufs s b) + (if b \<in> set (map frag_page (fr # frs)) then 1 else 0)\<rparr>" for b
  proof -
    obtain x where x: "mbufs s' b = (mbufs s2 b)\<lparr>nxt := x, refcnt := refcnt (mbufs s2 b) + (if b \<in> set ?qs then 1 else 0)\<rparr>"
      using s'(5) by blast
    obtain y where "mbufs s2 b = (mbufs s b)\<lparr>nxt := y, refcnt := refcnt (mbufs s b) + (if b = ?q then 1 else 0)\<rparr>" using s2 by blast
    then show ?thesis using x ne(3) by (intro exI [of _ x]) auto
  qed
  ultimately show ?case using s'(3) by (intro exI [of _ s']) auto
qed

text \<open>The device enters the offload only with its two counters.\<close>

definition counted :: "netdev \<Rightarrow> u64 \<Rightarrow> u64 \<Rightarrow> netdev" where
  "counted d x y = d\<lparr>driver_tx_offload_pkts := driver_tx_offload_pkts d + x, driver_tx_wo_offload_pkts := driver_tx_wo_offload_pkts d + y\<rparr>"

lemma counted_0: "counted d 0 0 = d"
  by (simp add: counted_def)

lemma xmit_tcp_counted:
  "xmit_tcp skb addrs tot_len lin ti d = map_option (\<lambda>(l, t, _). (l, t, if gso_size skb = 0 then counted d 0 1 else counted d 1 0))
    (xmit_tcp skb addrs tot_len lin ti d0)"
  by (cases "bytes_at (unat (transport_header skb) + 12) 1 lin") (simp_all add: xmit_tcp_def Let_def counted_def split: Option.bind_split)

lemma xmit_udp_counted:
  "xmit_udp skb addrs tot_len lin ti d = map_option (\<lambda>(l, t, _). (l, t, d)) (xmit_udp skb addrs tot_len lin ti d0)"
  by (simp add: xmit_udp_def Let_def split: Option.bind_split)

lemma xmit_offload_indep:
  assumes "xmit_offload skb lin ti d = Some (lin', ti', d1)"
  shows "\<exists>x y. xmit_offload skb lin ti d2 = Some (lin', ti', counted d2 x y)"
proof (cases "skb_ip_summed skb = CHECKSUM_PARTIAL \<and> skb_protocol skb = ETH_P_IP")
  case False
  then show ?thesis using assms by (auto simp: xmit_offload_def intro!: exI [of _ 0] simp: counted_0)
next
  case True
  then obtain l addrs tot_len proto t where run: "\<And>d. xmit_offload skb lin ti d =
      (if proto = IPPROTO_TCP then xmit_tcp skb addrs tot_len l t d else if proto = IPPROTO_UDP then xmit_udp skb addrs tot_len l t d else Some (l, t, d))"
    using assms by (auto simp: xmit_offload_def Let_def split: Option.bind_splits)
  show ?thesis
    using assms xmit_tcp_counted [of skb addrs tot_len l t d2 d] xmit_udp_counted [of skb addrs tot_len l t d2 d] counted_0 [of d2]
    unfolding run by (auto split: if_splits) metis+
qed

lemma kfree_owned:
  assumes "pools_ok d" "distinct (map frag_page (frags skb))" "users skb = 1" "\<not> cloned skb" "header_mbuf skb = None"
  shows "\<exists>skb' d'. kfree_skb skb d = Some (skb', d') \<and> mbufs (nmem d') = unref_all (map frag_page (frags skb)) (mbufs (nmem d)) \<and>
    tx_queue d' = tx_queue d \<and> infos d' = infos d \<and> tx_dropped d' = tx_dropped d"
proof -
  obtain d1 where d1: "fold_opt (\<lambda>fr. dev_free_seg (frag_page fr)) (frags skb) d = Some d1" "frees_only d d1"
      "mbufs (nmem d1) = unref_all (map frag_page (frags skb)) (mbufs (nmem d))"
    using free_frags_ok [OF assms(1,2)] by blast
  have "tx_queue d1 = tx_queue d" "infos d1 = infos d" "tx_dropped d1 = tx_dropped d"
    using d1(2) by (auto simp: frees_only_def)
  then show ?thesis using assms(3-5) d1(1,3)
    by (cases "skb_fclone skb") (auto simp: kfree_skb_def skb_release_data_def kfree_skbmem_def free_header_def Let_def)
qed

text \<open>The packet as the card is offered it: \<open>mb\<close> are the buffers before, \<open>mb'\<close> those at that moment.\<close>

definition prepared :: "net_skb \<Rightarrow> nat \<Rightarrow> u8 list \<Rightarrow> (nat \<Rightarrow> rte_mbuf) \<Rightarrow> (nat \<Rightarrow> rte_mbuf) \<Rightarrow> bool" where
  "prepared skb h lin mb mb' \<longleftrightarrow>
     (let pages = map frag_page (frags skb) in
      chain mb' (Some h) (h # pages) \<and>
      payload mb' (h # pages) = take (unat (skb_headlen skb)) (drop (skb_pos skb) lin) @ payload mb pages \<and>
      nb_segs (mb' h) = of_nat (1 + length pages) \<and> pkt_len (mb' h) = of_nat (unat (skb_headlen skb) + chain_len mb pages))"

lemma prepared_cong:
  assumes "\<And>b. b \<in> set (h # map frag_page (frags skb)) \<Longrightarrow> nxt (mb'' b) = nxt (mb' b) \<and> data_len (mb'' b) = data_len (mb' b) \<and>
    data (mb'' b) = data (mb' b) \<and> nb_segs (mb'' b) = nb_segs (mb' b) \<and> pkt_len (mb'' b) = pkt_len (mb' b)"
  shows "prepared skb h lin mb mb'' = prepared skb h lin mb mb'"
proof -
  let ?bs = "h # map frag_page (frags skb)"
  have "chain mb'' (Some h) ?bs = chain mb' (Some h) ?bs" using assms by (intro chain_cong) blast
  moreover have "payload mb'' ?bs = payload mb' ?bs" using assms by (intro payload_cong) blast
  ultimately show ?thesis using assms [of h] by (simp add: prepared_def Let_def)
qed

lemma preparedI:
  assumes "h \<notin> set (map frag_page (frags skb))" "chain mb' (Some h) (h # map frag_page (frags skb))"
    and "\<And>b. data_len (mb' b) = (if b = h then ucast (skb_headlen skb) else data_len (mb b))"
    and "\<And>b. data (mb' b) = (if b = h then drop (skb_pos skb) lin else data (mb b))" "unat (skb_headlen skb) < 2 ^ 16"
    and "nb_segs (mb' h) = of_nat (1 + length (map frag_page (frags skb)))"
    and "pkt_len (mb' h) = of_nat (unat (skb_headlen skb) + chain_len mb (map frag_page (frags skb)))"
  shows "prepared skb h lin mb mb'"
proof -
  have "unat (ucast (skb_headlen skb) :: u16) = unat (skb_headlen skb)"
    using assms(5) by (simp add: unsigned_ucast_eq take_bit_nat_eq_self_iff)
  moreover have "payload mb' (map frag_page (frags skb)) = payload mb (map frag_page (frags skb))"
    using assms(1,3,4) by (intro payload_cong) auto
  ultimately show ?thesis using assms(2,6,7) assms(3,4) [of h] by (simp add: prepared_def Let_def)
qed

lemma xmit_prepares:
  assumes "header_mbuf skb = Some h" "distinct (h # map frag_page (frags skb))" "pools_ok d" "unat (skb_headlen skb) < 2 ^ 16"
    and "xmit_offload skb (data (mbufs (nmem d) h)) (infos d h) d = Some (lin, ti, d1)"
  shows "\<exists>D. dpdk_xmit_frame taken skb d = do { d4 \<leftarrow> dpdk_dev_enqueue_for_tx taken h D; kfree_skb (skb\<lparr>header_mbuf := None\<rparr>) d4 } \<and>
    pools_ok D \<and> prepared skb h lin (mbufs (nmem d)) (mbufs (nmem D)) \<and>
    (\<forall>b. refcnt (mbufs (nmem D) b) = refcnt (mbufs (nmem d) b) + (if b \<in> set (map frag_page (frags skb)) then 1 else 0)) \<and>
    infos D h = ti \<and> tx_queue D = tx_queue d \<and> tx_dropped D = tx_dropped d"
proof -
  let ?pages = "map frag_page (frags skb)" and ?mb = "mbufs (nmem d)" and ?dl = "ucast (skb_headlen skb) :: u16"
  define s1 where "s1 = xmit_head skb h d"
  have s1: "\<exists>v. s1 = upd_mbuf h (\<lambda>b. b\<lparr>data_len := ?dl, data_off := v, nb_segs := 1 + of_nat (length (frags skb))\<rparr>) (nmem d)"
    unfolding s1_def xmit_head_def Let_def by blast
  have dl: "unat ?dl = unat (skb_headlen skb)" using assms(4) by (simp add: unsigned_ucast_eq take_bit_nat_eq_self_iff)
  obtain n s2 where s2: "xmit_frags (frags skb) h (int (unat (data_len (mbufs s1 h)))) s1 = (n, s2)" "s2 = s1\<lparr>mbufs := mbufs s2\<rparr>"
      "n = int (unat ?dl) + int (chain_len (mbufs s1) ?pages)"
      "chain (mbufs s2) (Some h) (h # ?pages)"
      "\<And>b. \<exists>x. mbufs s2 b = (mbufs s1 b)\<lparr>nxt := x, refcnt := refcnt (mbufs s1 b) + (if b \<in> set ?pages then 1 else 0)\<rparr>"
    using xmit_frags_ok [OF assms(2), of "int (unat (data_len (mbufs s1 h)))" s1] s1 by auto
  define d2 where "d2 = d\<lparr>nmem := upd_mbuf h (\<lambda>b. b\<lparr>pkt_len := of_int n\<rparr>) s2\<rparr>"
  obtain x y where off: "xmit_offload skb (data (?mb h)) (infos d h) d2 = Some (lin, ti, counted d2 x y)"
    using xmit_offload_indep [OF assms(5)] by blast
  define D where "D = (counted d2 x y)\<lparr>nmem := upd_mbuf h (\<lambda>b. b\<lparr>data := drop (skb_pos skb) lin\<rparr>) (nmem d2), infos := (infos d)(h := ti)\<rparr>"
  have "dpdk_xmit_frame taken skb d = do { d4 \<leftarrow> dpdk_dev_enqueue_for_tx taken h D; kfree_skb (skb\<lparr>header_mbuf := None\<rparr>) d4 }"
    using off assms(1) s2(1) unfolding dpdk_xmit_frame_def Let_def
    by (simp add: s1_def [symmetric] d2_def [symmetric] D_def counted_def del: of_nat_unat) (simp add: d2_def)
  moreover have "pools_ok D"
  proof -
    have "mbuf_pool s2 = mbuf_pool (nmem d)" by (subst s2(2)) (use s1 in auto)
    then show ?thesis using assms(3) by (simp add: D_def d2_def pools_ok_def counted_def)
  qed
  moreover have "prepared skb h lin ?mb (mbufs (nmem D))"
  proof (rule preparedI)
    show "h \<notin> set ?pages" using assms(2) by simp
    then have "chain_len (mbufs s1) ?pages = chain_len ?mb ?pages"
      unfolding chain_len_def by (intro arg_cong [of _ _ sum_list] map_cong) (use s1 in auto)
    then show "pkt_len (mbufs (nmem D) h) = of_nat (unat (skb_headlen skb) + chain_len ?mb ?pages)"
      using s2(3) dl by (simp add: D_def d2_def del: of_nat_unat)
    have D: "nxt (mbufs (nmem D) b) = nxt (mbufs s2 b)" for b by (simp add: D_def d2_def)
    show "chain (mbufs (nmem D)) (Some h) (h # ?pages)" using s2(4) D by (metis chain_cong)
    show "nb_segs (mbufs (nmem D) h) = of_nat (1 + length ?pages)" using s2(5) [of h] s1 by (auto simp: D_def d2_def)
    show "data_len (mbufs (nmem D) b) = (if b = h then ?dl else data_len (?mb b))"
      "data (mbufs (nmem D) b) = (if b = h then drop (skb_pos skb) lin else data (?mb b))" for b
      using s2(5) [of b] s1 by (auto simp: D_def d2_def)
  qed (rule assms(4))
  moreover have "refcnt (mbufs (nmem D) b) = refcnt (?mb b) + (if b \<in> set ?pages then 1 else 0)" for b
    using s2(5) [of b] s1 by (auto simp: D_def d2_def)
  moreover have "infos D h = ti" "tx_queue D = tx_queue d" "tx_dropped D = tx_dropped d" by (simp_all add: D_def d2_def counted_def)
  ultimately show ?thesis by blast
qed

lemma whole_frags:
  assumes "\<forall>fr \<in> set frs. page_offset fr = 0 \<and> frag_size fr = ucast (data_len (mb (frag_page fr)))" "frs = frags skb"
  shows "frag_bytes mb skb = payload mb (map frag_page frs)"
proof -
  have "unat (ucast (w :: u16) :: u32) = unat w" for w
    by (simp add: unsigned_ucast_eq take_bit_nat_eq_self_iff unsigned_less [THEN order.strict_trans2])
  then show ?thesis using assms unfolding frag_bytes_def payload_def by (simp cong: map_cong)
qed


definition small_dev :: netdev where
  "small_dev = \<lparr>nmem = two_bufs\<lparr>mbufs := (mbufs two_bufs)
       (20 := (mbufs two_bufs 20)\<lparr>data_len := 20, data := replicate 12 7 @ [0x81, 0, 0, 5, 8, 0, 1, 2]\<rparr>,
        22 := (mbufs two_bufs 22)\<lparr>data_len := 18, data := replicate 12 7 @ [8, 0, 1, 2, 3, 4]\<rparr>)\<rparr>,
     pool_of = (\<lambda>_. None), pools = (\<lambda>_. rte_ring_init 0 8 0),
     infos = (\<lambda>_. \<lparr>buf_len = 2048, ol_flags = 0, l2_len = 0, l3_len = 0, l4_len = 0, tso_segsz = 0\<rparr>), head_cache = 5, fclone_cache = 0,
     tx_queue = [], submitted = [], transmitted = 0, tx_dropped = 0, received = 0, driver_tx_offload_pkts = 0, driver_tx_wo_offload_pkts = 0\<rparr>"

theorem rx_burst_submitted_witness:
  "\<exists>d' skbs. rx_construct_skb_and_submit \<lparr>dev_addr = [], broadcast = []\<rparr> [20, 22] small_dev = Some d' \<and> submitted d' = skbs \<and>
    map (frame_of d') skbs = [replicate 12 7 @ [8, 0, 1, 2], replicate 12 7 @ [8, 0, 1, 2, 3, 4]]"
proof -
  have "rx_frame_ok small_dev 20" "rx_frame_ok small_dev 22" by (simp_all add: rx_frame_ok_def small_dev_def)
  moreover have "strip_tag (data (mbufs (nmem small_dev) 20)) = replicate 12 7 @ [8, 0, 1, 2]"
      "strip_tag (data (mbufs (nmem small_dev) 22)) = replicate 12 7 @ [8, 0, 1, 2, 3, 4]"
    by (simp_all add: small_dev_def strip_tag_def be16_def)
  ultimately show ?thesis
    using rx_burst_submitted [of "[20, 22]" small_dev "\<lparr>dev_addr = [], broadcast = []\<rparr>"] by (auto simp: small_dev_def)
qed


end
