(* ===== verification/Datagram.thy ===== *)
theory Datagram
  imports Dpdk_Device
begin

text \<open>
  The way of received data to the application: \<open>skb_copy_datagram_iovec\<close> of \<open>net/core/datagram.c\<close> hands the buffers of a
  socket buffer to an \<open>iovec\<close>. Lengths are below \<open>2 ^ 31\<close>, where \<open>int\<close> and \<open>unsigned\<close> agree. \<open>None\<close> is the exit when
  the header buffer cannot be adjusted. Lists of socket buffers (\<open>frag_list\<close>) are not modelled; the statistics counters are left out.
\<close>

abbreviation (input) EFAULT :: int where "EFAULT \<equiv> 14"

fun copy_frags :: "skb_frag list \<Rightarrow> int \<Rightarrow> int \<Rightarrow> int \<Rightarrow> iovec \<times> shm \<Rightarrow> (int \<times> iovec \<times> shm) option" where
  "copy_frags [] start off len st = Some (if len = 0 then 0 else - EFAULT, st)"
| "copy_frags (fr # frs) start off len st =
     (let endp = start + uint (frag_size fr); copy = endp - off in
      if copy > 0
      then let copy = min copy len in
           do { (err, st) \<leftarrow> memcpy_toiovec (frag_page fr) (uint (page_offset fr) + off - start) copy st;
                if err \<noteq> 0 then Some (- EFAULT, st)
                else if len - copy = 0 then Some (0, st)
                else copy_frags frs endp (off + copy) (len - copy) st }
      else copy_frags frs endp off len st)"

text \<open>
  \<open>skb->data\<close> counted from the start of the data of the header buffer. The second result is the socket buffer, and
  the third whether the socket was told that data is ready, which it is when \<open>has_sock\<close>, that is \<open>skb->sk\<close> has a socket.
\<close>

definition data_pos :: "net_skb \<Rightarrow> nat \<Rightarrow> shm \<Rightarrow> u16" where
  "data_pos skb h s = head_off skb + of_nat (skb_pos skb) - data_off (mbufs s h)"

definition skb_copy_datagram_iovec ::
  "bool \<Rightarrow> net_skb \<Rightarrow> int \<Rightarrow> int \<Rightarrow> iovec \<times> shm \<Rightarrow> (int \<times> net_skb \<times> bool \<times> iovec \<times> shm) option" where
  "skb_copy_datagram_iovec has_sock skb off len st =
     (case st of (iov, s) \<Rightarrow>
      let start = uint (skb_headlen skb); copy = start - off in
      do { h \<leftarrow> header_mbuf skb;
           s \<leftarrow> rte_pktmbuf_adj h (data_pos skb h s) s;
           if copy > 0
           then let copy = min copy len in
                do { (err, st) \<leftarrow> memcpy_toiovec h off copy (iov, s);
                     if err \<noteq> 0 then Some (- EFAULT, skb, False, st)
                     else let skb = skb\<lparr>skb_pos := nat (int (skb_pos skb) + copy)\<rparr> in
                     if len - copy = 0 then Some (0, skb, has_sock, st)
                     else map_option (\<lambda>(r, st). (r, skb, has_sock, st)) (copy_frags (frags skb) start (off + copy) (len - copy) st) }
           else map_option (\<lambda>(r, st). (r, skb, False, st)) (copy_frags (frags skb) start off len (iov, s)) })"

section \<open>Delivering a whole socket buffer\<close>

lemma deliver_data_len:
  assumes "deliver (m, off) (iov, s) = Some (iov', s')" "b \<noteq> m"
  shows "data_len (mbufs s' b) = data_len (mbufs s b)"
  using assms by (auto simp: deliver_def memcpy_toiovec_def rte_pktmbuf_adj_def Let_def split: Option.bind_splits option.splits if_splits)

lemma deliver_memcpy:
  "deliver (m, off) st = Some st' \<longleftrightarrow> memcpy_toiovec m off (int (seg_len (mbufs (snd st)) m) - off) st = Some (0, st')"
  by (auto simp: deliver_def split: Option.bind_splits if_splits)

abbreviation frag_len :: "skb_frag list \<Rightarrow> int" where
  "frag_len frs \<equiv> (\<Sum>fr\<leftarrow>frs. uint (frag_size fr))"

lemma frag_len_pos: "\<forall>fr \<in> set frs. 0 < uint (frag_size fr) \<Longrightarrow> 0 \<le> frag_len frs \<and> (frag_len frs = 0 \<longleftrightarrow> frs = [])"
  by (induction frs) auto

text \<open>A fragment reaches up to the end of its buffer.\<close>

definition frag_ends :: "shm \<Rightarrow> skb_frag \<Rightarrow> bool" where
  "frag_ends s fr \<longleftrightarrow> 0 < uint (frag_size fr) \<and> uint (page_offset fr) + uint (frag_size fr) = int (seg_len (mbufs s) (frag_page fr))"

lemma frag_ends_kept:
  assumes "\<And>b. b \<noteq> p \<Longrightarrow> data_len (mbufs s' b) = data_len (mbufs s b)" "p \<notin> set (map frag_page frs)" "\<forall>fr \<in> set frs. frag_ends s fr"
  shows "\<forall>fr \<in> set frs. frag_ends s' fr"
proof
  fix fr assume "fr \<in> set frs"
  then have "frag_page fr \<noteq> p" "frag_ends s fr" using assms(2,3) by auto
  then show "frag_ends s' fr" using assms(1) by (simp add: frag_ends_def)
qed

definition frag_item :: "skb_frag \<Rightarrow> nat \<times> int" where
  "frag_item fr = (frag_page fr, uint (page_offset fr))"

lemma copy_frags_deliver:
  assumes "\<forall>fr \<in> set frs. frag_ends (snd st) fr" "distinct (map frag_page frs)" "fold_opt deliver (map frag_item frs) st = Some st'"
  shows "copy_frags frs start start (frag_len frs) st = Some (0, st')"
  using assms
proof (induction frs arbitrary: start st)
  case (Cons fr frs)
  obtain st1 where st1: "deliver (frag_item fr) st = Some st1" "fold_opt deliver (map frag_item frs) st1 = Some st'"
    using Cons.prems(3) by (auto split: Option.bind_splits)
  have fr: "0 < uint (frag_size fr)" "int (seg_len (mbufs (snd st)) (frag_page fr)) - uint (page_offset fr) = uint (frag_size fr)"
    using Cons.prems(1) by (auto simp: frag_ends_def)
  then have copy: "memcpy_toiovec (frag_page fr) (uint (page_offset fr)) (uint (frag_size fr)) st = Some (0, st1)"
    using st1(1) by (simp add: frag_item_def deliver_memcpy)
  have pos: "0 \<le> frag_len frs" "frag_len frs = 0 \<longleftrightarrow> frs = []" using frag_len_pos [of frs] Cons.prems(1) by (auto simp: frag_ends_def)
  have "b \<noteq> frag_page fr \<Longrightarrow> data_len (mbufs (snd st1) b) = data_len (mbufs (snd st) b)" for b
    using st1(1) deliver_data_len by (cases st; cases st1) (auto simp: frag_item_def)
  then have "\<forall>g \<in> set frs. frag_ends (snd st1) g" by (rule frag_ends_kept) (use Cons.prems(1,2) in auto)
  then have "copy_frags frs (start + uint (frag_size fr)) (start + uint (frag_size fr)) (frag_len frs) st1 = Some (0, st')"
    using Cons.IH [OF _ _ st1(2)] Cons.prems(2) by simp
  then show ?case using copy fr(1) pos st1(2) by (auto simp: Let_def)
qed simp

lemma datagram_delivered:
  assumes h: "header_mbuf skb = Some h" "distinct (h # map frag_page (frags skb))"
    and pos: "pos = unat (data_pos skb h s)" "pos + unat (skb_headlen skb) = seg_len (mbufs s) h" "0 < unat (skb_headlen skb)"
    and frs: "\<forall>fr \<in> set (frags skb). frag_ends s fr"
    and bufs: "\<forall>b \<in> set (h # map frag_page (frags skb)). nxt (mbufs s b) = None \<and> seg_len (mbufs s) b \<le> length (data (mbufs s b))"
  shows "\<exists>skb' s1 st. skb_copy_datagram_iovec has_sock skb 0 (uint (skb_headlen skb) + frag_len (frags skb))
      (\<lparr>iov_head = None, iov_tail = None, iov_len = 0\<rparr>, s) = Some (0, skb', has_sock, st) \<and>
    rte_pktmbuf_adj h (data_pos skb h s) s = Some s1 \<and> delivered ((h, 0) # map frag_item (frags skb)) s1 st"
proof -
  let ?iov = "\<lparr>iov_head = None, iov_tail = None, iov_len = 0\<rparr>" and ?xs = "(h, 0) # map frag_item (frags skb)"
  have p: "(of_int (int pos) :: u16) = data_pos skb h s" "int pos \<le> int (seg_len (mbufs s) h)"
    using pos(1) by simp (use pos(2) in \<open>simp del: of_nat_unat\<close>)
  define s1 where "s1 = upd_mbuf h (\<lambda>b. b\<lparr>data_len := data_len b - data_pos skb h s, data_off := data_off b + data_pos skb h s,
      pkt_len := pkt_len b - ucast (data_pos skb h s), data := drop pos (data b)\<rparr>) s"
  have adj: "rte_pktmbuf_adj h (data_pos skb h s) s = Some s1" "seg_len (mbufs s1) h = unat (skb_headlen skb)"
    using adj_ok(2,3) [OF _ p(2)] pos(2) unfolding p(1) by (simp_all add: s1_def)
  have same: "b \<noteq> h \<Longrightarrow> mbufs s1 b = mbufs s b" for b by (simp add: s1_def)
  have ok: "nxt (mbufs s1 m) = None \<and> seg_len (mbufs s1) m \<le> length (data (mbufs s1 m)) \<and> 0 \<le> off \<and> off \<le> int (seg_len (mbufs s1) m)"
    if x: "(m, off) \<in> set ?xs" for m off
  proof (cases "m = h")
    case True
    then have "off = 0" using x h(2) by (auto simp: frag_item_def)
    moreover have "unat (skb_headlen skb) \<le> length (data (mbufs s h)) - pos" using bufs pos(2) by auto
    ultimately show ?thesis using True adj(2) bufs by (simp add: s1_def del: of_nat_unat)
  next
    case False
    then obtain fr where "fr \<in> set (frags skb)" "m = frag_page fr" "off = uint (page_offset fr)" using x by (auto simp: frag_item_def)
    then show ?thesis using frs bufs same [OF False] by (auto simp: frag_ends_def)
  qed
  have "map fst ?xs = h # map frag_page (frags skb)" by (simp add: frag_item_def)
  then obtain st where st: "fold_opt deliver ?xs (?iov, s1) = Some st" "delivered ?xs s1 st"
    using deliver_all [of ?xs s1] ok h(2) by metis
  obtain st1 where st1: "deliver (h, 0) (?iov, s1) = Some st1" "fold_opt deliver (map frag_item (frags skb)) st1 = Some st"
    using st(1) by (auto split: Option.bind_splits)
  have "b \<noteq> h \<Longrightarrow> data_len (mbufs (snd st1) b) = data_len (mbufs s b)" for b
    using st1(1) deliver_data_len same by (cases st1) auto
  then have "\<forall>fr \<in> set (frags skb). frag_ends (snd st1) fr" by (rule frag_ends_kept) (use frs h(2) in auto)
  then have fr: "copy_frags (frags skb) start start (frag_len (frags skb)) st1 = Some (0, st)" for start
    using copy_frags_deliver [OF _ _ st1(2)] h(2) by simp
  have pos': "0 \<le> frag_len (frags skb)" "frag_len (frags skb) = 0 \<longleftrightarrow> frags skb = []"
    using frag_len_pos [of "frags skb"] frs by (auto simp: frag_ends_def)
  have "memcpy_toiovec h 0 (uint (skb_headlen skb)) (?iov, s1) = Some (0, st1)" using st1(1) adj(2) by (simp add: deliver_memcpy del: of_nat_unat) simp
  moreover have "0 < uint (skb_headlen skb)" using pos(3) by (metis of_nat_0_less_iff of_nat_unat)
  moreover obtain a b where "st = (a, b)" by fastforce
  ultimately show ?thesis using h(1) adj(1) pos' fr st(2) st1(2)
    by (cases "frags skb = []") (auto simp: skb_copy_datagram_iovec_def Let_def min_def)
qed


section \<open>From the wire to the application\<close>

text \<open>The driver only makes linear socket buffers.\<close>

lemma linear_delivered:
  assumes P: "header_mbuf P = Some m" "frags P = []" "0 < unat (skb_headlen P)"
    and s: "nxt (mbufs s m) = None" "seg_len (mbufs s) m = length (data (mbufs s m))"
      "unat (data_pos P m s) + unat (skb_headlen P) = length (data (mbufs s m))"
  shows "\<exists>skb' iov s2. skb_copy_datagram_iovec has_sock P 0 (uint (skb_headlen P))
      (\<lparr>iov_head = None, iov_tail = None, iov_len = 0\<rparr>, s) = Some (0, skb', has_sock, iov, s2) \<and>
    chain (mbufs s2) (iov_head iov) [m] \<and> payload (mbufs s2) [m] = drop (unat (data_pos P m s)) (data (mbufs s m)) \<and>
    iov_len iov = uint (skb_headlen P) \<and> pkt_len (mbufs s2 m) = of_nat (unat (skb_headlen P)) \<and>
    refcnt (mbufs s2 m) = refcnt (mbufs s m) + 1"
proof -
  let ?n = "unat (data_pos P m s)" and ?iov = "\<lparr>iov_head = None, iov_tail = None, iov_len = 0\<rparr>"
  obtain skb' s1 iov s2 where run: "skb_copy_datagram_iovec has_sock P 0 (uint (skb_headlen P) + frag_len (frags P)) (?iov, s) = Some (0, skb', has_sock, iov, s2)"
      "rte_pktmbuf_adj m (data_pos P m s) s = Some s1" "delivered ((m, 0) # map frag_item (frags P)) s1 (iov, s2)"
    using datagram_delivered [of P m ?n s has_sock] assms by auto
  have "unat (data_len (mbufs s m) - data_pos P m s) = unat (skb_headlen P)"
    using s(2,3) by (simp add: unat_sub word_le_nat_alt)
  then have s1: "seg_len (mbufs s1) m = unat (skb_headlen P)" "data (mbufs s1 m) = drop ?n (data (mbufs s m))" "refcnt (mbufs s1 m) = refcnt (mbufs s m)"
    using run(2) by (auto simp: rte_pktmbuf_adj_def split: if_splits)
  have "take (unat (skb_headlen P)) (drop ?n (data (mbufs s m))) = drop ?n (data (mbufs s m))" using s(3) by simp
  then have dl: "iov_len iov = int (unat (skb_headlen P))" "chain (mbufs s2) (iov_head iov) [m]" "filled (mbufs s2) [m]"
      "payload (mbufs s2) [m] = drop ?n (data (mbufs s m))" "pkt_len (mbufs s2 m) = of_nat (chain_len (mbufs s2) [m])"
      "refcnt (mbufs s2 m) = refcnt (mbufs s1 m) + 1"
    using run(3) P(2) s1(1,2) by (simp_all add: delivered_def Let_def del: of_nat_unat)
  have "chain_len (mbufs s2) [m] = unat (skb_headlen P)" using length_payload [OF dl(3)] s(3) unfolding dl(4) by simp
  then show ?thesis using run(1) dl(1,2,4-6) s1(3) P(2) by simp
qed

lemma pull_carried:
  assumes c: "carries f lin m skb" "fr = strip_tag f" "ETH_HLEN + n < length fr" "length lin < 2 ^ 16"
    and s: "head_off skb = data_off (mbufs s m)" "P = skb_pull_inline n skb"
  shows "header_mbuf P = Some m" "frags P = []" "unat (skb_headlen P) = length fr - (ETH_HLEN + n)"
    "unat (data_pos P m s) + unat (skb_headlen P) = length lin" "drop (unat (data_pos P m s)) lin = drop (ETH_HLEN + n) fr"
proof -
  have fr: "fr = drop (unat (mac_header skb)) lin" "skb_pos skb = unat (mac_header skb) + 14" "skb_pos skb + unat (skb_len skb) = length lin"
    using c(1,2) by (auto simp: carries_def)
  then have L: "length fr = 14 + unat (skb_len skb)" "n < unat (skb_len skb)" using c(3) by auto
  have un: "unat (of_nat n :: u32) = n" using L(2) c(4) fr(3) by (simp add: unsigned_of_nat take_bit_nat_eq_self_iff)
  have P: "P = skb\<lparr>skb_len := skb_len skb - of_nat n, skb_pos := skb_pos skb + n\<rparr>"
    using L(2) un by (simp add: s(2) skb_pull_inline_def word_less_nat_alt)
  have hl: "unat (skb_headlen P) = unat (skb_len skb) - n"
    using c(1) L(2) un by (simp add: P skb_headlen_def carries_def unat_sub word_le_nat_alt)
  have dp: "unat (data_pos P m s) = skb_pos skb + n"
    using s(1) L(2) c(4) fr(3) by (simp add: data_pos_def P unsigned_of_nat take_bit_nat_eq_self_iff flip: of_nat_add)
  show "header_mbuf P = Some m" "frags P = []" using c(1) by (simp_all add: P carries_def)
  show "unat (skb_headlen P) = length fr - (14 + n)" "unat (data_pos P m s) + unat (skb_headlen P) = length lin"
    using hl dp L fr(3) by simp_all
  show "drop (unat (data_pos P m s)) lin = drop (14 + n) fr" unfolding dp fr(1,2) by (simp add: ac_simps)
qed

text \<open>
  C39. The way of a frame from the card to the chain of buffers an application reads: the driver submits it, the protocols cut
  off their headers of together \<open>n\<close> bytes, and copying the datagram hands the buffer itself on. The chain then holds exactly the bytes of the frame
  behind these headers, whether there was a VLAN tag or not, its lengths agree, and the buffer has one
  reference more, so that releasing the socket buffer does not free it.
\<close>

theorem frame_reaches_application:
  assumes d: "0 < head_cache d" "rx_frame_ok d m" "nxt (mbufs (nmem d) m) = None"
    and n: "fr = strip_tag (data (mbufs (nmem d) m))" "ETH_HLEN + n < length fr"
  shows "\<exists>d' skb skb' iov s. rx_construct_skb_and_submit dev [m] d = Some d' \<and> submitted d' = submitted d @ [skb] \<and>
    skb_copy_datagram_iovec has_sock (skb_pull_inline n skb) 0 (int (length fr) - int ETH_HLEN - int n)
      (\<lparr>iov_head = None, iov_tail = None, iov_len = 0\<rparr>, nmem d') = Some (0, skb', has_sock, iov, s) \<and>
    chain (mbufs s) (iov_head iov) [m] \<and> payload (mbufs s) [m] = drop (ETH_HLEN + n) fr \<and>
    iov_len iov = int (length fr) - int ETH_HLEN - int n \<and> pkt_len (mbufs s m) = of_nat (length fr - (ETH_HLEN + n)) \<and>
    refcnt (mbufs s m) = refcnt (mbufs (nmem d) m) + 1"
proof -
  let ?f = "data (mbufs (nmem d) m)" and ?iov = "\<lparr>iov_head = None, iov_tail = None, iov_len = 0\<rparr>"
  let ?d = "d\<lparr>received := received d + 1\<rparr>"
  obtain k where k: "head_cache ?d = Suc k" using d(1) by (cases "head_cache d") auto
  obtain skb lin where one: "rx_one dev m ?d =
      Some (?d\<lparr>head_cache := k, nmem := upd_mbuf m (\<lambda>b. b\<lparr>data := lin\<rparr>) (nmem d), submitted := submitted d @ [skb]\<rparr>)"
      and c: "carries ?f lin m skb" and off: "head_off skb = data_off (mbufs (nmem d) m)"
    using rx_one_ok [OF k, of m dev] d(2) by (auto simp: rx_frame_ok_def)
  define s where "s = upd_mbuf m (\<lambda>b. b\<lparr>data := lin\<rparr>) (nmem d)"
  define P where "P = skb_pull_inline n skb"
  have len: "seg_len (mbufs s) m = length lin" "length lin < 2 ^ 16" "data (mbufs s m) = lin"
    using d(2) c unsigned_less [of "data_len (mbufs (nmem d) m)", where ?'a = nat] by (simp_all add: rx_frame_ok_def carries_def s_def)
  have "head_off skb = data_off (mbufs s m)" using off by (simp add: s_def)
  note pull = pull_carried [OF c n len(2) this P_def]
  have "uint (skb_headlen P) = int (unat (skb_headlen P))" by simp
  then have ul: "uint (skb_headlen P) = int (length fr) - 14 - int n" unfolding pull(3) using n(2) by (simp add: of_nat_diff)
  have "0 < unat (skb_headlen P)" unfolding pull(3) using n(2) by simp
  moreover have "nxt (mbufs s m) = None" "refcnt (mbufs s m) = refcnt (mbufs (nmem d) m)" using d(3) by (simp_all add: s_def)
  ultimately obtain skb' iov s2 where "skb_copy_datagram_iovec has_sock P 0 (int (length fr) - 14 - int n) (?iov, s) = Some (0, skb', has_sock, iov, s2)"
      "chain (mbufs s2) (iov_head iov) [m]" "payload (mbufs s2) [m] = drop (14 + n) fr" "iov_len iov = int (length fr) - 14 - int n"
      "pkt_len (mbufs s2 m) = of_nat (length fr - (14 + n))" "refcnt (mbufs s2 m) = refcnt (mbufs (nmem d) m) + 1"
    using linear_delivered [OF pull(1,2), of s has_sock] pull(3-5) len(1,3) ul by (metis (no_types))
  then show ?thesis using one by (simp add: rx_construct_skb_and_submit_def P_def s_def)
qed

theorem frame_reaches_application_witness:
  "\<exists>d' skb skb' iov s. rx_construct_skb_and_submit \<lparr>dev_addr = [], broadcast = []\<rparr> [22] small_dev = Some d' \<and> submitted d' = [skb] \<and>
    skb_copy_datagram_iovec False (skb_pull_inline 1 skb) 0 3 (\<lparr>iov_head = None, iov_tail = None, iov_len = 0\<rparr>, nmem d') = Some (0, skb', False, iov, s) \<and>
    payload (mbufs s) [22] = [2, 3, 4]"
proof -
  have "rx_frame_ok small_dev 22" "nxt (mbufs (nmem small_dev) 22) = None" "head_cache small_dev = 5" "submitted small_dev = []"
    by (simp_all add: rx_frame_ok_def small_dev_def two_bufs_def small_shm_def)
  moreover have fr: "strip_tag (data (mbufs (nmem small_dev) 22)) = replicate 12 7 @ [8, 0, 1, 2, 3, 4]"
    by (simp add: small_dev_def strip_tag_def be16_def)
  ultimately show ?thesis
    using frame_reaches_application [of small_dev 22 "replicate 12 7 @ [8, 0, 1, 2, 3, 4]" 1 "\<lparr>dev_addr = [], broadcast = []\<rparr>" False] by fastforce
qed

end
