(* ===== verification/Sw_Loop.thy ===== *)
theory Sw_Loop
  imports Dpdk_Device
begin

unbundle bit_operations_syntax

text \<open>
  The software loop device \<open>drivers/net/dpdk/dpdk_sw_loop.c\<close>, which stands in when DPDK has no port: a sent socket buffer is copied
  into a new one, which waits in a ring until the stack polls the device. \<open>None\<close> is leaving the program or undefined behaviour. Of a
  buffer just taken from its pool only the bytes that are then written are known, and its room follows from \<open>buf_len\<close>.
\<close>

section \<open>The device\<close>

abbreviation (input) EADDRNOTAVAIL :: int where "EADDRNOTAVAIL \<equiv> 99"

definition rte_ring_mp_enqueue_burst :: "'a rte_ring \<Rightarrow> 'a list \<Rightarrow> u32 \<Rightarrow> (int \<times> 'a rte_ring) option" where
  "rte_ring_mp_enqueue_burst r obj_table n = rte_ring_mp_do_enqueue r obj_table n RTE_RING_QUEUE_VARIABLE"

definition rte_ring_enqueue_burst :: "'a rte_ring \<Rightarrow> 'a list \<Rightarrow> u32 \<Rightarrow> (int \<times> 'a rte_ring) option" where
  "rte_ring_enqueue_burst r obj_table n =
     (if sp_enqueue (prod r) then Some (rte_ring_sp_enqueue_burst r obj_table n) else rte_ring_mp_enqueue_burst r obj_table n)"

definition rte_ring_mc_dequeue_burst :: "'a rte_ring \<Rightarrow> u32 \<Rightarrow> (int \<times> 'a list \<times> 'a rte_ring) option" where
  "rte_ring_mc_dequeue_burst r n = rte_ring_mc_do_dequeue r n RTE_RING_QUEUE_VARIABLE"

definition rte_ring_dequeue_burst :: "'a rte_ring \<Rightarrow> u32 \<Rightarrow> (int \<times> 'a list \<times> 'a rte_ring) option" where
  "rte_ring_dequeue_burst r n =
     (if sc_dequeue (cons r) then Some (rte_ring_sc_dequeue_burst r n) else rte_ring_mc_dequeue_burst r n)"

record sw_loop =
  sw_dev :: netdev
  loop_ring :: "net_skb rte_ring"

definition is_valid_ether_addr :: "u8 list \<Rightarrow> bool" where
  "is_valid_ether_addr addr \<longleftrightarrow> \<not> (1 AND hd addr \<noteq> 0) \<and> \<not> (\<forall>b \<in> set addr. b = 0)"

definition lpbkdpdk_set_mac :: "u8 list \<Rightarrow> dev_addrs \<Rightarrow> int \<times> dev_addrs" where
  "lpbkdpdk_set_mac addr dev =
     (if \<not> is_valid_ether_addr addr then (- EADDRNOTAVAIL, dev) else (0, dev\<lparr>dev_addr := addr\<rparr>))"

text \<open>There is one queue per port, so that only the number 0 has a pool; any other leaves the program.\<close>

definition get_direct_pool :: "nat \<Rightarrow> nat option" where
  "get_direct_pool queue_id = (if queue_id < 1 then Some queue_id else None)"

definition dev_alloc :: "nat \<Rightarrow> netdev \<Rightarrow> (nat option \<times> netdev) option" where
  "dev_alloc k d =
     do { (m, s) \<leftarrow> rte_pktmbuf_alloc ((nmem d)\<lparr>mbuf_pool := pools d k\<rparr>);
          Some (m, d\<lparr>nmem := s\<lparr>mbuf_pool := mbuf_pool (nmem d)\<rparr>, pools := (pools d)(k := mbuf_pool s)\<rparr>) }"

definition loop_head :: "net_skb \<Rightarrow> nat \<Rightarrow> netdev \<Rightarrow> netdev" where
  "loop_head skb head d =
     (let ti = infos d head;
          off = (if RTE_PKTMBUF_HEADROOM \<le> buf_len ti then RTE_PKTMBUF_HEADROOM else buf_len ti) in
      d\<lparr>nmem := upd_mbuf head (\<lambda>b. b\<lparr>data_len := ucast (skb_headlen skb), data_off := off + of_nat (skb_pos skb),
                                        data := drop (skb_pos skb) (data b)\<rparr>) (nmem d)\<rparr>)"

text \<open>
  The socket buffer made of the copy \<open>lin\<close>. Its length is still 0 when \<open>eth_type_trans\<close> runs, which therefore leaves the data where it
  is; the offsets are those of the headers behind the link header of the packet that was sent.
\<close>

definition loop_skb :: "dev_addrs \<Rightarrow> u8 list \<Rightarrow> int \<Rightarrow> int \<Rightarrow> net_skb \<Rightarrow> net_skb option" where
  "loop_skb dev lin network_offset transport_offset skb =
     do { (proto, skb) \<leftarrow> eth_type_trans dev lin skb;
          let skb = skb\<lparr>skb_protocol := proto, skb_len := of_nat (length lin), skb_ip_summed := CHECKSUM_UNNECESSARY\<rparr>;
          let skb = skb_pull_inline (unat (of_int network_offset :: u32)) skb;
          Some (skb\<lparr>transport_header := of_nat (skb_pos skb) + of_int transport_offset\<rparr>) }"

text \<open>The sent socket buffer is released and the copy in buffer \<open>c\<close> put into the ring, whose result is not looked at.\<close>

definition loop_requeue :: "dev_addrs \<Rightarrow> net_skb \<Rightarrow> nat \<Rightarrow> u8 list \<Rightarrow> netdev \<Rightarrow> sw_loop \<Rightarrow> sw_loop option" where
  "loop_requeue dev skb c lin d l =
     do { (_, d) \<leftarrow> kfree_skb skb d;
          case build_skb c d of
            (None, d) \<Rightarrow> do { d \<leftarrow> dev_free (Some c) d; Some (l\<lparr>sw_dev := d\<lparr>tx_dropped := tx_dropped d + 1\<rparr>\<rparr>) }
          | (Some nskb, d) \<Rightarrow>
            let d = d\<lparr>nmem := upd_mbuf c (\<lambda>b. b\<lparr>pkt_len := of_nat (length lin)\<rparr>) (nmem d)\<rparr> in
            do { nskb \<leftarrow> loop_skb dev lin (uint (network_header skb) - uint (mac_header skb))
                         (uint (transport_header skb) - uint (mac_header skb)) nskb;
                 if nxt (mbufs (nmem d) c) \<noteq> None then None
                 else do { (_, r) \<leftarrow> rte_ring_enqueue_burst (loop_ring l) [nskb] 1;
                           Some \<lparr>sw_dev = d\<lparr>transmitted := transmitted d + 1\<rparr>, loop_ring = r\<rparr> } } }"

text \<open>
  A socket buffer with fragments makes the code write through \<open>head\<close>, which then points to a pointer and not to a packet buffer:
  undefined behaviour.
\<close>

definition lpbkdpdk_xmit_frame :: "dev_addrs \<Rightarrow> nat \<Rightarrow> net_skb \<Rightarrow> sw_loop \<Rightarrow> sw_loop option" where
  "lpbkdpdk_xmit_frame dev port_number skb l =
     do { head \<leftarrow> header_mbuf skb;
          let d = loop_head skb head (sw_dev l);
          k \<leftarrow> get_direct_pool port_number;
          (copied_mbuf, d) \<leftarrow> dev_alloc k d;
          case copied_mbuf of
            None \<Rightarrow> do { (_, d) \<leftarrow> kfree_skb skb d; Some (l\<lparr>sw_dev := d\<lparr>tx_dropped := tx_dropped d + 1\<rparr>\<rparr>) }
          | Some c \<Rightarrow>
            let n = data_len (mbufs (nmem d) head) in
            do { lin \<leftarrow> bytes_at 0 (unat n) (data (mbufs (nmem d) head));
                 if unat (buf_len (infos d c)) < 128 + unat n then None
                 else do { d \<leftarrow> dev_free_seg head (d\<lparr>nmem := upd_mbuf c (\<lambda>b. b\<lparr>data := lin, data_len := n\<rparr>) (nmem d)\<rparr>);
                           if frags skb \<noteq> [] then None
                           else loop_requeue dev (skb\<lparr>header_mbuf := None\<rparr>) c lin (d\<lparr>nmem := upd_mbuf head (\<lambda>b. b\<lparr>nxt := None\<rparr>) (nmem d)\<rparr>) l } } }"

definition lpbkdpdk_netpoll :: "sw_loop \<Rightarrow> sw_loop option" where
  "lpbkdpdk_netpoll l =
     do { (ret, skbs, r) \<leftarrow> rte_ring_dequeue_burst (loop_ring l) (of_nat MAX_PKT_BURST);
          let d = sw_dev l;
          Some \<lparr>sw_dev = d\<lparr>submitted := submitted d @ skbs, received := received d + of_nat (length skbs)\<rparr>, loop_ring = r\<rparr> }"

section \<open>Bursts on the ring\<close>

lemma enqueue_burst_one:
  assumes "ring_ok r" "length (ring_list r) < ring_cap r"
  shows "\<exists>v r'. rte_ring_enqueue_burst r [x] 1 = Some (v, r') \<and> ring_ok r' \<and> ring_list r' = ring_list r @ [x]"
proof -
  define r' where "r' = snd (rte_ring_sp_do_enqueue r [x] 1 RTE_RING_QUEUE_VARIABLE)"
  have "ring_ok r' \<and> ring_list r' = ring_list r @ [x]"
    using sp_enqueue_variable [OF assms(1) _ r'_def] assms(2) by (simp add: ring_free_def)
  moreover have "rte_ring_enqueue_burst r [x] 1 = Some (fst (rte_ring_sp_do_enqueue r [x] 1 RTE_RING_QUEUE_VARIABLE), r')"
    using mp_do_enqueue_alone [OF assms(1)]
    by (simp add: rte_ring_enqueue_burst_def rte_ring_mp_enqueue_burst_def rte_ring_sp_enqueue_burst_def r'_def)
  ultimately show ?thesis by blast
qed

lemma dequeue_burst_all:
  assumes "ring_ok r" "length (ring_list r) \<le> unat n" "n \<noteq> 0"
  shows "\<exists>v r'. rte_ring_dequeue_burst r n = Some (v, ring_list r, r') \<and> ring_ok r' \<and> ring_list r' = []"
proof -
  let ?m = "length (ring_list r)"
  have "unat (of_nat ?m :: u32) = ?m"
    using assms(2) unsigned_less [of n, where ?'a = nat] by (simp add: unsigned_of_nat take_bit_nat_eq_self_iff)
  then have "ring_ok (deq_step r (of_nat ?m))" "ring_list (deq_step r (of_nat ?m)) = []"
    using deq_step [OF assms(1), of "of_nat ?m"] by simp_all
  moreover have "rte_ring_sc_do_dequeue r n RTE_RING_QUEUE_VARIABLE = (int ?m, ring_list r, deq_step r (of_nat ?m))"
    using sc_dequeue_variable [OF assms(1), of ?m n] assms(2) by simp
  ultimately show ?thesis using mc_do_dequeue_alone [OF assms(1)] assms(3)
    by (simp add: rte_ring_dequeue_burst_def rte_ring_mc_dequeue_burst_def rte_ring_sc_dequeue_burst_def)
qed

section \<open>Looping a packet\<close>

lemma dev_alloc_ok:
  assumes "pools_ok d" "ring_list (pools d k) = c # cs"
  shows "\<exists>q. dev_alloc k d = Some (Some c, d\<lparr>nmem := upd_mbuf c (\<lambda>b. (rte_pktmbuf_reset b)\<lparr>refcnt := 1\<rparr>) (nmem d), pools := q\<rparr>) \<and>
    (\<forall>i. ring_ok (q i))"
proof -
  have "ring_ok (pools d k)" using assms(1) by (simp add: pools_ok_def)
  then have "ring_ok (deq_step (pools d k) 1)" using ring_pop(1) assms(2) by force
  then show ?thesis using assms \<open>ring_ok (pools d k)\<close>
    by (intro exI [of _ "(pools d)(k := deq_step (pools d k) 1)"])
      (simp add: dev_alloc_def rte_pktmbuf_alloc_def rte_mempool_get_ok pools_ok_def)
qed

lemma kfree_empty:
  assumes "frags skb = []" "users skb = 1" "\<not> cloned skb" "header_mbuf skb = None"
  shows "\<exists>skb' d'. kfree_skb skb d = Some (skb', d') \<and> nmem d' = nmem d \<and> head_cache d \<le> head_cache d' \<and>
    submitted d' = submitted d \<and> tx_dropped d' = tx_dropped d"
  using assms by (cases "skb_fclone skb") (auto simp: kfree_skb_def skb_release_data_def kfree_skbmem_def free_header_def Let_def)

lemma loop_skb_ok:
  assumes "skb_pos skb = 0" "skb_len skb = 0" "skb_data_len skb = 0" "14 \<le> length lin" "length lin < 2 ^ 16"
  shows "\<exists>skb'. loop_skb dev lin 14 t skb = Some skb' \<and> header_mbuf skb' = header_mbuf skb \<and> mac_header skb' = 0 \<and> skb_pos skb' = 14 \<and>
    unat (skb_len skb') = length lin - 14 \<and> skb_ip_summed skb' = CHECKSUM_UNNECESSARY \<and>
    (ETH_P_802_3_MIN \<le> be16 (drop 12 lin) \<longrightarrow> skb_protocol skb' = be16 (drop 12 lin))"
proof -
  have u: "unat (of_nat (length lin) :: u32) = length lin" using assms(5) by (simp add: unsigned_of_nat take_bit_nat_eq_self_iff)
  then have le: "14 \<le> (of_nat (length lin) :: u32)" using assms(4) by (simp add: word_le_nat_alt)
  have "be16 (drop 12 (take 14 lin)) = be16 (drop 12 lin)" using assms(4) by (simp add: be16_def)
  moreover have "unat (of_nat (length lin) - 14 :: u32) = length lin - 14" using le u by (simp add: unat_sub)
  moreover have "skb_pull_inline 14 (skb\<lparr>mac_header := 0\<rparr>) = skb\<lparr>mac_header := 0\<rparr>" using assms(2) by (simp add: skb_pull_inline_def)
  ultimately show ?thesis using assms(1-4) le
    by (auto simp: loop_skb_def eth_type_trans_def bytes_at_def Let_def skb_headlen_def skb_pull_inline_def not_less)
qed

lemma loop_requeue_ok:
  assumes skb: "frags skb = []" "users skb = 1" "\<not> cloned skb" "header_mbuf skb = None" "uint (network_header skb) - uint (mac_header skb) = 14"
    and d: "0 < head_cache d" "nxt (mbufs (nmem d) c) = None" "14 \<le> length lin" "length lin < 2 ^ 16" "data (mbufs (nmem d) c) = lin"
    and r: "ring_ok (loop_ring l)" "length (ring_list (loop_ring l)) < ring_cap (loop_ring l)"
  shows "\<exists>l' nskb. loop_requeue dev skb c lin d l = Some l' \<and> ring_ok (loop_ring l') \<and> ring_list (loop_ring l') = ring_list (loop_ring l) @ [nskb] \<and>
    header_mbuf nskb = Some c \<and> frame_of (sw_dev l') nskb = lin \<and> skb_pos nskb = 14 \<and>
    (ETH_P_802_3_MIN \<le> be16 (drop 12 lin) \<longrightarrow> skb_protocol nskb = be16 (drop 12 lin)) \<and>
    (\<forall>b. refcnt (mbufs (nmem (sw_dev l')) b) = refcnt (mbufs (nmem d) b)) \<and>
    submitted (sw_dev l') = submitted d \<and> tx_dropped (sw_dev l') = tx_dropped d"
proof -
  obtain sk d1 where kf: "kfree_skb skb d = Some (sk, d1)" "nmem d1 = nmem d" "head_cache d \<le> head_cache d1"
      "submitted d1 = submitted d" "tx_dropped d1 = tx_dropped d"
    using kfree_empty [OF skb(1-4), of d] by auto
  obtain new where new: "build_skb c d1 = (Some new, d1\<lparr>head_cache := head_cache d1 - 1\<rparr>)" "skb_pos new = 0" "skb_len new = 0" "skb_data_len new = 0"
      "header_mbuf new = Some c"
    using d(1) kf(3) by (simp add: build_skb_def)
  obtain nskb where nskb: "loop_skb dev lin 14 (uint (transport_header skb) - uint (mac_header skb)) new = Some nskb" "header_mbuf nskb = Some c"
      "mac_header nskb = 0" "skb_pos nskb = 14" "unat (skb_len nskb) = length lin - 14"
      "ETH_P_802_3_MIN \<le> be16 (drop 12 lin) \<longrightarrow> skb_protocol nskb = be16 (drop 12 lin)"
    using loop_skb_ok [OF new(2-4) d(3,4), of dev] new(5) by metis
  obtain ret r1 where r1: "rte_ring_enqueue_burst (loop_ring l) [nskb] 1 = Some (ret, r1)" "ring_ok r1" "ring_list r1 = ring_list (loop_ring l) @ [nskb]"
    using enqueue_burst_one [OF r] by blast
  show ?thesis using kf new(1) nskb r1 d(2,3,5) skb(5)
    by (auto simp: loop_requeue_def Let_def frame_of_def)
qed



end
