(* ===== verification/Spec2Isabelle.thy ===== *)
theory Spec2Isabelle
  imports Service_Loop Api_Release Api_Init Timer_Porting Port_Config Datagram Sw_Loop
begin

text \<open>
  \<^bold>\<open>IPAugenBlick: a verification development.\<close>

  IPAugenBlick runs the TCP/IP stack of Linux 3.14 in user space, on top of DPDK. One process, the
  service, owns the network ports and the stack; applications link a small library and talk to the
  service only through shared memory: rings of pointers, blocks of per-connection flags, pools of
  command buffers and pools of packet buffers. This development models that shared memory, both
  programs on its two sides, and the pieces of DPDK they stand on. Paths below are relative to
  \<^verbatim>\<open>src/stack_and_service\<close> unless they start with \<^verbatim>\<open>dpdk-16.07\<close>.

  \<^bold>\<open>Parts of the program and the theories that model them.\<close>

  \<^item> \<^verbatim>\<open>Prelude\<close>: machine words, error numbers, folds in the option monad.

  \<^item> \<^verbatim>\<open>Rte_Ring\<close>, \<^verbatim>\<open>Rte_Ring_Fifo\<close>: the descriptor ring of
    \<^verbatim>\<open>dpdk-16.07/lib/librte_ring\<close>, one definition per C function, indices being 32-bit words that wrap.
    The second theory shows that a ring is a bounded first-in first-out queue, also across the
    wrap-around: the locale \<open>bounded_fifo\<close> is the contract, interpreted on the ring operations, and all
    later theories use a ring only through \<open>ring_list\<close>, the list it stands for.

  \<^item> \<^verbatim>\<open>Ipaug_Common\<close>: \<^verbatim>\<open>service/ipaugenblick_common/ipaugenblick_common.h\<close> (command codes, the command
    union, the per-connection block), packet buffers and pools of \<^verbatim>\<open>rte_mbuf.h\<close> and \<^verbatim>\<open>rte_mempool\<close>, and the
    record \<open>shm\<close> of everything in shared memory with its invariant \<open>shm_ok\<close>.

  \<^item> \<^verbatim>\<open>Ipaug_Server\<close>: \<^verbatim>\<open>service/ipaugenblick_service/ipaugenblick_server_side.h\<close>, the service's side of
    the shared memory: creation of all rings, readiness events, handing over of buffers and sockets.

  \<^item> \<^verbatim>\<open>App_Glue\<close>, \<^verbatim>\<open>Glue_Loop\<close>: \<^verbatim>\<open>porting/app_glue.c\<close>, the queues of sockets that can be read, written,
    accepted, closed or need buffers, and the periodic passes over them. The locale \<open>flag_queue\<close> is the
    contract of a queue with a presence flag per element; it is interpreted on the five queues.

  \<^item> \<^verbatim>\<open>Stack_Contract\<close>: what the service relies on of the stack. The operations of the stack are the
    fields of the record \<open>kops\<close>, an argument of every definition that calls it; \<open>stack_ok\<close> says that an
    operation changes only what belongs to the stack, apart from calling back into the service.

  \<^item> \<^verbatim>\<open>User_Callbacks\<close>: \<^verbatim>\<open>user_callbacks.h\<close> and \<^verbatim>\<open>user_get_buffer_callback.h\<close>, what happens when a socket can
    be written, has data, is closed or accepts.

  \<^item> \<^verbatim>\<open>Iface_Records\<close>: the encoders and record lists of \<^verbatim>\<open>porting/libinit.c\<close>.

  \<^item> \<^verbatim>\<open>Service_Loop\<close>: \<^verbatim>\<open>service/ipaugenblick_service_loop.c\<close>, every command handler, the dispatcher and a round
    of the main loop.

  \<^item> \<^verbatim>\<open>Api_State\<close>, \<^verbatim>\<open>Api_Control\<close>, \<^verbatim>\<open>Api_Data\<close>, \<^verbatim>\<open>Api_Release\<close>, \<^verbatim>\<open>Api_Credit\<close>, \<^verbatim>\<open>Api_Select\<close>, \<^verbatim>\<open>Api_Init\<close>: the
    application library, \<^verbatim>\<open>service/ipaugenblick_app_api\<close>: the tables of a process and its rings
    (\<^verbatim>\<open>ipaugenblick_ring_ops.h\<close>), the calls that post commands, sending and receiving, release of buffers, transmit
    credit, socket sets and select, and the start of a process (\<^verbatim>\<open>ipaugenblick_api.c\<close>).

  \<^item> \<^verbatim>\<open>Rte_Timer\<close>, \<^verbatim>\<open>Rte_Timer_List\<close>, \<^verbatim>\<open>Rte_Timer_Run\<close>: the timers of \<^verbatim>\<open>dpdk-16.07/lib/librte_timer\<close>, a skip list per core.
    The second theory relates the linked levels to the list of pending timers (\<open>pending\<close>), with the locale \<open>timer_store\<close> as the
    contract of insertion and removal; the third (\<open>tm_ok\<close>) ties the status of every timer to the list it is in, and shows that
    starting, stopping and running keep this; \<open>cb_safe\<close> is what callbacks may do while they run.

  \<^item> \<^verbatim>\<open>Timer_Porting\<close>: \<^verbatim>\<open>porting/timer_porting.c\<close>, \<^verbatim>\<open>porting/tasklet_workqueues_porting.c\<close> and
    \<^verbatim>\<open>porting/timing_porting.c\<close>: the kernel timers, delayed work, the clock and the conversions of time on top of them.

  \<^item> \<^verbatim>\<open>Iov_Copy\<close>: the shims of \<^verbatim>\<open>porting/mm_porting.c\<close> that move data between the stack and chains of packet buffers;
    \<open>delivered\<close> describes a chain after any number of deliveries.

  \<^item> \<^verbatim>\<open>Raw_Cksum\<close>, \<^verbatim>\<open>Dpdk_Device\<close>: \<^verbatim>\<open>drivers/net/dpdk/device.c\<close>, \<^verbatim>\<open>tx.c\<close> and \<^verbatim>\<open>rx.c\<close>, the network device of the stack on a port of
    DPDK, with what it uses of \<^verbatim>\<open>net/core/skbuff.c\<close> and \<^verbatim>\<open>net/ethernet/eth.c\<close>: packet buffers become socket buffers and back.
    \<open>internet_sum\<close> is the checksum of RFC 1071 that the code is compared with.

  \<^item> \<^verbatim>\<open>Datagram\<close>: \<open>skb_copy_datagram_iovec\<close> of \<^verbatim>\<open>net/core/datagram.c\<close>, the step from a socket buffer to the chain an application
    reads, put together with the driver and the shims.

  \<^item> \<^verbatim>\<open>Sw_Loop\<close>: \<^verbatim>\<open>drivers/net/dpdk/dpdk_sw_loop.c\<close>, the device that is used when DPDK has no port.

  \<^item> \<^verbatim>\<open>Port_Config\<close>: the configuration file, the port mask and the start of the ports in \<^verbatim>\<open>porting/libinit.c\<close>, and the naming and
    addressing of devices in \<^verbatim>\<open>drivers/net/dpdk/device.c\<close>. The calls of DPDK and of the stack are a trace (\<open>call list\<close>), their success
    is an argument; \<open>print_entry\<close> is the notation of the file that reading is compared with.

  \<^item> This theory: properties that span both processes.

  \<^bold>\<open>How the code is rendered.\<close> A C structure is a record, an enumeration a datatype, an array or a pool a
  function from numbers, a pointer a number or an option of one. An operation takes the state and returns it
  changed, with its C result. \<^const>\<open>None\<close> as the result of an operation means that the C code would not go on
  normally: it leaves the program, follows a null pointer, writes out of an array, reads memory of another
  type, or never returns. Integers keep their width where the code depends on it.

  \<^bold>\<open>What the theorems show.\<close> C1--C3: rings are FIFO queues, single and multiple producers agree. C4--C5: the service starts
  with well-formed memory, and a received buffer is delivered in order with a
  notification. C6--C9: the socket queues and their flags agree
  after every callback and pass, a pass serves every queued socket, and one sequence of events that breaks this
  rule. C10--C11: command processing returns every
  command buffer and keeps all invariants. C12--C15: receive order, conservation of command buffers over every
  sequence of control calls, opening and accepting with their error paths. C16--C20: byte-limited
  reads, release of chains, transmit credit. C21--C24: select: consistency of the ready cache, termination with a
  time limit, exactness of the answer, wake-up by the service. C25: the start of an application establishes all
  of it. C26--C27: a buffer sent by an application and a connect command on their way through both processes.
  C28--C32 are about time: the skip list is a stable priority queue, a round runs exactly the expired timers, kernel timers are
  due when they should be, the clock ticks once per round in which it is due, and
  nanoseconds are converted exactly. In them an expiry of 0 cycles is excluded, a value the cycle counter never has again after the start.
  C33: what the stack delivers to an \<open>iovec\<close> is what sending that \<open>iovec\<close> reads, byte for byte. C34--C36: the checksum the
  driver prepares is the Internet checksum, a received burst reaches the stack whole and without VLAN tags, and
  a sent socket buffer becomes a chain with the same bytes without a reference leaking. C37--C38: the configuration file is read as it is
  written, and the start gives every enabled port its addresses. C39: a frame goes from the card to
  the chain an application reads without a byte changing. C40: the loop device gives packets back. Theorems without a number show
  further laws of single operations, and faults of the code that the modelling brought up, such as timers that are started for the past.

  \<^bold>\<open>Bounds and loops.\<close> There is no fuel. Loops over lists are structural; loops that follow pointers or wait are
  \<^theory_text>\<open>partial_function (option)\<close>, so that not returning is \<^const>\<open>None\<close>, and the theorems about them state that they return.
  What happens outside a process while it waits (the events of a select, the random port numbers of a bind,
  the bytes of random generators, the clock) is an argument of the definition, mostly a finite list that is used up in
  order; the properties quantify over it.

  \<^bold>\<open>Concurrency.\<close> Both sides of a ring run one operation at a time here: a step is one call of one side. This is
  what the single-producer single-consumer rings of the program need; the compare-and-set loops of the
  multi-producer rings are modelled as they run when nobody interferes, and C3 shows that they then equal
  the single-producer code.

  \<^bold>\<open>Not modelled.\<close> The protocol code of the stack (\<^verbatim>\<open>net/\<close>, \<^verbatim>\<open>lib/\<close>, \<^verbatim>\<open>include/\<close>), a vendored body of some hundred
  thousand lines behind the contract of \<^verbatim>\<open>Stack_Contract\<close>; the calls that initialise DPDK and the stack before the ports are
  started; fragments on the loop device, where the code writes through a pointer of the wrong type; statistics and logging; the float
  arithmetic of \<^verbatim>\<open>app_glue_init_poll_intervals\<close>; the caches, layout and lookup by name of DPDK's pools.
  Of \<^verbatim>\<open>porting/mm_porting.c\<close> the allocation wrappers are left out, which only call DPDK's allocator.
\<close>

section \<open>Application and service together\<close>

text \<open>
  C26. The life of a buffer that an application sends on an idle connection: the service takes
  exactly that buffer, with the length that was sent, off the connection's ring, and when the
  stack has transmitted it the buffer is back in the pool and the connection has its whole credit
  again. No credit and no buffer is lost or invented on the way.
\<close>

theorem send_transmit_roundtrip:
  fixes g :: "'k glue"
  assumes app: "app_ok a" "conn_idx sock = Some i" "ld_socket (local_socket_descriptors a i) = Some i"
      "ring_list (tx_rings (sm a) i) = []" "0 < ring_cap (tx_rings (sm a) i)" "refcnt (mbufs (sm a) b) = 1"
      "length (ring_list (mbuf_pool (sm a))) < ring_cap (mbuf_pool (sm a))"
    and len: "0 \<le> len" "len < 2 ^ 16"
    and srv: "sock_sk (sockets g so) = Some sk" "sk_user_data (socks g sk) = Some i"
      "sd_ringset_idx (socket_satelite_data g i) = int i"
  shows "\<exists>a' g1 g2. ipaugenblick_send sock b len a = Some (0, a') \<and>
    ipaugenblick_dequeue_tx_buf i (g\<lparr>mem := sm a'\<rparr>) = (Some b, g1) \<and> seg_len (mbufs (mem g1)) b = nat len \<and>
    user_transmitted_callback b (Some so) g1 = Some g2 \<and>
    tx_space (g_sockets (mem g2) i) = tx_space (g_sockets (sm a) i) \<and>
    ring_list (tx_rings (mem g2) i) = [] \<and> ring_list (mbuf_pool (mem g2)) = ring_list (mbuf_pool (sm a)) @ [b]"
proof -
  have i: "i < 2048" "conn_idx (int i) = Some i"
    using selector_idxD(2) [OF app(2)] by (auto simp: conn_idx_def)
  let ?r = "tx_rings (sm a) i" and ?s1 = "send_prepared i b len a"
  note ok = shm_okD [OF app_okD(1) [OF app(1)]]
  have r: "ring_ok (enq_step ?r [b] 1)" "ring_list (enq_step ?r [b] 1) = [b]"
    using ring_push [OF ok(9) [OF i(1)], of b] app(4,5) by simp_all
  note r' = ring_pop [OF r(1)]
  let ?m = "(sm ?s1)\<lparr>tx_rings := (tx_rings (sm a))(i := enq_step ?r [b] 1)\<rparr>"
  let ?a' = "?s1\<lparr>sm := upd_g_socket i (\<lambda>k. k\<lparr>tx_space := tx_space k - of_int len\<rparr>) ?m\<rparr>"
  have send: "ipaugenblick_send sock b len a = Some (0, ?a')"
    using send_eq [OF app(1-3), of b len] app(4,5) by (simp add: Let_def finish_send_def)
  let ?g1 = "g\<lparr>mem := (sm ?a')\<lparr>tx_rings := (tx_rings (sm a))(i := deq_step (enq_step ?r [b] 1) 1)\<rparr>\<rparr>"
  have deq: "ipaugenblick_dequeue_tx_buf i (g\<lparr>mem := sm ?a'\<rparr>) = (Some b, ?g1)"
    using r by (simp add: ipaugenblick_dequeue_tx_buf_def rte_ring_sc_dequeue_bulk_def sc_dequeue_fixed Let_def)
  have mb: "data_len (mbufs (sm ?s1) b) = of_int len" "refcnt (mbufs (sm ?s1) b) = 1" "mbuf_pool (sm ?s1) = mbuf_pool (sm a)"
    "tx_space (g_sockets (sm ?s1) i) = tx_space (g_sockets (sm a) i)"
    using app(6) by (simp_all add: send_prepared_def clear_write_ready_def)
  have "unat (of_int len :: u32) = nat len"
    using len by (simp add: unat_of_nat nat_less_iff take_bit_nat_eq_self flip: of_nat_nat)
  then have l: "ucast (of_int len :: u16) = (of_int len :: u32)"
    using unat_len [OF len] len
    by (intro unsigned_word_eqI [where ?'a = nat]) (simp add: unsigned_ucast_eq nat_less_iff take_bit_nat_eq_self)
  obtain g2 where g2: "user_transmitted_callback b (Some so) ?g1 = Some g2"
      "tx_space (g_sockets (mem g2) i) = tx_space (g_sockets (sm a) i)"
      "tx_rings (mem g2) i = deq_step (enq_step ?r [b] 1) 1"
      "mbuf_pool (mem g2) = enq_step (mbuf_pool (sm a)) [b] 1"
    using srv i mb l app(7) ok(6)
    by (auto simp: user_transmitted_callback_def get_user_data_def user_increment_socket_tx_space_def
        rte_pktmbuf_free_seg_def rte_pktmbuf_prefree_seg_def rte_mempool_put_ok)
  show ?thesis
    using send deq g2 mb(1) r' r(2) unat_len [OF len] ring_push [OF ok(6) app(7), of b]
    by (intro exI [of _ ?a'] exI [of _ ?g1] exI [of _ g2]) simp
qed

theorem send_transmit_roundtrip_witness:
  "\<exists>a' g1 g2. ipaugenblick_send 3 7 100 small_app = Some (0, a') \<and>
    ipaugenblick_dequeue_tx_buf 3 (small_glue\<lparr>mem := sm a'\<rparr>) = (Some 7, g1) \<and>
    user_transmitted_callback 7 (Some 30) g1 = Some g2 \<and> ring_list (mbuf_pool (mem g2)) = [10, 11, 12, 7]"
proof -
  have "refcnt (mbufs (sm small_app) 7) = 1" by (simp add: small_shm_def)
  then show ?thesis
    using send_transmit_roundtrip [of small_app 3 3 7 100 small_glue 30 300] by (auto simp: conn_idx_def)
qed


text \<open>The idle stack, with a local address for every socket.\<close>

definition naming_stack :: "unit kops" where
  "naming_stack = idle_stack\<lparr>k_inet_getname := (\<lambda>_ s. Some (\<lparr>sin_family = AF_INET, sin_addr = 7, sin_port = 5\<rparr>, s))\<rparr>"

lemma naming_stack_ok: "stack_ok naming_stack"
proof -
  have "\<exists>s1 s2. (kstep naming_stack)\<^sup>*\<^sup>* s s1 \<and> (quiet so s \<and> unqueued so s \<longrightarrow> unqueued so s1) \<and>
      kernel_private {so} s1 s2 \<and> (kstep naming_stack)\<^sup>*\<^sup>* s2 (orphan so s)" for so s
    by (rule exI [of _ s], rule exI [of _ "orphan so s"]) (simp add: orphan_private)
  then show ?thesis
    by (simp add: stack_ok_def stack_call_def) (simp add: naming_stack_def idle_stack_def)
qed


end
